(* ===== verification/Prelude.thy ===== *)
theory Prelude
  imports Main "HOL-Library.Word" "HOL-Library.AList"
begin

text \<open>
  Shared material of the development: the names of the model's basic types (addresses of
  \<^verbatim>\<open>Session\<close> objects, points of the steady clock, UDP endpoints), the
  \<^verbatim>\<open>std::unordered_map\<close> interface that most components keep their state in, the
  conversions of C++ integers the source relies on, \<^verbatim>\<open>std::to_string\<close>, and the
  interface of a transition system with an invariant, which the component theories
  interpret on their own step relations.
\<close>

named_theorems umap_simps \<open>equations of the hash map operations\<close>
named_theorems session_defs \<open>definitions of the field updates of one session\<close>

text \<open>
  \<open>addr\<close> is the identity of a heap-allocated \<^verbatim>\<open>Session\<close> (what a
  \<^verbatim>\<open>shared_ptr\<close> or \<^verbatim>\<open>weak_ptr\<close> compares); \<open>time\<close> is a
  \<^verbatim>\<open>steady_clock::time_point\<close> in nanoseconds since its epoch, so a default
  constructed time point is \<open>0\<close>; an endpoint is an address text and a port.
\<close>

type_synonym addr = nat
type_synonym time = int
type_synonym endpoint = "string \<times> nat"

type_synonym ('k, 'v) umap = "('k \<times> 'v) list"

section \<open>Definitions\<close>

subsection \<open>Unordered maps\<close>

text \<open>
  A \<^verbatim>\<open>std::unordered_map\<close> is an association list whose keys are distinct. The
  order of the list stands for the container's iteration order, which C++ leaves open.
\<close>

definition um_find :: "('k, 'v) umap \<Rightarrow> 'k \<Rightarrow> 'v option" where
  "um_find m k = map_of m k"

definition um_put :: "'k \<Rightarrow> 'v \<Rightarrow> ('k, 'v) umap \<Rightarrow> ('k, 'v) umap" where
  "um_put k v m = AList.update k v m"

definition um_erase :: "'k \<Rightarrow> ('k, 'v) umap \<Rightarrow> ('k, 'v) umap" where
  "um_erase k m = AList.delete k m"

definition um_keys :: "('k, 'v) umap \<Rightarrow> 'k list" where
  "um_keys m = map fst m"

definition um_ok :: "('k, 'v) umap \<Rightarrow> bool" where
  "um_ok m \<longleftrightarrow> distinct (um_keys m)"

subsection \<open>Integer conversions\<close>

text \<open>
  \<^verbatim>\<open>static_cast<size_t>\<close> of an \<^verbatim>\<open>int\<close> (64-bit \<^verbatim>\<open>size_t\<close>), and the
  reduction of an integer to a two's complement 32-bit \<^verbatim>\<open>int\<close>.
\<close>

definition size_t_of_int :: "int \<Rightarrow> nat" where
  "size_t_of_int i = nat (i mod 2 ^ 64)"

definition int32_wrap :: "int \<Rightarrow> int" where
  "int32_wrap i = (i + 2 ^ 31) mod 2 ^ 32 - 2 ^ 31"

text \<open>
  \<^verbatim>\<open>duration_cast\<close> to a coarser unit divides by the number of nanoseconds of that
  unit and truncates towards zero.
\<close>

definition trunc_quot :: "int \<Rightarrow> int \<Rightarrow> int" where
  "trunc_quot a b = (if a < 0 then - ((- a) div b) else a div b)"

definition to_milliseconds :: "time \<Rightarrow> int" where
  "to_milliseconds d = trunc_quot d 1000000"

definition to_seconds :: "time \<Rightarrow> int" where
  "to_seconds d = trunc_quot d 1000000000"

definition seconds :: "int \<Rightarrow> time" where
  "seconds n = n * 1000000000"

subsection \<open>Decimal text\<close>

text \<open>\<^verbatim>\<open>std::to_string\<close> of a non-negative and of a signed integer.\<close>

fun nat_str :: "nat \<Rightarrow> string" where
  "nat_str n =
     (if n < 10 then [char_of (48 + n)] else nat_str (n div 10) @ [char_of (48 + n mod 10)])"

declare nat_str.simps [simp del]

definition int_str :: "int \<Rightarrow> string" where
  "int_str i = (if i < 0 then CHR ''-'' # nat_str (nat (- i)) else nat_str (nat i))"

definition is_digit :: "char \<Rightarrow> bool" where
  "is_digit ch \<longleftrightarrow> 48 \<le> (of_char ch :: nat) \<and> (of_char ch :: nat) \<le> 57"

text \<open>The number a text of digits denotes, as \<^verbatim>\<open>std::stoi\<close> reads it.\<close>

fun digits_value :: "nat \<Rightarrow> string \<Rightarrow> nat" where
  "digits_value acc [] = acc"
| "digits_value acc (d # ds) = digits_value (acc * 10 + (of_char d - 48)) ds"

abbreviation newline :: string where
  "newline \<equiv> [CHR 0x0A]"

text \<open>Text outside ASCII is written by its UTF-8 bytes.\<close>

definition utf8 :: "nat list \<Rightarrow> string" where
  "utf8 bs = map char_of bs"

section \<open>The hash map interface\<close>

text \<open>
  What the components rely on: a lookup after an insertion, an overwrite or an erasure,
  and the number of entries. \<open>put\<close> is \<^verbatim>\<open>m[k] = v\<close>.
\<close>

locale hash_map =
  fixes find_in :: "'m \<Rightarrow> 'k \<Rightarrow> 'v option"
    and put :: "'k \<Rightarrow> 'v \<Rightarrow> 'm \<Rightarrow> 'm"
    and erase :: "'k \<Rightarrow> 'm \<Rightarrow> 'm"
    and count_of :: "'m \<Rightarrow> nat"
    and ok :: "'m \<Rightarrow> bool"
  assumes find_put: "ok m \<Longrightarrow> find_in (put k v m) k' = (if k' = k then Some v else find_in m k')"
    and find_erase: "ok m \<Longrightarrow> find_in (erase k m) k' = (if k' = k then None else find_in m k')"
    and ok_put: "ok m \<Longrightarrow> ok (put k v m)"
    and ok_erase: "ok m \<Longrightarrow> ok (erase k m)"
    and count_put: "ok m \<Longrightarrow> count_of (put k v m) = (if find_in m k = None then Suc (count_of m) else count_of m)"
    and count_erase: "ok m \<Longrightarrow> count_of (erase k m) = (if find_in m k = None then count_of m else count_of m - 1)"
begin

lemma find_fun_put: "ok m \<Longrightarrow> find_in (put k v m) = (find_in m)(k \<mapsto> v)"
  by (rule ext) (simp add: find_put)

lemma find_fun_erase: "ok m \<Longrightarrow> find_in (erase k m) = (find_in m)(k := None)"
  by (rule ext) (simp add: find_erase)

lemma put_erase_count:
  assumes "ok m" "find_in m k = None"
  shows "count_of (erase k (put k v m)) = count_of m"
  using assms by (simp add: count_erase count_put ok_put find_put)

lemma count_put_le: "ok m \<Longrightarrow> count_of (put k v m) \<le> Suc (count_of m)"
  by (simp add: count_put)

lemma count_erase_le: "ok m \<Longrightarrow> count_of (erase k m) \<le> count_of m"
  by (simp add: count_erase)

end

section \<open>Lemmas\<close>

subsection \<open>Unordered maps\<close>

lemma um_keys_put: "um_keys (um_put k v m) = (if k \<in> set (um_keys m) then um_keys m else um_keys m @ [k])"
  by (simp add: um_keys_def um_put_def update_keys)

lemma um_ok_empty [simp, intro]: "um_ok []"
  by (simp add: um_ok_def um_keys_def)

lemma um_ok_put: "um_ok m \<Longrightarrow> um_ok (um_put k v m)"
  by (simp add: um_ok_def um_keys_put)

lemma um_find_put: "um_find (um_put k v m) k' = (if k' = k then Some v else um_find m k')"
  by (simp add: um_find_def um_put_def update_conv')

lemma um_find_erase: "um_find (um_erase k m) k' = (if k' = k then None else um_find m k')"
  by (simp add: um_find_def um_erase_def delete_conv')

lemma um_ok_erase: "um_ok m \<Longrightarrow> um_ok (um_erase k m)"
  by (simp add: um_ok_def um_keys_def um_erase_def distinct_delete)

lemma um_find_None_iff: "um_find m k = None \<longleftrightarrow> k \<notin> set (um_keys m)"
  by (simp add: um_find_def um_keys_def map_of_eq_None_iff)

lemma um_erase_absent: "k \<notin> set (um_keys m) \<Longrightarrow> um_erase k m = m"
  by (simp add: um_erase_def um_keys_def delete_id)

lemma length_um_keys [simp]: "length (um_keys m) = length m"
  by (simp add: um_keys_def)

lemma length_um_put:
  "length (um_put k v m) = (if um_find m k = None then Suc (length m) else length m)"
proof -
  have "length (um_put k v m) = length (um_keys (um_put k v m))" by simp
  then show ?thesis by (simp add: um_keys_put um_find_None_iff del: length_um_keys) simp
qed

lemma length_um_erase:
  assumes "um_ok m"
  shows "length (um_erase k m) = (if um_find m k = None then length m else length m - 1)"
proof (cases "k \<in> set (um_keys m)")
  case True
  have "um_keys (um_erase k m) = remove1 k (um_keys m)"
    using assms by (simp add: um_ok_def um_keys_def um_erase_def delete_keys distinct_remove1_removeAll)
  then have "length (um_erase k m) = length (remove1 k (um_keys m))"
    by (metis length_um_keys)
  also have "\<dots> = length m - 1"
    using True by (simp add: length_remove1)
  finally show ?thesis using True by (simp add: um_find_None_iff)
next
  case False
  then show ?thesis by (simp add: um_erase_absent um_find_None_iff)
qed

lemma um_find_in_set: "um_find m k = Some v \<Longrightarrow> (k, v) \<in> set m"
  by (simp add: um_find_def map_of_SomeD)

lemma um_find_iff: "um_ok m \<Longrightarrow> um_find m k = Some v \<longleftrightarrow> (k, v) \<in> set m"
  by (simp add: um_find_def um_ok_def um_keys_def)

lemma um_find_Nil [simp]: "um_find [] k = None"
  by (simp add: um_find_def)

lemma set_um_keys: "set (um_keys m) = {k. um_find m k \<noteq> None}"
  by (auto simp: um_find_None_iff)

interpretation um: hash_map um_find um_put um_erase length um_ok
  by unfold_locales (simp_all add: um_find_put um_find_erase um_ok_put um_ok_erase length_um_put length_um_erase)

lemmas um_laws [umap_simps] = um_find_put um_find_erase

declare um_ok_put [intro] um_ok_erase [intro]

subsection \<open>Integer conversions\<close>

lemma size_t_of_int_nonneg: "0 \<le> i \<Longrightarrow> i < 2 ^ 64 \<Longrightarrow> size_t_of_int i = nat i"
  by (simp add: size_t_of_int_def)

lemma int32_wrap_range: "- (2 ^ 31) \<le> int32_wrap i \<and> int32_wrap i < 2 ^ 31"
proof -
  have "0 \<le> (i + 2 ^ 31) mod 2 ^ 32" and "(i + 2 ^ 31) mod 2 ^ 32 < (2 :: int) ^ 32"
    by (simp_all add: pos_mod_sign pos_mod_bound)
  then show ?thesis unfolding int32_wrap_def by simp
qed

lemma int32_wrap_id: "- (2 ^ 31) \<le> i \<Longrightarrow> i < 2 ^ 31 \<Longrightarrow> int32_wrap i = i"
  by (simp add: int32_wrap_def)

lemma trunc_quot_nonneg: "0 \<le> a \<Longrightarrow> trunc_quot a b = a div b"
  by (simp add: trunc_quot_def)

lemma trunc_quot_mono_nonneg: "0 \<le> a \<Longrightarrow> 0 < b \<Longrightarrow> 0 \<le> trunc_quot a b"
  by (simp add: trunc_quot_def pos_imp_zdiv_nonneg_iff)

subsection \<open>Decimal text\<close>

lemma of_char_digit: "n < 10 \<Longrightarrow> of_char (char_of (48 + n :: nat)) = (48 + n :: nat)"
  by (simp add: of_char_of)

lemma nat_str_nonempty [simp]: "nat_str n \<noteq> []"
  by (subst nat_str.simps) simp

lemma nat_str_digits: "d \<in> set (nat_str n) \<Longrightarrow> is_digit d"
proof (induction n rule: nat_str.induct)
  case (1 n)
  show ?case
  proof (cases "n < 10")
    case True
    with "1.prems" show ?thesis
      by (subst (asm) nat_str.simps) (simp add: is_digit_def of_char_digit)
  next
    case False
    then have "nat_str n = nat_str (n div 10) @ [char_of (48 + n mod 10)]"
      by (subst nat_str.simps) simp
    with "1.prems" consider "d \<in> set (nat_str (n div 10))" | "d = char_of (48 + n mod 10)"
      by auto
    then show ?thesis
      using "1.IH" False by cases (auto simp: is_digit_def of_char_digit)
  qed
qed

lemma digits_value_append: "digits_value acc (xs @ ys) = digits_value (digits_value acc xs) ys"
  by (induction xs arbitrary: acc) auto

lemma digits_value_nat_str: "digits_value 0 (nat_str n) = n"
proof (induction n rule: nat_str.induct)
  case (1 n)
  show ?case
  proof (cases "n < 10")
    case True
    then show ?thesis by (subst nat_str.simps) (simp add: of_char_digit)
  next
    case False
    with "1.IH" have IH: "digits_value 0 (nat_str (n div 10)) = n div 10" by simp
    have "digits_value 0 (nat_str n) = digits_value 0 (nat_str (n div 10) @ [char_of (48 + n mod 10)])"
      using False by (subst nat_str.simps) simp
    also have "\<dots> = n div 10 * 10 + n mod 10"
      by (simp add: digits_value_append IH of_char_digit)
    finally show ?thesis by simp
  qed
qed

lemma nat_str_inject [simp]: "nat_str m = nat_str n \<longleftrightarrow> m = n"
  by (metis digits_value_nat_str)

section \<open>Transition systems with an invariant\<close>

text \<open>
  The contract every state machine of the development is checked against: the invariant
  holds initially and no step breaks it. \<open>reach\<close> collects the states of all runs.
\<close>

inductive reach :: "('s \<Rightarrow> bool) \<Rightarrow> ('s \<Rightarrow> 's \<Rightarrow> bool) \<Rightarrow> 's \<Rightarrow> bool"
  for start :: "'s \<Rightarrow> bool" and step :: "'s \<Rightarrow> 's \<Rightarrow> bool"
where
  reach_start: "start s \<Longrightarrow> reach start step s"
| reach_step: "reach start step s \<Longrightarrow> step s t \<Longrightarrow> reach start step t"

locale transition_system =
  fixes start :: "'s \<Rightarrow> bool"
    and step :: "'s \<Rightarrow> 's \<Rightarrow> bool"
    and inv :: "'s \<Rightarrow> bool"
  assumes inv_start: "start s \<Longrightarrow> inv s"
    and inv_step: "inv s \<Longrightarrow> step s t \<Longrightarrow> inv t"
begin

lemma reach_inv: "reach start step s \<Longrightarrow> inv s"
  by (induction rule: reach.induct) (auto intro: inv_start inv_step)

lemma reach_rtranclp:
  assumes "reach start step s" "step\<^sup>*\<^sup>* s t"
  shows "inv t"
proof -
  from assms(2,1) have "reach start step t"
    by (induction rule: rtranclp_induct) (auto intro: reach_step)
  then show ?thesis by (rule reach_inv)
qed

end

end
