(* ===== verification/Json.thy ===== *)
theory Json
  imports Prelude
begin

text \<open>
  The JSON values the server exchanges with its clients and with the DB middleware
  (\<^verbatim>\<open>nlohmann::json\<close>), and the accessors of that class the source uses: the typed
  \<^verbatim>\<open>value(key, default)\<close> with the \<^verbatim>\<open>type_error\<close> it raises, \<^verbatim>\<open>contains\<close>,
  assignment through \<^verbatim>\<open>operator[]\<close> and the construction of an object from an
  initialiser list. The text parser and the printer of the library are modelled in
  \<open>JsonParser\<close> and \<open>JsonSerializer\<close>; nothing here depends on them.
\<close>

section \<open>Definitions\<close>

text \<open>
  \<^verbatim>\<open>value_t\<close>: a number is a signed or an unsigned 64-bit integer or a double, here its
  sign and the dyadic rational \<open>m * 2 powr e\<close>. An object is the \<^verbatim>\<open>std::map\<close> of its members, kept as
  the list of members in key order. The alternatives \<^verbatim>\<open>binary\<close> and \<^verbatim>\<open>discarded\<close>
  never come out of a parsed text.
\<close>

datatype json =
    JNull
  | JBool bool
  | JInt int
  | JUInt nat
  | JFloat bool nat int
  | JStr string
  | JArr "json list"
  | JObj "(string \<times> json) list"

text \<open>
  The exceptions a handler can raise, as its callers tell them apart:
  \<^verbatim>\<open>nlohmann::json::type_error\<close>, \<^verbatim>\<open>nlohmann::json::parse_error\<close>, and any other
  \<^verbatim>\<open>std::exception\<close>.
\<close>

datatype exn = Type_error | Parse_error | Std_exception

definition is_object :: "json \<Rightarrow> bool" where
  "is_object j \<longleftrightarrow> (case j of JObj _ \<Rightarrow> True | _ \<Rightarrow> False)"

fun get_string :: "json \<Rightarrow> exn + string" where
  "get_string (JStr s) = Inr s"
| "get_string _ = Inl Type_error"

text \<open>Truncation of the dyadic rational \<open>m * 2 powr e\<close> towards zero.\<close>

definition trunc_dyadic :: "int \<Rightarrow> int \<Rightarrow> int" where
  "trunc_dyadic m e = (if 0 \<le> e then m * 2 ^ nat e else trunc_quot m (2 ^ nat (- e)))"

fun get_int :: "json \<Rightarrow> exn + int" where
  "get_int (JUInt n) = Inr (int32_wrap (int n))"
| "get_int (JInt i) = Inr (int32_wrap i)"
| "get_int (JFloat neg m e) = Inr (int32_wrap (trunc_dyadic (if neg then - int m else int m) e))"
| "get_int (JBool b) = Inr (if b then 1 else 0)"
| "get_int _ = Inl Type_error"

fun value_string :: "json \<Rightarrow> string \<Rightarrow> string \<Rightarrow> exn + string" where
  "value_string (JObj ms) k d =
     (case map_of ms k of Some v \<Rightarrow> get_string v | None \<Rightarrow> Inr d)"
| "value_string _ k d = Inl Type_error"

fun value_int :: "json \<Rightarrow> string \<Rightarrow> int \<Rightarrow> exn + int" where
  "value_int (JObj ms) k d =
     (case map_of ms k of Some v \<Rightarrow> get_int v | None \<Rightarrow> Inr d)"
| "value_int _ k d = Inl Type_error"

fun json_contains :: "json \<Rightarrow> string \<Rightarrow> bool" where
  "json_contains (JObj ms) k = (map_of ms k \<noteq> None)"
| "json_contains _ k = False"

text \<open>Keys are compared byte by byte, as \<^verbatim>\<open>std::string\<close> compares.\<close>

fun key_less :: "string \<Rightarrow> string \<Rightarrow> bool" where
  "key_less _ [] = False"
| "key_less [] (_ # _) = True"
| "key_less (a # as) (b # bs) =
     ((of_char a :: nat) < of_char b \<or> a = b \<and> key_less as bs)"

fun member_put :: "string \<Rightarrow> json \<Rightarrow> (string \<times> json) list \<Rightarrow> (string \<times> json) list" where
  "member_put k v [] = [(k, v)]"
| "member_put k v ((k', v') # ms) =
     (if k = k' then (k, v) # ms
      else if key_less k k' then (k, v) # (k', v') # ms
      else (k', v') # member_put k v ms)"

text \<open>\<^verbatim>\<open>j[k] = v\<close>: a null value becomes an object; any other value raises.\<close>

fun json_set :: "string \<Rightarrow> json \<Rightarrow> json \<Rightarrow> exn + json" where
  "json_set k v JNull = Inr (JObj [(k, v)])"
| "json_set k v (JObj ms) = Inr (JObj (member_put k v ms))"
| "json_set k v _ = Inl Type_error"

definition jobj :: "(string \<times> json) list \<Rightarrow> json" where
  "jobj kvs = JObj (fold (\<lambda>(k, v). member_put k v) kvs [])"

section \<open>Lemmas\<close>

lemma map_of_member_put [simp]: "map_of (member_put k v ms) = (map_of ms)(k \<mapsto> v)"
  by (induction k v ms rule: member_put.induct) (auto simp: fun_eq_iff)

lemma value_string_jobj_put:
  "value_string (JObj (member_put k v ms)) k' d =
     (if k' = k then get_string v else value_string (JObj ms) k' d)"
  by simp

lemma value_string_ok_object: "value_string j k d = Inr s \<Longrightarrow> is_object j"
  by (cases j) (auto simp: is_object_def)

lemma value_string_Inl: "value_string j k d = Inl e \<Longrightarrow> e = Type_error"
  by (cases j; cases "case j of JObj ms \<Rightarrow> map_of ms k | _ \<Rightarrow> None")
     (auto split: option.splits elim: get_string.elims)

lemma get_int_Inl: "get_int j = Inl e \<Longrightarrow> e = Type_error"
  by (cases j) auto

lemma value_int_Inl: "value_int j k d = Inl e \<Longrightarrow> e = Type_error"
  by (cases j) (auto split: option.splits dest: get_int_Inl)

lemma get_string_Inl: "get_string j = Inl e \<Longrightarrow> e = Type_error"
  by (cases j) auto

end
