(* ===== verification/Utility.thy ===== *)
theory Utility
  imports Json
begin

text \<open>
  \<^verbatim>\<open>AppContext\<close> and \<^verbatim>\<open>Utility\<close>: the settings every component reads, the JSON
  library as parameters, the random token text, the alert to the administrators, and the
  server-wide UDP limiter, whose counters are split over shards chosen by the thread that
  handles the packet. The central result is that no second admits more packets than the
  limit, whatever threads they arrive on.
\<close>

section \<open>Definitions\<close>

text \<open>
  The part of \<^verbatim>\<open>AppContext\<close> that never changes while the server runs: the integer
  and the text entries of \<^verbatim>\<open>config.json\<close>, and the parser and the printer of
  \<^verbatim>\<open>nlohmann::json\<close>, parameters here because no component depends on how they work; their
  models are \<open>parse\<close> and \<open>dump_text\<close>. \<open>json_parse\<close> is \<^verbatim>\<open>json::parse\<close> with
  the exception it raises (\<^verbatim>\<open>parse_error\<close>, or \<^verbatim>\<open>out_of_range\<close> for a number that
  is too large, here \<open>Std_exception\<close>), \<open>json_dump\<close> is \<^verbatim>\<open>dump()\<close>. A setting whose
  JSON type is not the one asked for (\<^verbatim>\<open>type_error\<close> at its first use) is left out.
\<close>

record app_context =
  config :: "string \<Rightarrow> int option"
  config_text :: "string \<Rightarrow> string option"
  json_parse :: "string \<Rightarrow> exn + json"
  json_dump :: "json \<Rightarrow> string"

definition config_value :: "app_context \<Rightarrow> string \<Rightarrow> int \<Rightarrow> int" where
  "config_value c k d = (case config c k of Some v \<Rightarrow> v | None \<Rightarrow> d)"

definition config_string :: "app_context \<Rightarrow> string \<Rightarrow> string \<Rightarrow> string" where
  "config_string c k d = (case config_text c k of Some v \<Rightarrow> v | None \<Rightarrow> d)"

text \<open>\<^verbatim>\<open>static_cast<size_t>(config.value(k, d))\<close>\<close>

definition config_size :: "app_context \<Rightarrow> string \<Rightarrow> int \<Rightarrow> nat" where
  "config_size c k d = size_t_of_int (config_value c k d)"

text \<open>
  \<open>load_config\<close>: the new settings (an object without members before an exception) and
  whether an exception left the function. The argument is the text of the file, or
  \<open>None\<close> when it cannot be opened.
\<close>

definition load_config :: "(string \<Rightarrow> exn + json) \<Rightarrow> json \<Rightarrow> string option \<Rightarrow> json \<times> exn option" where
  "load_config parse old content =
     (case content of
        None \<Rightarrow> (JObj [], Some Std_exception)
      | Some txt \<Rightarrow> (case parse txt of Inr j \<Rightarrow> (j, None) | Inl e \<Rightarrow> (old, Some e)))"

definition get_env_secret :: "(string \<Rightarrow> string option) \<Rightarrow> string \<Rightarrow> string" where
  "get_env_secret getenv env_name = (case getenv env_name of None \<Rightarrow> [] | Some v \<Rightarrow> v)"

definition try_parse_json :: "app_context \<Rightarrow> string \<Rightarrow> json option" where
  "try_parse_json c msg = (case json_parse c msg of Inr j \<Rightarrow> Some j | Inl _ \<Rightarrow> None)"

text \<open>
  The payload of an alert: the message is put between quotes as it is, without escaping.
\<close>

definition alert_payload :: "string \<Rightarrow> string" where
  "alert_payload message = ''{\"text\":\"'' @ message @ ''\"}''"

text \<open>
  \<^verbatim>\<open>send_admin_alert\<close> returns early when libcurl has no handle to give; the network
  request that was made is kept.
\<close>

definition send_admin_alert :: "bool \<Rightarrow> string \<Rightarrow> string list \<Rightarrow> string list" where
  "send_admin_alert curl_ok message sent = (if curl_ok then sent @ [alert_payload message] else sent)"

definition hex_chars :: string where
  "hex_chars = ''0123456789abcdef''"

text \<open>The draws \<open>dis(gen)\<close> are an argument; the distribution gives values from 0 to 15.\<close>

definition generate_random_token :: "nat list \<Rightarrow> string" where
  "generate_random_token draws = map (\<lambda>d. hex_chars ! (d mod 16)) draws"

subsection \<open>The sharded limiter\<close>

record udp_rate_limiter =
  counts :: "nat list"
  window_secs :: "int list"

definition new_limiter :: "nat \<Rightarrow> udp_rate_limiter" where
  "new_limiter shard_count = \<lparr>counts = replicate shard_count 0, window_secs = replicate shard_count 0\<rparr>"

text \<open>
  One call on its own: without another thread in between, the exchange of the window
  succeeds. \<open>tid\<close> is the hash of the thread id. The counts are \<^verbatim>\<open>atomic<size_t>\<close>
  in the code and unbounded here: they differ only after \<open>2 ^ 64\<close> calls
  (\<open>limiter_run_counts\<close> below).
\<close>

definition sharded_udp_rate_limit ::
  "nat \<Rightarrow> time \<Rightarrow> nat \<Rightarrow> udp_rate_limiter \<Rightarrow> bool \<times> udp_rate_limiter" where
  "sharded_udp_rate_limit tid now limit_per_sec l =
     (if counts l = [] then (True, l)
      else let now_sec = to_seconds now;
               idx = tid mod length (counts l);
               l1 = (if now_sec \<noteq> window_secs l ! idx
                     then l\<lparr>window_secs := (window_secs l)[idx := now_sec], counts := (counts l)[idx := 0]\<rparr>
                     else l);
               l2 = l1\<lparr>counts := (counts l1)[idx := counts l1 ! idx + 1]\<rparr>
           in (sum_list (counts l2) \<le> limit_per_sec, l2))"

text \<open>A series of calls, each with its thread and time, and their answers.\<close>

fun limiter_run ::
  "nat \<Rightarrow> (nat \<times> time) list \<Rightarrow> udp_rate_limiter \<Rightarrow> bool list \<times> udp_rate_limiter" where
  "limiter_run limit [] l = ([], l)"
| "limiter_run limit ((tid, now) # calls) l =
     (let (ok, l') = sharded_udp_rate_limit tid now limit l;
          (oks, l'') = limiter_run limit calls l'
      in (ok # oks, l''))"

definition limiter_ok :: "udp_rate_limiter \<Rightarrow> bool" where
  "limiter_ok l \<longleftrightarrow> length (counts l) = length (window_secs l)"

section \<open>Lemmas\<close>

subsection \<open>Settings and tokens\<close>

lemma config_size_range: "config_size c k d < 2 ^ 64"
  by (simp add: config_size_def size_t_of_int_def nat_less_iff)

lemma length_generate_random_token [simp]: "length (generate_random_token ds) = length ds"
  by (simp add: generate_random_token_def)

lemma generate_random_token_hex: "set (generate_random_token ds) \<subseteq> set hex_chars"
proof -
  have "hex_chars ! (d mod 16) \<in> set hex_chars" for d
    by (rule nth_mem) (simp add: hex_chars_def)
  then show ?thesis by (auto simp: generate_random_token_def)
qed

subsection \<open>The sharded limiter\<close>

lemma limiter_ok_call:
  "limiter_ok l \<Longrightarrow> limiter_ok (snd (sharded_udp_rate_limit tid now limit l))"
  by (auto simp: sharded_udp_rate_limit_def limiter_ok_def Let_def)

text \<open>No count exceeds the initial total plus the number of calls, so none reaches \<open>2 ^ 64\<close> before that many calls.\<close>

lemma limiter_call_counts:
  "sum_list (counts (snd (sharded_udp_rate_limit tid now limit l))) \<le> sum_list (counts l) + 1"
proof (cases "counts l = []")
  case False
  let ?i = "tid mod length (counts l)"
  have i: "?i < length (counts l)" using False by simp
  have "sum_list ((counts l)[?i := n]) \<le> sum_list (counts l) + 1" if "n \<le> counts l ! ?i + 1" for n
    using that i by (simp add: sum_list_update)
  then show ?thesis using False i by (auto simp: sharded_udp_rate_limit_def Let_def)
qed (simp add: sharded_udp_rate_limit_def)

lemma limiter_run_counts:
  "sum_list (counts (snd (limiter_run limit calls l))) \<le> sum_list (counts l) + length calls"
proof (induction calls arbitrary: l)
  case (Cons call calls)
  obtain tid now where call: "call = (tid, now)" by fastforce
  have "sum_list (counts (snd (limiter_run limit calls (snd (sharded_udp_rate_limit tid now limit l)))))
      \<le> sum_list (counts l) + 1 + length calls"
    using Cons.IH [of "snd (sharded_udp_rate_limit tid now limit l)"] limiter_call_counts [of tid now limit l]
    by simp
  then show ?case by (simp add: call Let_def split_beta)
qed simp

text \<open>The count of the shards whose window is the given second.\<close>

definition fresh_count :: "int \<Rightarrow> udp_rate_limiter \<Rightarrow> nat" where
  "fresh_count s l = (\<Sum>i | i < length (counts l) \<and> window_secs l ! i = s. counts l ! i)"

lemma fresh_count_le: "fresh_count s l \<le> sum_list (counts l)"
proof -
  have "fresh_count s l \<le> (\<Sum>i < length (counts l). counts l ! i)"
    unfolding fresh_count_def by (rule sum_mono2) auto
  then show ?thesis by (simp add: sum_list_sum_nth atLeast0LessThan)
qed

lemma fresh_count_update:
  assumes "i < length cs" "length cs = length ws"
  shows "fresh_count s \<lparr>counts = cs[i := n], window_secs = ws[i := s]\<rparr>
    = n + (\<Sum>j | j < length cs \<and> j \<noteq> i \<and> ws ! j = s. cs ! j)"
proof -
  have "{j. j < length cs \<and> ws[i := s] ! j = s} = insert i {j. j < length cs \<and> j \<noteq> i \<and> ws ! j = s}"
    using assms by (auto simp: nth_list_update)
  then have "fresh_count s \<lparr>counts = cs[i := n], window_secs = ws[i := s]\<rparr>
      = cs[i := n] ! i + (\<Sum>j | j < length cs \<and> j \<noteq> i \<and> ws ! j = s. cs[i := n] ! j)"
    by (simp add: fresh_count_def)
  also have "(\<Sum>j | j < length cs \<and> j \<noteq> i \<and> ws ! j = s. cs[i := n] ! j)
      = (\<Sum>j | j < length cs \<and> j \<noteq> i \<and> ws ! j = s. cs ! j)"
    by (rule sum.cong) auto
  finally show ?thesis using assms by simp
qed

lemma fresh_count_call:
  assumes "limiter_ok l" "counts l \<noteq> []"
  shows "fresh_count (to_seconds now) (snd (sharded_udp_rate_limit tid now limit l))
    = Suc (fresh_count (to_seconds now) l)"
proof -
  let ?i = "tid mod length (counts l)" and ?s = "to_seconds now"
  let ?rest = "\<Sum>j | j < length (counts l) \<and> j \<noteq> ?i \<and> window_secs l ! j = ?s. counts l ! j"
  have i: "?i < length (counts l)" using assms by simp
  have l: "length (counts l) = length (window_secs l)" using assms by (simp add: limiter_ok_def)
  show ?thesis
  proof (cases "?s = window_secs l ! ?i")
    case True
    then have ws: "(window_secs l)[?i := ?s] = window_secs l" by (simp add: list_update_same_conv i l [symmetric])
    have "l = \<lparr>counts = (counts l)[?i := counts l ! ?i], window_secs = (window_secs l)[?i := ?s]\<rparr>"
      by (simp add: ws)
    then have "fresh_count ?s l = counts l ! ?i + ?rest"
      using fresh_count_update [OF i l, of ?s "counts l ! ?i"] by simp
    moreover have "snd (sharded_udp_rate_limit tid now limit l)
        = \<lparr>counts = (counts l)[?i := Suc (counts l ! ?i)], window_secs = (window_secs l)[?i := ?s]\<rparr>"
      using assms(2) True ws by (simp add: sharded_udp_rate_limit_def Let_def)
    ultimately show ?thesis using fresh_count_update [OF i l] by simp
  next
    case False
    have "{j. j < length (counts l) \<and> window_secs l ! j = ?s}
        = {j. j < length (counts l) \<and> j \<noteq> ?i \<and> window_secs l ! j = ?s}"
      using False by auto
    then have "fresh_count ?s l = ?rest" by (simp add: fresh_count_def)
    moreover have "snd (sharded_udp_rate_limit tid now limit l)
        = \<lparr>counts = (counts l)[?i := 1], window_secs = (window_secs l)[?i := ?s]\<rparr>"
      using assms(2) False i by (simp add: sharded_udp_rate_limit_def Let_def)
    ultimately show ?thesis using fresh_count_update [OF i l] by simp
  qed
qed

lemma limiter_call_admits:
  assumes "limiter_ok l" "counts l \<noteq> []" "fst (sharded_udp_rate_limit tid now limit l)"
  shows "fresh_count (to_seconds now) l < limit"
proof -
  let ?l = "snd (sharded_udp_rate_limit tid now limit l)"
  have "sum_list (counts ?l) \<le> limit"
    using assms(2,3) by (simp add: sharded_udp_rate_limit_def Let_def split: if_splits)
  with fresh_count_le [of "to_seconds now" ?l] fresh_count_call [OF assms(1,2)] show ?thesis by (metis Suc_le_lessD order_trans)
qed

lemma counts_call_nonempty:
  "counts l \<noteq> [] \<Longrightarrow> counts (snd (sharded_udp_rate_limit tid now limit l)) \<noteq> []"
  by (simp add: sharded_udp_rate_limit_def Let_def)

lemma limiter_run_admits:
  assumes "\<forall>(tid, now) \<in> set calls. to_seconds now = s"
    and "limiter_ok l" "counts l \<noteq> []"
  shows "count_list (fst (limiter_run limit calls l)) True \<le> limit - fresh_count s l"
  using assms
proof (induction calls arbitrary: l)
  case (Cons call calls)
  obtain tid now where call: "call = (tid, now)" by fastforce
  let ?r = "sharded_udp_rate_limit tid now limit l"
  have s: "to_seconds now = s" using Cons.prems(1) call by simp
  have IH: "count_list (fst (limiter_run limit calls (snd ?r))) True \<le> limit - fresh_count s (snd ?r)"
    using Cons by (intro Cons.IH) (auto simp: call counts_call_nonempty intro: limiter_ok_call)
  moreover have "fresh_count s (snd ?r) = Suc (fresh_count s l)"
    using fresh_count_call [OF Cons.prems(2,3), of now] s by simp
  moreover have "fst ?r \<Longrightarrow> fresh_count s l < limit"
    using limiter_call_admits [OF Cons.prems(2,3), of tid now limit] s by simp
  ultimately show ?case by (auto simp: call Let_def split: prod.splits)
qed simp

section \<open>Properties\<close>

text \<open>
  C20: The server-wide UDP limiter admits at most \<open>limit\<close> packets in any one second,
  whatever state the shards are in before and whatever threads the packets of that second
  arrive on.
\<close>

theorem udp_limit_per_second:
  assumes "\<forall>(tid, now) \<in> set calls. to_seconds now = s"
    and "limiter_ok l" "counts l \<noteq> []"
  shows "count_list (fst (limiter_run limit calls l)) True \<le> limit"
  using limiter_run_admits [OF assms, where limit = limit] by simp

theorem udp_limit_per_second_witness:
  "count_list (fst (limiter_run 2 [(0, 5000000000), (1, 5200000000), (2, 5900000000)]
     (new_limiter 4))) True \<le> 2
   \<and> fst (limiter_run 2 [(0, 5000000000), (1, 5200000000), (2, 5900000000)] (new_limiter 4))
       = [True, True, False]"
proof
  show "count_list (fst (limiter_run 2 [(0, 5000000000), (1, 5200000000), (2, 5900000000)]
      (new_limiter 4))) True \<le> 2"
    by (rule udp_limit_per_second [where s = 5])
       (auto simp: to_seconds_def trunc_quot_def limiter_ok_def new_limiter_def)
  show "fst (limiter_run 2 [(0, 5000000000), (1, 5200000000), (2, 5900000000)] (new_limiter 4))
      = [True, True, False]"
    by code_simp
qed

text \<open>
  The counter of a shard is only cleared by a packet that arrives on that shard. Once
  a shard has counted \<open>limit\<close> packets, every packet on the other shards is refused, in
  that second and in every later one, until that shard sees a packet again.
\<close>

theorem stale_shard_blocks_others:
  assumes "j < length (counts l)" "limit \<le> counts l ! j" "limiter_ok l"
    and "\<forall>(tid, now) \<in> set calls. tid mod length (counts l) \<noteq> j"
  shows "fst (limiter_run limit calls l) = replicate (length calls) False"
  using assms
proof (induction calls arbitrary: l)
  case (Cons call calls)
  obtain tid now where call: "call = (tid, now)" by fastforce
  let ?l = "snd (sharded_udp_rate_limit tid now limit l)" and ?i = "tid mod length (counts l)"
  have ne: "counts l \<noteq> []" and i: "?i < length (counts l)" and ij: "?i \<noteq> j"
    using Cons.prems(1,4) by (auto simp: call intro: mod_less_divisor)
  have keep: "counts ?l ! j = counts l ! j" "length (counts ?l) = length (counts l)"
    using ne ij by (simp_all add: sharded_udp_rate_limit_def Let_def)
  have "counts ?l ! j + counts ?l ! ?i \<le> sum_list (counts ?l)"
  proof -
    have "(\<Sum>k \<in> {j, ?i}. counts ?l ! k) \<le> (\<Sum>k < length (counts ?l). counts ?l ! k)"
      using Cons.prems(1) i keep(2) by (intro sum_mono2) auto
    then show ?thesis using ij by (simp add: sum_list_sum_nth atLeast0LessThan)
  qed
  moreover have "0 < counts ?l ! ?i"
    using ne i by (simp add: sharded_udp_rate_limit_def Let_def)
  ultimately have "limit < sum_list (counts ?l)" using Cons.prems(2) keep(1) by linarith
  then have "\<not> fst (sharded_udp_rate_limit tid now limit l)"
    using ne by (simp add: sharded_udp_rate_limit_def Let_def)
  moreover have "fst (limiter_run limit calls ?l) = replicate (length calls) False"
    using Cons.prems keep by (intro Cons.IH) (auto simp: call intro: limiter_ok_call)
  ultimately show ?case by (simp add: call split_beta Let_def)
qed simp

theorem stale_shard_blocks_others_witness:
  "fst (limiter_run 3 [(1, 900000000000), (1, 901000000000)]
     \<lparr>counts = [3, 0], window_secs = [5, 0]\<rparr>) = [False, False]"
  using stale_shard_blocks_others [where j = 0 and limit = 3
      and l = "\<lparr>counts = [3, 0], window_secs = [5, 0]\<rparr>" and calls = "[(1, 900000000000), (1, 901000000000)]"]
  by (simp add: limiter_ok_def numeral_eq_Suc del: limiter_run.simps)

end
