(* ===== verification/MessageBuffer.thy ===== *)
theory MessageBuffer
  imports Json "HOL-Library.Sublist"
begin

text \<open>
  \<^verbatim>\<open>MessageBufferManager\<close>: the reassembly of length-prefixed messages from the chunks
  a TCP socket delivers, with its resynchronisation on a bad length and its protective
  limit on the buffered bytes; and the framing that \<^verbatim>\<open>Session::do_write_queue\<close> and
  \<^verbatim>\<open>DBMiddlewareClient::send_framed\<close> put in front of every message. Both ends of every
  connection of the program use this pair, so the central results are that the decoder
  undoes the encoder on any split of the stream into chunks, that the extraction loop
  stops, and that the buffer stays bounded whatever the peer sends.
\<close>

section \<open>Definitions\<close>

record msg_buffer =
  buffer :: string
  last_clear_by_invalid_length :: bool

definition empty_buffer :: msg_buffer where
  "empty_buffer = \<lparr>buffer = [], last_clear_by_invalid_length = False\<rparr>"

definition MAX_PACKET_SIZE :: nat where
  "MAX_PACKET_SIZE = 64 * 4096"

definition kMaxResyncScan :: nat where
  "kMaxResyncScan = 16384"

definition ABSOLUTE_MAX_BUFFER :: nat where
  "ABSOLUTE_MAX_BUFFER = 512 * 1024"

text \<open>
  The four bytes of \<^verbatim>\<open>htonl(len)\<close> in memory order, for a length cast to
  \<^verbatim>\<open>uint32_t\<close>, and the frame that is sent.
\<close>

definition be32 :: "nat \<Rightarrow> string" where
  "be32 n = [char_of (n div 2 ^ 24), char_of (n div 2 ^ 16), char_of (n div 2 ^ 8), char_of n]"

definition frame_message :: "string \<Rightarrow> string" where
  "frame_message m = be32 (length m) @ m"

definition mbm_append :: "string \<Rightarrow> msg_buffer \<Rightarrow> msg_buffer" where
  "mbm_append chunk b = b\<lparr>buffer := buffer b @ chunk\<rparr>"

definition mbm_clear :: "msg_buffer \<Rightarrow> msg_buffer" where
  "mbm_clear b = b\<lparr>buffer := []\<rparr>"

definition read_len_at :: "string \<Rightarrow> nat \<Rightarrow> nat" where
  "read_len_at buf i =
     of_char (buf ! i) * 2 ^ 24 + of_char (buf ! (i + 1)) * 2 ^ 16
       + of_char (buf ! (i + 2)) * 2 ^ 8 + of_char (buf ! (i + 3))"

definition valid_len :: "nat \<Rightarrow> bool" where
  "valid_len n \<longleftrightarrow> 0 < n \<and> n \<le> MAX_PACKET_SIZE"

text \<open>The loop that looks for the next offset whose four bytes are an acceptable length.\<close>

function resync_scan :: "string \<Rightarrow> nat \<Rightarrow> nat \<Rightarrow> nat option" where
  "resync_scan buf limit i =
     (if i + 4 \<le> limit
      then if valid_len (read_len_at buf i) then Some i else resync_scan buf limit (Suc i)
      else None)"
  by pat_completeness auto
termination
  by (relation "measure (\<lambda>(buf, limit, i). limit - i)") auto

declare resync_scan.simps [simp del]

definition extract_message :: "msg_buffer \<Rightarrow> string option \<times> msg_buffer" where
  "extract_message b0 =
     (let b = b0\<lparr>last_clear_by_invalid_length := False\<rparr>; buf = buffer b in
      if length buf < 4 then (None, b)
      else let len_0 = read_len_at buf 0 in
        if valid_len len_0 then
          if 4 + len_0 \<le> length buf
          then (Some (take len_0 (drop 4 buf)), b\<lparr>buffer := drop (4 + len_0) buf\<rparr>)
          else (None, b)
        else
          case resync_scan buf (min (length buf) (kMaxResyncScan + 4)) 1 of
            Some i \<Rightarrow>
              let cand = read_len_at buf i in
              if i + 4 + cand \<le> length buf
              then (Some (take cand (drop 4 (drop i buf))),
                    b\<lparr>buffer := drop (4 + cand) (drop i buf)\<rparr>)
              else (None, b\<lparr>buffer := drop i buf\<rparr>)
          | None \<Rightarrow>
              if ABSOLUTE_MAX_BUFFER < length buf
              then (None, b\<lparr>buffer := [], last_clear_by_invalid_length := True\<rparr>)
              else (None, b))"

section \<open>Lemmas\<close>

subsection \<open>The scan for a length prefix\<close>

lemma resync_scan_Some:
  "resync_scan buf limit i = Some j \<Longrightarrow>
     i \<le> j \<and> j + 4 \<le> limit \<and> valid_len (read_len_at buf j)
       \<and> (\<forall>k. i \<le> k \<and> k < j \<longrightarrow> \<not> valid_len (read_len_at buf k))"
proof (induction buf limit i rule: resync_scan.induct)
  case (1 buf limit i)
  show ?case
  proof (cases "i + 4 \<le> limit \<and> \<not> valid_len (read_len_at buf i)")
    case True
    with "1.prems" have "resync_scan buf limit (Suc i) = Some j"
      by (simp add: resync_scan.simps [of buf limit i])
    with "1.IH" True have IH: "Suc i \<le> j" "j + 4 \<le> limit" "valid_len (read_len_at buf j)"
      and none: "\<forall>k. Suc i \<le> k \<and> k < j \<longrightarrow> \<not> valid_len (read_len_at buf k)" by blast+
    from none True have "\<forall>k. i \<le> k \<and> k < j \<longrightarrow> \<not> valid_len (read_len_at buf k)"
      by (metis Suc_leI nat_less_le)
    with IH show ?thesis by simp
  next
    case False
    with "1.prems" show ?thesis
      by (auto simp: resync_scan.simps [of buf limit i] split: if_splits)
  qed
qed

lemma resync_scan_None:
  "resync_scan buf limit i = None \<longleftrightarrow>
     (\<forall>k. i \<le> k \<and> k + 4 \<le> limit \<longrightarrow> \<not> valid_len (read_len_at buf k))"
proof (induction buf limit i rule: resync_scan.induct)
  case (1 buf limit i)
  show ?case
  proof (cases "i + 4 \<le> limit \<and> \<not> valid_len (read_len_at buf i)")
    case True
    with "1.IH" have IH: "resync_scan buf limit (Suc i) = None \<longleftrightarrow>
        (\<forall>k. Suc i \<le> k \<and> k + 4 \<le> limit \<longrightarrow> \<not> valid_len (read_len_at buf k))" by simp
    from True have "resync_scan buf limit i = resync_scan buf limit (Suc i)"
      by (simp add: resync_scan.simps [of buf limit i])
    with IH True show ?thesis by (metis Suc_leI nat_less_le Suc_leD)
  next
    case False
    then show ?thesis by (auto simp: resync_scan.simps [of buf limit i])
  qed
qed

lemma resync_scan_first:
  assumes "i \<le> j" "j + 4 \<le> limit" "valid_len (read_len_at buf j)"
    and "\<And>k. i \<le> k \<Longrightarrow> k < j \<Longrightarrow> \<not> valid_len (read_len_at buf k)"
  shows "resync_scan buf limit i = Some j"
proof (cases "resync_scan buf limit i")
  case None
  with assms(1-3) show ?thesis by (auto simp: resync_scan_None)
next
  case (Some j')
  from resync_scan_Some [OF this] assms show ?thesis
    by (metis Some linorder_less_linear)
qed

subsection \<open>The length prefix\<close>

lemma length_be32 [simp]: "length (be32 n) = 4"
  by (simp add: be32_def)

lemma length_frame_message [simp]: "length (frame_message m) = 4 + length m"
  by (simp add: frame_message_def)

lemma read_len_at_less: "read_len_at buf i < 2 ^ 32"
proof -
  have "of_char c < (256 :: nat)" for c :: char by (rule of_char_mod_256 [THEN mod_eq_self_iff_div_eq_0 [THEN iffD1], THEN div_eq_0_iff [THEN iffD1], THEN disjE]) auto
  then have "of_char (buf ! i) \<le> (255 :: nat)" "of_char (buf ! (i + 1)) \<le> (255 :: nat)"
    "of_char (buf ! (i + 2)) \<le> (255 :: nat)" "of_char (buf ! (i + 3)) \<le> (255 :: nat)"
    by (simp_all add: less_Suc_eq_le [symmetric])
  then show ?thesis unfolding read_len_at_def by simp
qed

lemma bytes_sum:
  assumes "(n :: nat) < 2 ^ 32"
  shows "n div 2 ^ 24 mod 256 * 2 ^ 24 + n div 2 ^ 16 mod 256 * 2 ^ 16
    + n div 2 ^ 8 mod 256 * 2 ^ 8 + n mod 256 = n"
proof -
  define a b c where "a = n div 256" and "b = a div 256" and "c = b div 256"
  have d: "n div 2 ^ 8 = a" "n div 2 ^ 16 = b" "n div 2 ^ 24 = c"
    by (simp_all add: a_def b_def c_def div_mult2_eq [symmetric])
  have "c < 256" using assms unfolding d(3) [symmetric] by (simp add: div_less_iff_less_mult)
  moreover have "n = a * 256 + n mod 256" "a = b * 256 + a mod 256" "b = c * 256 + b mod 256"
    unfolding a_def b_def c_def by simp_all
  ultimately show ?thesis unfolding d by simp
qed

lemma read_len_at_be32: "n < 2 ^ 32 \<Longrightarrow> read_len_at (be32 n @ rest) 0 = n"
  using bytes_sum [of n]
  by (simp add: read_len_at_def be32_def of_char_of numeral_2_eq_2 numeral_3_eq_3)

lemma read_len_at_drop: "i + j + 3 < length buf \<Longrightarrow> read_len_at (drop i buf) j = read_len_at buf (i + j)"
  by (simp add: read_len_at_def add.assoc)

subsection \<open>One extraction\<close>

lemma buffer_update_simps [simp]:
  "buffer (mbm_append d b) = buffer b @ d"
  "buffer (mbm_clear b) = []"
  "buffer empty_buffer = []"
  by (simp_all add: mbm_append_def mbm_clear_def empty_buffer_def)

lemma extract_short: "length (buffer b) < 4 \<Longrightarrow>
   extract_message b = (None, b\<lparr>last_clear_by_invalid_length := False\<rparr>)"
  by (simp add: extract_message_def Let_def)

lemma extract_valid:
  "4 \<le> length (buffer b) \<Longrightarrow> valid_len (read_len_at (buffer b) 0) \<Longrightarrow>
   extract_message b =
     (let n = read_len_at (buffer b) 0; b' = b\<lparr>last_clear_by_invalid_length := False\<rparr> in
      if 4 + n \<le> length (buffer b)
      then (Some (take n (drop 4 (buffer b))), b'\<lparr>buffer := drop (4 + n) (buffer b)\<rparr>)
      else (None, b'))"
  by (simp add: extract_message_def Let_def)

lemma extract_shrinks:
  assumes "extract_message b = (Some m, b')"
  shows "length (buffer b') + 5 \<le> length (buffer b)"
proof (cases "valid_len (read_len_at (buffer b) 0)")
  case True
  moreover have "4 \<le> length (buffer b)"
    using assms by (cases "length (buffer b) < 4") (simp_all add: extract_short)
  ultimately show ?thesis using assms
    by (auto simp: extract_valid Let_def valid_len_def split: if_splits)
next
  case False
  then obtain i where i: "resync_scan (buffer b) (min (length (buffer b)) (kMaxResyncScan + 4)) 1 = Some i"
    using assms by (auto simp: extract_message_def Let_def split: if_splits option.splits)
  from resync_scan_Some [OF i] have "0 < read_len_at (buffer b) i" by (simp add: valid_len_def)
  then show ?thesis using assms False i
    by (auto simp: extract_message_def Let_def split: if_splits)
qed

lemma extract_None_length:
  assumes "extract_message b = (None, b')"
  shows "length (buffer b') \<le> ABSOLUTE_MAX_BUFFER"
proof -
  have small: "n \<le> MAX_PACKET_SIZE \<Longrightarrow> 4 + n \<le> ABSOLUTE_MAX_BUFFER" for n
    by (simp add: MAX_PACKET_SIZE_def ABSOLUTE_MAX_BUFFER_def)
  consider "length (buffer b) < 4" | "4 \<le> length (buffer b)" "valid_len (read_len_at (buffer b) 0)"
    | "4 \<le> length (buffer b)" "\<not> valid_len (read_len_at (buffer b) 0)" by linarith
  then show ?thesis
  proof cases
    case 1
    with assms show ?thesis by (auto simp: extract_short ABSOLUTE_MAX_BUFFER_def)
  next
    case 2
    with assms have "length (buffer b') < 4 + read_len_at (buffer b) 0"
      by (auto simp: extract_valid Let_def split: if_splits)
    with 2 small [of "read_len_at (buffer b) 0"] show ?thesis by (simp add: valid_len_def)
  next
    case 3
    show ?thesis
    proof (cases "resync_scan (buffer b) (min (length (buffer b)) (kMaxResyncScan + 4)) 1")
      case None
      with assms 3 show ?thesis
        by (auto simp: extract_message_def Let_def split: if_splits)
    next
      case (Some i)
      with resync_scan_Some [OF Some] assms 3 small [of "read_len_at (buffer b) i"]
      show ?thesis
        by (auto simp: extract_message_def Let_def valid_len_def split: if_splits)
    qed
  qed
qed

lemma extract_flag:
  "last_clear_by_invalid_length (snd (extract_message b)) \<longleftrightarrow>
     ABSOLUTE_MAX_BUFFER < length (buffer b)
     \<and> (\<forall>i. i + 4 \<le> min (length (buffer b)) (kMaxResyncScan + 4) \<longrightarrow> \<not> valid_len (read_len_at (buffer b) i))"
proof (cases "4 \<le> length (buffer b) \<and> \<not> valid_len (read_len_at (buffer b) 0)")
  case True
  then have *: "(\<forall>i. i + 4 \<le> min (length (buffer b)) (kMaxResyncScan + 4) \<longrightarrow> \<not> valid_len (read_len_at (buffer b) i))
    \<longleftrightarrow> resync_scan (buffer b) (min (length (buffer b)) (kMaxResyncScan + 4)) 1 = None"
    unfolding resync_scan_None by (metis One_nat_def Suc_leI gr0I)
  show ?thesis unfolding * using True
    by (auto simp: extract_message_def Let_def split: if_splits option.splits)
next
  case False
  then show ?thesis
    by (cases "length (buffer b) < 4")
       (auto simp: extract_short extract_valid Let_def ABSOLUTE_MAX_BUFFER_def intro!: exI [of _ 0])
qed

lemma extract_frame:
  assumes "buffer b = frame_message m @ rest" and "valid_len (length m)"
  shows "extract_message b =
    (Some m, b\<lparr>last_clear_by_invalid_length := False, buffer := rest\<rparr>)"
proof -
  have "length m < 2 ^ 32" using assms(2) by (simp add: valid_len_def MAX_PACKET_SIZE_def)
  then have "read_len_at (buffer b) 0 = length m"
    unfolding assms(1) frame_message_def by (simp add: read_len_at_be32)
  with assms show ?thesis by (simp add: extract_valid Let_def frame_message_def)
qed

lemma extract_partial:
  assumes "strict_prefix p (frame_message m)" and "valid_len (length m)" and "buffer b = p"
  shows "extract_message b = (None, b\<lparr>last_clear_by_invalid_length := False\<rparr>)"
proof (cases "length p < 4")
  case True
  with assms(3) show ?thesis by (simp add: extract_short)
next
  case False
  from assms(1) obtain q where q: "frame_message m = p @ q" and "q \<noteq> []"
    by (auto simp: strict_prefix_def prefix_def)
  have "take 4 p = be32 (length m)"
    using q False by (metis (no_types) append_eq_conv_conj append_take_drop_id frame_message_def
        length_be32 not_less take_append take_all_iff diff_is_0_eq' append_Nil2 take0)
  then have p: "p = be32 (length m) @ drop 4 p" by (metis append_take_drop_id)
  have "length m < 2 ^ 32" using assms(2) by (simp add: valid_len_def MAX_PACKET_SIZE_def)
  then have "read_len_at p 0 = length m"
    using p by (metis read_len_at_be32)
  moreover have "length p < 4 + length m"
    using q \<open>q \<noteq> []\<close> by (metis length_append length_frame_message length_greater_0_conv less_add_same_cancel1)
  ultimately show ?thesis using assms False by (simp add: extract_valid Let_def)
qed

subsection \<open>The extraction loop\<close>

text \<open>
  \<^verbatim>\<open>while (auto m = extract_message())\<close>, as both read callbacks run it: every
  message found, in order, and the buffer the loop leaves.
\<close>

function extract_all :: "msg_buffer \<Rightarrow> string list \<times> msg_buffer" where
  "extract_all b =
     (case extract_message b of
        (None, b') \<Rightarrow> ([], b')
      | (Some m, b') \<Rightarrow> (case extract_all b' of (ms, b'') \<Rightarrow> (m # ms, b'')))"
  by pat_completeness auto
termination
  by (relation "measure (\<lambda>b. length (buffer b))") (auto dest!: sym [THEN extract_shrinks])

declare extract_all.simps [simp del]

text \<open>One chunk after another: append what a read delivered, then run the loop.\<close>

fun receive_chunks :: "msg_buffer \<Rightarrow> string list \<Rightarrow> string list \<times> msg_buffer" where
  "receive_chunks b [] = ([], b)"
| "receive_chunks b (d # ds) =
     (case extract_all (mbm_append d b) of
        (ms, b') \<Rightarrow> (case receive_chunks b' ds of (ms', b'') \<Rightarrow> (ms @ ms', b'')))"

lemma extract_all_bounded: "length (buffer (snd (extract_all b))) \<le> ABSOLUTE_MAX_BUFFER"
proof (induction b rule: extract_all.induct)
  case (1 b)
  obtain r b' where e: "extract_message b = (r, b')" by force
  show ?case
  proof (cases r)
    case None
    with e extract_None_length [of b b'] show ?thesis by (simp add: extract_all.simps [of b])
  next
    case (Some m)
    with "1.IH" [OF e [symmetric]] have "length (buffer (snd (extract_all b'))) \<le> ABSOLUTE_MAX_BUFFER"
      by blast
    with e Some show ?thesis by (auto simp: extract_all.simps [of b] split: prod.split)
  qed
qed

lemma receive_chunks_bounded:
  "length (buffer b) \<le> ABSOLUTE_MAX_BUFFER \<Longrightarrow>
   length (buffer (snd (receive_chunks b ds))) \<le> ABSOLUTE_MAX_BUFFER"
proof (induction ds arbitrary: b)
  case Nil
  then show ?case by simp
next
  case (Cons d ds)
  obtain ms b' where b': "extract_all (mbm_append d b) = (ms, b')" by force
  with extract_all_bounded [of "mbm_append d b"] have "length (buffer b') \<le> ABSOLUTE_MAX_BUFFER"
    by simp
  from Cons.IH [OF this] show ?case by (simp add: b' split: prod.split) (metis snd_conv)
qed

lemma extract_after_garbage:
  assumes buf: "buffer b = g @ frame_message m @ rest" and m: "valid_len (length m)"
    and g: "g \<noteq> []" "length g \<le> kMaxResyncScan"
    and bad: "\<And>k. k < length g \<Longrightarrow> \<not> valid_len (read_len_at (buffer b) k)"
  shows "extract_message b = (Some m, b\<lparr>last_clear_by_invalid_length := False, buffer := rest\<rparr>)"
proof -
  let ?lim = "min (length (buffer b)) (kMaxResyncScan + 4)"
  have len: "length g + 4 + length m \<le> length (buffer b)" by (simp add: buf)
  have "length m < 2 ^ 32" using m by (simp add: valid_len_def MAX_PACKET_SIZE_def)
  then have "read_len_at (drop (length g) (buffer b)) 0 = length m"
    by (simp add: buf frame_message_def read_len_at_be32)
  then have cand: "read_len_at (buffer b) (length g) = length m"
    using len by (simp add: read_len_at_drop)
  have "1 \<le> length g" using g(1) by (cases g) auto
  then have "resync_scan (buffer b) ?lim 1 = Some (length g)"
    using bad len g(2) m by (intro resync_scan_first) (simp_all add: cand)
  moreover have "\<not> valid_len (read_len_at (buffer b) 0)" using bad [of 0] g(1) by simp
  moreover have "drop (length g) (buffer b) = be32 (length m) @ m @ rest"
    by (simp add: buf frame_message_def)
  ultimately show ?thesis using len
    by (simp add: extract_message_def Let_def cand)
qed

section \<open>The stream decoder interface\<close>

text \<open>
  What a client of the framing relies on: a complete frame at the front of the buffer is
  returned and removed, and an incomplete one is left alone. \<open>decode_all\<close> repeats the
  extraction until it finds nothing.
\<close>

locale stream_decoder =
  fixes encode :: "'m \<Rightarrow> 'b list"
    and good :: "'m \<Rightarrow> bool"
    and content :: "'s \<Rightarrow> 'b list"
    and feed :: "'b list \<Rightarrow> 's \<Rightarrow> 's"
    and decode :: "'s \<Rightarrow> 'm option \<times> 's"
    and decode_all :: "'s \<Rightarrow> 'm list \<times> 's"
    and decode_chunks :: "'s \<Rightarrow> 'b list list \<Rightarrow> 'm list \<times> 's"
  assumes content_feed: "content (feed d s) = content s @ d"
    and decode_complete: "good m \<Longrightarrow> content s = encode m @ rest \<Longrightarrow>
          \<exists>s'. decode s = (Some m, s') \<and> content s' = rest"
    and decode_empty: "content s = [] \<Longrightarrow> \<exists>s'. decode s = (None, s') \<and> content s' = []"
    and decode_partial: "good m \<Longrightarrow> strict_prefix (content s) (encode m) \<Longrightarrow>
          \<exists>s'. decode s = (None, s') \<and> content s' = content s"
    and decode_all_unfold: "decode_all s =
          (case decode s of (None, s') \<Rightarrow> ([], s')
           | (Some m, s') \<Rightarrow> (case decode_all s' of (ms, s'') \<Rightarrow> (m # ms, s'')))"
    and decode_chunks_Nil: "decode_chunks s [] = ([], s)"
    and decode_chunks_Cons: "decode_chunks s (d # ds) =
          (case decode_all (feed d s) of (ms, s') \<Rightarrow>
             (case decode_chunks s' ds of (ms', s'') \<Rightarrow> (ms @ ms', s'')))"
begin

definition partial :: "'b list \<Rightarrow> bool" where
  "partial p \<longleftrightarrow> p = [] \<or> (\<exists>m. good m \<and> strict_prefix p (encode m))"

lemma decode_all_stream:
  assumes "content s = concat (map encode ms) @ p" "list_all good ms" "partial p"
  shows "\<exists>s'. decode_all s = (ms, s') \<and> content s' = p"
  using assms
proof (induction ms arbitrary: s)
  case Nil
  then have "content s = p" by simp
  with Nil.prems(3) obtain s' where "decode s = (None, s')" "content s' = p"
    using decode_empty decode_partial unfolding partial_def by metis
  then show ?case by (subst decode_all_unfold) simp
next
  case (Cons m ms)
  then obtain s1 where s1: "decode s = (Some m, s1)" "content s1 = concat (map encode ms) @ p"
    using decode_complete [of m s "concat (map encode ms) @ p"] by auto
  with Cons obtain s' where "decode_all s1 = (ms, s')" "content s' = p" by auto
  with s1 show ?case by (subst decode_all_unfold) simp
qed

lemma split_stream:
  assumes "x @ y = concat (map encode ms)" "list_all good ms"
  shows "\<exists>ms1 ms2 p. ms = ms1 @ ms2 \<and> x = concat (map encode ms1) @ p \<and> partial p
    \<and> p @ y = concat (map encode ms2)"
  using assms
proof (induction ms arbitrary: x)
  case Nil
  then show ?case by (auto simp: partial_def)
next
  case (Cons m ms)
  show ?case
  proof (cases "prefix (encode m) x")
    case True
    then obtain z where z: "x = encode m @ z" by (auto simp: prefix_def)
    with Cons.prems have "z @ y = concat (map encode ms)" "list_all good ms" by auto
    from Cons.IH [OF this] obtain ms1 ms2 p where
      "ms = ms1 @ ms2" "z = concat (map encode ms1) @ p" "partial p" "p @ y = concat (map encode ms2)"
      by blast
    with z have "m # ms = (m # ms1) @ ms2 \<and> x = concat (map encode (m # ms1)) @ p \<and> partial p
      \<and> p @ y = concat (map encode ms2)" by simp
    then show ?thesis by blast
  next
    case False
    have "prefix x (encode m @ concat (map encode ms))" using Cons.prems(1) by (metis concat.simps(2) list.simps(9) prefixI)
    with False have "strict_prefix x (encode m)"
      by (metis prefix_append prefix_order.le_less prefix_order.order_refl prefixI prefix_same_cases)
    with Cons.prems(2) have "partial x" by (auto simp: partial_def)
    then show ?thesis using Cons.prems(1) by (intro exI [of _ "[]"] exI [of _ "m # ms"] exI [of _ x]) simp
  qed
qed

lemma chunks_stream:
  assumes "content s @ concat ds = concat (map encode ms)" "list_all good ms" "partial (content s)"
  shows "\<exists>s'. decode_chunks s ds = (ms, s') \<and> content s' = []"
  using assms
proof (induction ds arbitrary: s ms)
  case Nil
  have "ms = []"
  proof (rule ccontr)
    assume "ms \<noteq> []"
    then obtain m ms' where ms: "ms = m # ms'" by (cases ms) auto
    with Nil have "content s = encode m @ concat (map encode ms')" and "good m" by auto
    with decode_complete obtain s' where "decode s = (Some m, s')" by blast
    with Nil.prems(3) show False
      using decode_empty decode_partial unfolding partial_def by (metis option.discI prod.inject)
  qed
  with Nil show ?case by (simp add: decode_chunks_Nil)
next
  case (Cons d ds)
  then have "(content s @ d) @ concat ds = concat (map encode ms)" by simp
  from split_stream [OF this Cons.prems(2)] obtain ms1 ms2 p where
    split: "ms = ms1 @ ms2" "content s @ d = concat (map encode ms1) @ p" "partial p"
      "p @ concat ds = concat (map encode ms2)" by blast
  with Cons.prems(2) decode_all_stream [of "feed d s" ms1 p]
  obtain s1 where s1: "decode_all (feed d s) = (ms1, s1)" "content s1 = p"
    by (auto simp: content_feed)
  with Cons.IH [of s1 ms2] split Cons.prems(2) obtain s' where
    "decode_chunks s1 ds = (ms2, s')" "content s' = []" by auto
  with s1 split(1) show ?case by (simp add: decode_chunks_Cons)
qed

end

interpretation tcp: stream_decoder frame_message "\<lambda>m. valid_len (length m)" buffer mbm_append
  extract_message extract_all receive_chunks
proof unfold_locales
  fix m and s :: msg_buffer and rest
  assume "valid_len (length m)" "buffer s = frame_message m @ rest"
  then show "\<exists>s'. extract_message s = (Some m, s') \<and> buffer s' = rest"
    by (simp add: extract_frame)
next
  fix s :: msg_buffer
  assume "buffer s = []"
  then show "\<exists>s'. extract_message s = (None, s') \<and> buffer s' = []"
    by (simp add: extract_short)
next
  fix m and s :: msg_buffer
  assume "valid_len (length m)" "strict_prefix (buffer s) (frame_message m)"
  then show "\<exists>s'. extract_message s = (None, s') \<and> buffer s' = buffer s"
    using extract_partial [of "buffer s" m s] by simp
qed (simp_all add: extract_all.simps)

section \<open>Properties\<close>

text \<open>
  C1: whatever messages of acceptable length a peer frames and sends, and however TCP cuts
  the byte stream into chunks, the reassembly returns exactly those messages in order and
  leaves an empty buffer.
\<close>

theorem framing_roundtrip_any_chunking:
  assumes "concat chunks = concat (map frame_message ms)"
    and "list_all (\<lambda>m. valid_len (length m)) ms"
  shows "fst (receive_chunks empty_buffer chunks) = ms
    \<and> buffer (snd (receive_chunks empty_buffer chunks)) = []"
proof -
  have "\<exists>b. receive_chunks empty_buffer chunks = (ms, b) \<and> buffer b = []"
    by (rule tcp.chunks_stream) (simp_all add: assms tcp.partial_def)
  then show ?thesis by auto
qed

theorem framing_roundtrip_any_chunking_witness:
  "fst (receive_chunks empty_buffer
      [[CHR 0x00, CHR 0x00, CHR 0x00], [CHR 0x02, CHR ''h''], [CHR ''i'', CHR 0x00, CHR 0x00, CHR 0x00, CHR 0x01, CHR ''!'']])
   = [''hi'', ''!'']"
proof -
  have "concat [[CHR 0x00, CHR 0x00, CHR 0x00], [CHR 0x02, CHR ''h''], [CHR ''i'', CHR 0x00, CHR 0x00, CHR 0x00, CHR 0x01, CHR ''!'']]
      = concat (map frame_message [''hi'', ''!''])"
    by (simp add: frame_message_def be32_def) code_simp
  moreover have "list_all (\<lambda>m. valid_len (length m)) [''hi'', ''!'']"
    by (simp add: valid_len_def MAX_PACKET_SIZE_def)
  ultimately show ?thesis using framing_roundtrip_any_chunking by blast
qed

text \<open>
  C33: whatever bytes arrive, in whatever chunks, the bytes kept between two reads never
  exceed the protective limit of 512 KiB.
\<close>

theorem receive_buffer_bounded:
  "length (buffer (snd (receive_chunks empty_buffer chunks))) \<le> ABSOLUTE_MAX_BUFFER"
  by (rule receive_chunks_bounded) simp

text \<open>
  Resynchronisation. When a frame is preceded by bytes none of whose offsets reads as
  an acceptable length, and these are at most \<open>kMaxResyncScan\<close> many, one extraction drops
  them and returns the frame's message.
\<close>

theorem resync_recovers_frame:
  assumes "buffer b = g @ frame_message m @ rest" "valid_len (length m)"
    and "g \<noteq> []" "length g \<le> kMaxResyncScan"
    and "\<forall>k < length g. \<not> valid_len (read_len_at (buffer b) k)"
  shows "extract_message b = (Some m, b\<lparr>last_clear_by_invalid_length := False, buffer := rest\<rparr>)"
  using assms by (intro extract_after_garbage) auto

theorem resync_recovers_frame_witness:
  "extract_message (mbm_append (utf8 [0, 0, 0, 0] @ frame_message ''ok'') empty_buffer) = (Some ''ok'', empty_buffer)"
proof -
  let ?b = "mbm_append (utf8 [0, 0, 0, 0] @ frame_message ''ok'') empty_buffer"
  have "\<forall>k < length (utf8 [0, 0, 0, 0]). \<not> valid_len (read_len_at (buffer ?b) k)"
  proof (intro allI impI)
    fix k assume "k < length (utf8 [0, 0, 0, 0])"
    then have "k < 4" by (simp add: utf8_def)
    then consider "k = 0" | "k = 1" | "k = 2" | "k = 3" by linarith
    then show "\<not> valid_len (read_len_at (buffer ?b) k)" 
      by cases (simp_all add: read_len_at_def utf8_def frame_message_def be32_def valid_len_def MAX_PACKET_SIZE_def)
  qed
  moreover have "valid_len (length ''ok'')" by (simp add: valid_len_def MAX_PACKET_SIZE_def)
  moreover have "length (utf8 [0, 0, 0, 0]) \<le> kMaxResyncScan" by (simp add: utf8_def kMaxResyncScan_def)
  ultimately have "extract_message ?b =
      (Some ''ok'', ?b\<lparr>last_clear_by_invalid_length := False, buffer := []\<rparr>)"
    by (intro resync_recovers_frame [where g = "utf8 [0, 0, 0, 0]"]) (simp_all add: utf8_def)
  then show ?thesis by (simp add: mbm_append_def empty_buffer_def)
qed

text \<open>
  The flag that makes both read callbacks drop the connection is raised by exactly the
  extractions that find more than 512 KiB buffered and no acceptable length at any offset
  the scan looks at.
\<close>

theorem invalid_length_flag_iff:
  "last_clear_by_invalid_length (snd (extract_message b)) \<longleftrightarrow>
     ABSOLUTE_MAX_BUFFER < length (buffer b)
     \<and> (\<forall>i. i + 4 \<le> min (length (buffer b)) (kMaxResyncScan + 4) \<longrightarrow>
           \<not> valid_len (read_len_at (buffer b) i))"
  by (rule extract_flag)

theorem invalid_length_flag_iff_witness:
  "last_clear_by_invalid_length (snd (extract_message
     \<lparr>buffer = replicate 600000 (CHR 0x00), last_clear_by_invalid_length = False\<rparr>))"
proof -
  have "read_len_at (replicate 600000 (CHR 0x00)) i = 0" if "i + 4 \<le> 600000" for i
    using that by (simp add: read_len_at_def)
  then show ?thesis
    by (simp add: invalid_length_flag_iff valid_len_def ABSOLUTE_MAX_BUFFER_def)
qed

end
