(* ===== verification/DoubleArith.thy ===== *)
theory DoubleArith
  imports Complex_Main Prelude
begin

text \<open>
  IEEE 754 double precision as far as \<^verbatim>\<open>Session::checkUdpRateLimit\<close> uses it: the
  correctly rounded quotient and product of non-negative values (53 significant bits,
  round half to even) and the truncating cast to an integer. A double is the pair
  \<open>(m, e)\<close> with value \<open>m * 2 powr e\<close>. Values are far from the overflow and the
  subnormal ranges, which are left out.
\<close>

section \<open>Definitions\<close>

fun bit_len :: "nat \<Rightarrow> nat" where
  "bit_len n = (if n = 0 then 0 else Suc (bit_len (n div 2)))"

declare bit_len.simps [simp del]

text \<open>The exponent of \<open>n / d\<close>: the largest power of two that is not above it.\<close>

definition ratio_log2 :: "nat \<Rightarrow> nat \<Rightarrow> int" where
  "ratio_log2 n d =
     (let b = int (bit_len n) - int (bit_len d) in
      if d * 2 ^ nat b \<le> n * 2 ^ nat (- b) then b else b - 1)"

definition round_half_even :: "nat \<Rightarrow> nat \<Rightarrow> nat" where
  "round_half_even num den =
     (let q = num div den; r = num mod den in
      if 2 * r < den then q else if den < 2 * r then Suc q else if even q then q else Suc q)"

type_synonym double = "nat \<times> int"

definition double_of_ratio :: "nat \<Rightarrow> nat \<Rightarrow> double" where
  "double_of_ratio n d =
     (if n = 0 then (0, 0)
      else let k = 52 - ratio_log2 n d in
           (round_half_even (n * 2 ^ nat k) (d * 2 ^ nat (- k)), - k))"

definition double_div :: "double \<Rightarrow> nat \<Rightarrow> double" where
  "double_div x c = (case x of (m, e) \<Rightarrow> double_of_ratio (m * 2 ^ nat e) (c * 2 ^ nat (- e)))"

definition double_mult :: "double \<Rightarrow> nat \<Rightarrow> double" where
  "double_mult x c = (case x of (m, e) \<Rightarrow> double_of_ratio (m * c * 2 ^ nat e) (2 ^ nat (- e)))"

definition double_trunc :: "double \<Rightarrow> nat" where
  "double_trunc x = (case x of (m, e) \<Rightarrow> (m * 2 ^ nat e) div 2 ^ nat (- e))"

section \<open>Lemmas\<close>

definition dval :: "double \<Rightarrow> real" where
  "dval x = (case x of (m, e) \<Rightarrow> real m * 2 ^ nat e / 2 ^ nat (- e))"

lemma bit_len_upper: "n < 2 ^ bit_len n"
proof (induction n rule: bit_len.induct)
  case (1 n)
  show ?case
  proof (cases "n = 0")
    case False
    with "1.IH" have "n div 2 < 2 ^ bit_len (n div 2)" by simp
    then have "n < 2 * 2 ^ bit_len (n div 2)" by linarith
    with False show ?thesis by (simp add: bit_len.simps [of n])
  qed simp
qed

lemma bit_len_lower: "0 < n \<Longrightarrow> 2 ^ bit_len n \<le> 2 * n"
proof (induction n rule: bit_len.induct)
  case (1 n)
  show ?case
  proof (cases "n div 2 = 0")
    case True
    with "1.prems" have "n = 1" by linarith
    then show ?thesis by (simp add: bit_len.simps)
  next
    case False
    with "1" have "2 ^ bit_len (n div 2) \<le> 2 * (n div 2)" by simp
    then show ?thesis using "1.prems" by (simp add: bit_len.simps [of n])
  qed
qed

lemma ratio_log2_bound:
  assumes "0 < n" "0 < d"
  shows "d * 2 ^ nat (ratio_log2 n d) \<le> n * 2 ^ nat (- ratio_log2 n d)"
proof -
  define b where "b = int (bit_len n) - int (bit_len d)"
  show ?thesis
  proof (cases "d * 2 ^ nat b \<le> n * 2 ^ nat (- b)")
    case True
    then show ?thesis by (simp add: ratio_log2_def b_def [symmetric])
  next
    case False
    have up: "d < 2 ^ bit_len d" and lo: "2 ^ bit_len n \<le> 2 * n"
      using bit_len_upper bit_len_lower assms by auto
    have "d * 2 ^ nat (b - 1) \<le> n * 2 ^ nat (- (b - 1))"
    proof (cases "1 \<le> b")
      case True
      then have "bit_len n = bit_len d + nat b" by (simp add: b_def)
      then have "2 ^ bit_len d * 2 ^ nat b \<le> 2 * n" using lo by (simp add: power_add)
      moreover have "(2 :: nat) ^ nat b = 2 * 2 ^ nat (b - 1)"
        using True by (metis Suc_nat_eq_nat_zadd1 add.commute diff_add_cancel diff_ge_0_iff_ge power_Suc)
      ultimately have "2 ^ bit_len d * 2 ^ nat (b - 1) \<le> n" by simp
      then show ?thesis using up True
        by simp (meson le_less_trans less_imp_le_nat mult_le_mono1 order_trans)
    next
      case b: False
      then have "bit_len d = bit_len n + nat (- b)" by (simp add: b_def)
      then have "d < 2 * n * 2 ^ nat (- b)"
        using up lo by (metis less_le_trans mult_le_mono1 power_add)
      moreover have "(2 :: nat) ^ nat (- (b - 1)) = 2 * 2 ^ nat (- b)"
        using b by (simp add: Suc_nat_eq_nat_zadd1 [symmetric] power_Suc [symmetric] del: power_Suc)
      ultimately show ?thesis using b by simp
    qed
    then show ?thesis using False by (simp add: ratio_log2_def b_def [symmetric])
  qed
qed

lemma ratio_log2_le:
  assumes "0 < n" "0 < d" "n < d * 2 ^ Suc l"
  shows "ratio_log2 n d \<le> int l"
proof (rule ccontr)
  assume "\<not> ?thesis"
  then have r: "Suc l \<le> nat (ratio_log2 n d)" "nat (- ratio_log2 n d) = 0" by simp_all
  with ratio_log2_bound [OF assms(1,2)] have "d * 2 ^ nat (ratio_log2 n d) \<le> n" by simp
  moreover have "d * 2 ^ Suc l \<le> d * 2 ^ nat (ratio_log2 n d)"
    using r(1) by (intro mult_le_mono2 power_increasing) auto
  ultimately show False using assms(3) by linarith
qed

lemma round_half_even_bounds:
  assumes "0 < den"
  shows "2 * num \<le> 2 * round_half_even num den * den + den"
    and "2 * round_half_even num den * den \<le> 2 * num + den"
proof -
  define q r where "q = num div den" and "r = num mod den"
  have n: "num = q * den + r" and r: "r < den"
    using assms by (simp_all add: q_def r_def)
  have s: "Suc q * den = q * den + den" by simp
  have c: "round_half_even num den = q \<and> 2 * r \<le> den \<or> round_half_even num den = Suc q \<and> den \<le> 2 * r"
    by (simp add: round_half_even_def Let_def q_def [symmetric] r_def [symmetric])
  then show "2 * num \<le> 2 * round_half_even num den * den + den"
    and "2 * round_half_even num den * den \<le> 2 * num + den"
    using n s r by (auto simp: mult.assoc)
qed

text \<open>
  A result whose unit in the last place is at most \<open>2 powr - j\<close> is within half a unit of
  the exact value.
\<close>

lemma double_of_ratio_error:
  assumes "0 < d" "n < d * 2 ^ Suc l" "l + j \<le> 52"
  shows "\<bar>dval (double_of_ratio n d) - real n / real d\<bar> \<le> 1 / 2 ^ Suc j"
proof (cases "n = 0")
  case True
  then show ?thesis by (simp add: double_of_ratio_def dval_def)
next
  case False
  define k where "k = nat (52 - ratio_log2 n d)"
  have "ratio_log2 n d \<le> int l" using ratio_log2_le assms False by blast
  then have kj: "j \<le> k" and k: "52 - ratio_log2 n d = int k" using assms(3) by (simp_all add: k_def)
  let ?m = "round_half_even (n * 2 ^ k) d"
  have v: "dval (double_of_ratio n d) = real ?m / 2 ^ k"
    using False by (simp add: double_of_ratio_def Let_def dval_def k)
  have "real (2 * (n * 2 ^ k)) \<le> real (2 * ?m * d + d)" "real (2 * ?m * d) \<le> real (2 * (n * 2 ^ k) + d)"
    using round_half_even_bounds [OF assms(1), of "n * 2 ^ k"] by (simp_all only: of_nat_le_iff)
  then have "2 * (real n * 2 ^ k) \<le> 2 * (real ?m * real d) + real d"
    and "2 * (real ?m * real d) \<le> 2 * (real n * 2 ^ k) + real d"
    by (simp_all add: mult.assoc)
  then have "\<bar>real ?m * real d - real n * 2 ^ k\<bar> \<le> real d / 2" by linarith
  moreover have "real ?m / 2 ^ k - real n / real d = (real ?m * real d - real n * 2 ^ k) / (2 ^ k * real d)"
    using assms(1) by (simp add: field_simps)
  moreover have "\<bar>(real ?m * real d - real n * 2 ^ k) / (2 ^ k * real d)\<bar>
      = \<bar>real ?m * real d - real n * 2 ^ k\<bar> / (2 ^ k * real d)"
    by (simp add: abs_mult)
  ultimately have "\<bar>real ?m / 2 ^ k - real n / real d\<bar> \<le> (real d / 2) / (2 ^ k * real d)"
    by (metis divide_right_mono mult_nonneg_nonneg of_nat_0_le_iff zero_le_numeral zero_le_power)
  also have "\<dots> = 1 / 2 ^ Suc k" using assms(1) by simp
  also have "\<dots> \<le> 1 / 2 ^ Suc j"
    using kj by (intro divide_left_mono power_increasing) auto
  finally show ?thesis by (simp add: v)
qed

lemma dval_nonneg: "0 \<le> dval x"
  by (simp add: dval_def split: prod.split)

lemma double_trunc_floor: "double_trunc x = nat \<lfloor>dval x\<rfloor>"
proof (cases x)
  case (Pair m e)
  have "\<lfloor>real (m * 2 ^ nat e) / real (2 ^ nat (- e))\<rfloor> = int ((m * 2 ^ nat e) div 2 ^ nat (- e))"
    by (simp only: floor_divide_of_nat_eq)
  with Pair show ?thesis by (simp add: double_trunc_def dval_def)
qed

text \<open>
  The quotient of an integer below \<open>2 ^ 53\<close> by a constant and the product of the result
  with a constant, each with its rounding error.
\<close>

lemma double_of_nat_exact:
  assumes "n < 2 ^ 53"
  shows "dval (double_of_ratio n 1) = real n"
proof (cases "n = 0")
  case True
  then show ?thesis by (simp add: double_of_ratio_def dval_def)
next
  case False
  have "ratio_log2 n 1 \<le> int 52" using ratio_log2_le [of n 1 52] assms False by simp
  then obtain k where k: "52 - ratio_log2 n 1 = int k" by (metis nat_int_comparison(3) zero_le_imp_eq_int diff_ge_0_iff_ge int_ops(3) of_nat_numeral)
  then show ?thesis using False
    by (simp add: double_of_ratio_def dval_def round_half_even_def Let_def)
qed

lemma dval_ratio: "dval (m, e) = real (m * 2 ^ nat e) / real (2 ^ nat (- e))"
  by (simp add: dval_def)

lemma double_div_error:
  assumes "0 < c" "dval x < real c * 2 ^ Suc l" "l + j \<le> 52"
  shows "\<bar>dval (double_div x c) - dval x / real c\<bar> \<le> 1 / 2 ^ Suc j"
proof (cases x)
  case (Pair m e)
  let ?n = "m * 2 ^ nat e" and ?d = "c * 2 ^ nat (- e)"
  have x: "dval x = real ?n / real (2 ^ nat (- e))" by (simp add: Pair dval_ratio)
  with assms(2) have "real ?n < real (?d * 2 ^ Suc l)"
    by (simp add: pos_divide_less_eq mult_ac)
  then have "?n < ?d * 2 ^ Suc l" by (simp only: of_nat_less_iff)
  from double_of_ratio_error [OF _ this assms(3)] assms(1)
  have "\<bar>dval (double_of_ratio ?n ?d) - real ?n / real ?d\<bar> \<le> 1 / 2 ^ Suc j" by simp
  moreover have "real ?n / real ?d = dval x / real c" by (simp add: x)
  ultimately show ?thesis by (simp add: double_div_def Pair)
qed

lemma double_mult_error:
  assumes "dval x * real c < 2 ^ Suc l" "l + j \<le> 52"
  shows "\<bar>dval (double_mult x c) - dval x * real c\<bar> \<le> 1 / 2 ^ Suc j"
proof (cases x)
  case (Pair m e)
  let ?n = "m * c * 2 ^ nat e" and ?d = "2 ^ nat (- e) :: nat"
  have x: "dval x * real c = real ?n / real ?d" by (simp add: Pair dval_ratio)
  with assms(1) have "real ?n < real (?d * 2 ^ Suc l)"
    by (simp add: pos_divide_less_eq mult_ac)
  then have "?n < ?d * 2 ^ Suc l" by (simp only: of_nat_less_iff)
  from double_of_ratio_error [OF _ this assms(2)]
  have "\<bar>dval (double_of_ratio ?n ?d) - real ?n / real ?d\<bar> \<le> 1 / 2 ^ Suc j" by simp
  then have "\<bar>dval (double_of_ratio ?n ?d) - dval x * real c\<bar> \<le> 1 / 2 ^ Suc j"
    unfolding x .
  then show ?thesis by (simp add: double_mult_def Pair)
qed

text \<open>
  \<open>(e / 1000.0) * 60\<close> truncated: never above the exact \<open>3 * e div 50\<close> and at most one
  below it.
\<close>

lemma double_scaled_trunc:
  fixes e :: nat
  assumes "e < 2 ^ 35"
  defines "r \<equiv> double_trunc (double_mult (double_div (double_of_ratio e 1) 1000) 60)"
  shows "r \<le> 3 * e div 50" and "3 * e div 50 \<le> Suc r"
proof -
  let ?x0 = "double_of_ratio e 1" let ?x1 = "double_div ?x0 1000" let ?x2 = "double_mult ?x1 60"
  have x0: "dval ?x0 = real e" using assms(1) by (intro double_of_nat_exact) simp
  have e: "real e < 2 ^ 35" using assms by (metis of_nat_less_iff of_nat_numeral of_nat_power)
  have e1: "\<bar>dval ?x1 - real e / 1000\<bar> \<le> 1 / 2 ^ Suc 22"
    using double_div_error [of 1000 ?x0 30 22, unfolded x0] e by simp
  then have "dval ?x1 \<le> real e / 1000 + 1 / 2 ^ Suc 22" by linarith
  with e have "dval ?x1 * 60 < 2 ^ Suc 36" by simp
  then have e2: "\<bar>dval ?x2 - dval ?x1 * 60\<bar> \<le> 1 / 2 ^ Suc 16"
    using double_mult_error [of ?x1 60 36 16] by simp
  have "\<bar>a - e' / 1000\<bar> \<le> 1 / 8388608 \<Longrightarrow> \<bar>b - a * 60\<bar> \<le> 1 / 131072 \<Longrightarrow> \<bar>b - 3 * e' / 50\<bar> < 1 / 50"
    for a b e' :: real by linarith
  with e1 e2 have d: "\<bar>dval ?x2 - 3 * real e / 50\<bar> < 1 / 50" by simp
  define q t where "q = 3 * e div 50" and "t = 3 * e mod 50"
  have "3 * e = 50 * q + t" and t: "t \<le> 49" by (simp_all add: q_def t_def)
  then have "3 * real e = 50 * real q + real t" by (metis of_nat_add of_nat_mult of_nat_numeral)
  moreover have "real t \<le> 49" using t by simp
  ultimately have "dval ?x2 < real q + 1" "real q - 1 < dval ?x2" using d by linarith+
  then have "\<lfloor>dval ?x2\<rfloor> \<le> int q" "int q - 1 \<le> \<lfloor>dval ?x2\<rfloor>" by linarith+
  then show "r \<le> 3 * e div 50" and "3 * e div 50 \<le> Suc r"
    unfolding r_def double_trunc_floor q_def [symmetric] by linarith+
qed

end
