(* ===== verification/Session.thy ===== *)
theory Session
  imports Utility MessageBuffer DoubleArith
begin

text \<open>
  \<^verbatim>\<open>Session\<close>, as far as one object is concerned: its fields, construction, the reset
  for a new client, the cleanup, the life cycle, the UDP token with its time to live, the
  per-client token bucket, and the bounded queue of outgoing messages. What a session does
  through its strand, its socket and the other components is in \<open>World.thy\<close>.
\<close>

section \<open>Definitions\<close>

datatype session_state = Handshaking | Handshaked | LoginWait | Ready | Closed

text \<open>\<open>LifeClosed\<close> is \<^verbatim>\<open>LifeState::Closed\<close>.\<close>

datatype life_state = Idle | Active | Closing | LifeClosed | Released

text \<open>
  Every session has a strand of its own, replaced when the object is reset for a new
  client; the UDP sender, each zone, the DB router and the DB client have one. \<open>ReadTask\<close> is the only task ever put in
  a task queue, the \<^verbatim>\<open>async_read_some\<close> of \<^verbatim>\<open>do_read\<close>.
\<close>

datatype strand_id = SessStrand nat | UdpSendStrand | ZoneStrand int | RouterStrand | ClientStrand

datatype task = ReadTask

text \<open>
  The fields of the class, with the connection number for the socket (\<open>None\<close> when it is
  not open) and the expiry of a pending wait for the login timer. \<^verbatim>\<open>data_\<close>,
  \<^verbatim>\<open>message_\<close>, \<^verbatim>\<open>line_buffer_\<close> and the packet window are only ever cleared,
  \<^verbatim>\<open>retry_timer_\<close> and \<^verbatim>\<open>release_callback_\<close> are never used; they are left out.
\<close>

record session =
  write_queue_overflow_count :: "64 word"
  socket :: "nat option"
  strand :: strand_id
  session_id :: int
  nickname :: string
  read_pending :: bool
  task_queue :: "task list"
  task_running :: bool
  msg_buf_mgr :: msg_buffer
  write_queue :: "string list"
  write_in_progress :: bool
  closed_flag :: bool
  login_timer :: "time option"
  nickname_registered :: bool
  last_alive_time :: time
  state :: session_state
  udp_endpoint :: "endpoint option"
  udp_ep_update_time :: time
  last_udp_alive_time :: time
  udp_token :: string
  zone_id :: int
  generation :: "64 word"
  life_state :: life_state
  udpTokens :: int
  lastUdpTokenRefill :: time
  zone :: "int option"
  udp_token_issued :: time
  udp_token_ttl_sec :: int

definition maxTokens :: int where
  "maxTokens = 120"

definition refillRatePerSec :: nat where
  "refillRatePerSec = 60"

definition session_new :: "time \<Rightarrow> int \<Rightarrow> strand_id \<Rightarrow> session" where
  "session_new now sid st =
     \<lparr>write_queue_overflow_count = 0, socket = None, strand = st, session_id = sid, nickname = [],
      read_pending = False, task_queue = [], task_running = False, msg_buf_mgr = empty_buffer,
      write_queue = [], write_in_progress = False, closed_flag = False, login_timer = None,
      nickname_registered = False, last_alive_time = now, state = Handshaking,
      udp_endpoint = None, udp_ep_update_time = 0, last_udp_alive_time = 0, udp_token = [],
      zone_id = 0, generation = 0, life_state = Idle, udpTokens = maxTokens,
      lastUdpTokenRefill = now, zone = None, udp_token_issued = 0, udp_token_ttl_sec = 300\<rparr>"

text \<open>Reuse for a new connection: a new socket, strand and timer, and fresh client state.\<close>

definition session_reset :: "time \<Rightarrow> nat \<Rightarrow> int \<Rightarrow> strand_id \<Rightarrow> session \<Rightarrow> session" where
  "session_reset now conn sid st s = s\<lparr>
     socket := Some conn, strand := st, login_timer := None,
     session_id := sid, nickname := [],
     closed_flag := False, read_pending := False, task_running := False,
     task_queue := [], write_queue := [],
     state := Handshaking,
     udp_endpoint := None, udp_ep_update_time := 0, last_udp_alive_time := 0, udp_token := [],
     zone_id := 0,
     last_alive_time := now, nickname_registered := False,
     msg_buf_mgr := mbm_clear (msg_buf_mgr s),
     generation := generation s + 1,
     udp_token_issued := 0, udp_token_ttl_sec := 300\<rparr>"

definition session_cleanup :: "session \<Rightarrow> session" where
  "session_cleanup s = s\<lparr>
     nickname := [],
     udp_endpoint := None, udp_ep_update_time := 0, last_udp_alive_time := 0, udp_token := [],
     zone := None, zone_id := -1,
     task_queue := [], write_queue := [],
     login_timer := None,
     generation := generation s + 1,
     closed_flag := False, read_pending := False, task_running := False,
     nickname_registered := False,
     life_state := Idle\<rparr>"

subsection \<open>Life cycle\<close>

definition try_activate :: "session \<Rightarrow> bool \<times> session" where
  "try_activate s = (if life_state s = Idle then (True, s\<lparr>life_state := Active\<rparr>) else (False, s))"

definition try_close :: "session \<Rightarrow> bool \<times> session" where
  "try_close s =
     (if life_state s = Active then (True, s\<lparr>life_state := Closing\<rparr>)
      else if life_state s = Idle then (True, s\<lparr>life_state := Closing\<rparr>)
      else (False, s))"

definition finalize_close :: "session \<Rightarrow> session" where
  "finalize_close s = s\<lparr>life_state := LifeClosed\<rparr>"

definition mark_released :: "session \<Rightarrow> session" where
  "mark_released s = s\<lparr>life_state := Released\<rparr>"

definition set_active :: "bool \<Rightarrow> session \<Rightarrow> session" where
  "set_active v s =
     (if v then snd (try_activate s)
      else if life_state s = Active then s\<lparr>life_state := Idle\<rparr> else s)"

definition is_active :: "session \<Rightarrow> bool" where
  "is_active s \<longleftrightarrow> life_state s = Active"

definition is_released :: "session \<Rightarrow> bool" where
  "is_released s \<longleftrightarrow> life_state s = Released"

subsection \<open>Reading and login\<close>

text \<open>\<^verbatim>\<open>!read_pending_.exchange(true)\<close>\<close>

definition try_acquire_read :: "session \<Rightarrow> bool \<times> session" where
  "try_acquire_read s = (\<not> read_pending s, s\<lparr>read_pending := True\<rparr>)"

definition release_read :: "session \<Rightarrow> session" where
  "release_read s = s\<lparr>read_pending := False\<rparr>"

definition on_nickname_registered :: "session \<Rightarrow> session" where
  "on_nickname_registered s = s\<lparr>nickname_registered := True, state := Ready, login_timer := None\<rparr>"

definition update_alive_time :: "time \<Rightarrow> session \<Rightarrow> session" where
  "update_alive_time now s = s\<lparr>last_alive_time := now\<rparr>"

definition get_client_ip :: "(nat \<Rightarrow> endpoint option) \<Rightarrow> session \<Rightarrow> string" where
  "get_client_ip remote s =
     (case Option.bind (socket s) remote of Some (ip, _) \<Rightarrow> ip | None \<Rightarrow> ''unknown'')"

definition get_client_port :: "(nat \<Rightarrow> endpoint option) \<Rightarrow> session \<Rightarrow> nat" where
  "get_client_port remote s =
     (case Option.bind (socket s) remote of Some (_, port) \<Rightarrow> port | None \<Rightarrow> 0)"

fun state_to_string :: "session_state \<Rightarrow> string" where
  "state_to_string Handshaking = ''Handshaking''"
| "state_to_string LoginWait = ''LoginWait''"
| "state_to_string Ready = ''Ready''"
| "state_to_string Closed = ''Closed''"
| "state_to_string Handshaked = ''Unknown''"

subsection \<open>UDP endpoint and token\<close>

definition set_udp_endpoint :: "time \<Rightarrow> endpoint \<Rightarrow> session \<Rightarrow> session" where
  "set_udp_endpoint now ep s = s\<lparr>udp_endpoint := Some ep, udp_ep_update_time := now\<rparr>"

definition clear_udp_endpoint :: "session \<Rightarrow> session" where
  "clear_udp_endpoint s = s\<lparr>udp_endpoint := None\<rparr>"

definition update_udp_alive_time :: "time \<Rightarrow> session \<Rightarrow> session" where
  "update_udp_alive_time now s = s\<lparr>last_udp_alive_time := now\<rparr>"

definition set_udp_token :: "app_context \<Rightarrow> time \<Rightarrow> string \<Rightarrow> session \<Rightarrow> session" where
  "set_udp_token c now token s = s\<lparr>udp_token := token, udp_token_issued := now,
     udp_token_ttl_sec := config_value c ''udp_token_ttl_seconds'' 300\<rparr>"

definition set_udp_token_ttl :: "int \<Rightarrow> session \<Rightarrow> session" where
  "set_udp_token_ttl secs s = s\<lparr>udp_token_ttl_sec := secs\<rparr>"

definition is_udp_token_valid :: "time \<Rightarrow> session \<Rightarrow> bool" where
  "is_udp_token_valid now s =
     (if udp_token s = [] \<or> udp_token_issued s = 0 then False
      else to_seconds (now - udp_token_issued s) \<le> udp_token_ttl_sec s)"

definition clear_udp_token :: "session \<Rightarrow> session" where
  "clear_udp_token s = s\<lparr>udp_token := [], udp_token_issued := 0\<rparr>"

subsection \<open>Token bucket\<close>

text \<open>\<^verbatim>\<open>static_cast<int>((elapsed / 1000.0) * refillRatePerSec_)\<close>, in double precision.\<close>

definition refill_amount :: "int \<Rightarrow> int" where
  "refill_amount elapsed =
     (let r = int (double_trunc (double_mult
                (double_div (double_of_ratio (nat \<bar>elapsed\<bar>) 1) 1000) refillRatePerSec))
      in if elapsed < 0 then - r else r)"

definition checkUdpRateLimit :: "time \<Rightarrow> session \<Rightarrow> bool \<times> session" where
  "checkUdpRateLimit now s =
     (let elapsed = to_milliseconds (now - lastUdpTokenRefill s);
          refill = refill_amount elapsed;
          s1 = (if 0 < refill
                then s\<lparr>udpTokens := min (udpTokens s + refill) maxTokens, lastUdpTokenRefill := now\<rparr>
                else s)
      in if 0 < udpTokens s1 then (True, s1\<lparr>udpTokens := udpTokens s1 - 1\<rparr>) else (False, s1))"

subsection \<open>Outgoing messages\<close>

text \<open>
  \<open>enqueue_write\<close> also says whether it ended in \<^verbatim>\<open>close_session()\<close>, before the push.
\<close>

definition enqueue_write :: "app_context \<Rightarrow> string \<Rightarrow> session \<Rightarrow> session \<times> bool" where
  "enqueue_write c msg s =
     (if config_size c ''max_write_queue_size'' 100 \<le> length (write_queue s)
      then let n = write_queue_overflow_count s + 1;
               s1 = s\<lparr>write_queue := tl (write_queue s), write_queue_overflow_count := n\<rparr>
           in if config_size c ''write_queue_overflow_limit'' 10 \<le> unat n then (s1, True)
              else (s1\<lparr>write_queue := write_queue s1 @ [msg]\<rparr>, False)
      else let s1 = s\<lparr>write_queue_overflow_count := 0\<rparr>
           in (s1\<lparr>write_queue := write_queue s1 @ [msg]\<rparr>, False))"

text \<open>
  The check of \<open>post_task\<close> and the push: the new state and whether the queue was full, in
  which case the session is closed.
\<close>

definition enqueue_task :: "app_context \<Rightarrow> task \<Rightarrow> session \<Rightarrow> session \<times> bool" where
  "enqueue_task c fn s =
     (if config_size c ''max_task_queue'' 1000 \<le> length (task_queue s) then (s, True)
      else (s\<lparr>task_queue := task_queue s @ [fn]\<rparr>, False))"

text \<open>Packets of one client at the given times, and the answers of the bucket.\<close>

fun bucket_run :: "time list \<Rightarrow> session \<Rightarrow> bool list \<times> session" where
  "bucket_run [] s = ([], s)"
| "bucket_run (now # nows) s =
     (let (ok, s') = checkUdpRateLimit now s; (oks, s'') = bucket_run nows s' in (ok # oks, s''))"

section \<open>The token bucket contract\<close>

text \<open>
  What any bucket promises: the level is never above its capacity, its time stamp never
  leaves the past, and a step pays for the packet it admits out of the level and the time
  that passed, at a rate of \<open>num\<close> packets in \<open>den\<close> units of time.
\<close>

locale token_bucket =
  fixes take_token :: "time \<Rightarrow> 's \<Rightarrow> bool \<times> 's"
    and level :: "'s \<Rightarrow> int"
    and stamp :: "'s \<Rightarrow> time"
    and num den horizon :: int
  assumes pays: "stamp s \<le> now \<Longrightarrow> now - stamp s < horizon \<Longrightarrow> take_token now s = (ok, s') \<Longrightarrow>
      den * level s' + (if ok then den else 0) \<le> den * level s + num * (stamp s' - stamp s)"
    and moves: "take_token now s = (ok, s') \<Longrightarrow> stamp s' = stamp s \<or> stamp s' = now"
    and level_nonneg: "0 \<le> level s \<Longrightarrow> stamp s \<le> now \<Longrightarrow> take_token now s = (ok, s') \<Longrightarrow> 0 \<le> level s'"
    and rates: "0 \<le> num" "0 < den"
begin

fun take_all :: "time list \<Rightarrow> 's \<Rightarrow> bool list \<times> 's" where
  "take_all [] s = ([], s)"
| "take_all (now # nows) s =
     (let (ok, s') = take_token now s; (oks, s'') = take_all nows s' in (ok # oks, s''))"

lemma take_all_pays:
  assumes "sorted (stamp s # nows)" "\<forall>now \<in> set nows. now - stamp s < horizon"
    and "take_all nows s = (oks, s')" "0 \<le> level s"
  shows "0 \<le> level s'
    \<and> den * int (count_list oks True) + den * level s' \<le> den * level s + num * (stamp s' - stamp s)
    \<and> stamp s \<le> stamp s' \<and> (nows = [] \<or> stamp s' \<le> last nows)"
  using assms
proof (induction nows arbitrary: s oks)
  case (Cons now nows)
  obtain ok s1 where one: "take_token now s = (ok, s1)" by fastforce
  obtain oks1 where rest: "take_all nows s1 = (oks1, s')" and oks: "oks = ok # oks1"
    using Cons.prems(3) one by (auto simp: Let_def split: prod.splits)
  have le: "stamp s \<le> now" and lt: "now - stamp s < horizon" using Cons.prems by auto
  from moves [OF one] le have s1: "stamp s \<le> stamp s1" "stamp s1 \<le> now" by auto
  have IH: "0 \<le> level s' \<and> den * int (count_list oks1 True) + den * level s' \<le> den * level s1 + num * (stamp s' - stamp s1)
      \<and> stamp s1 \<le> stamp s' \<and> (nows = [] \<or> stamp s' \<le> last nows)"
    using Cons.prems s1 le level_nonneg [OF Cons.prems(4) le one] by (intro Cons.IH rest) auto
  have "den * level s1 + (if ok then den else 0) \<le> den * level s + num * (stamp s1 - stamp s)"
    using pays [OF le lt one] .
  with IH have "den * int (count_list oks True) + den * level s' \<le> den * level s + num * (stamp s' - stamp s)"
    by (auto simp: oks algebra_simps split: if_splits)
  moreover have "nows = [] \<longrightarrow> s' = s1" using rest by auto
  ultimately show ?case using IH s1 by auto
qed simp

lemma take_all_bound:
  assumes "sorted (stamp s # nows)" "\<forall>now \<in> set nows. now - stamp s < horizon"
    and "0 \<le> level s" "nows \<noteq> []"
  shows "den * int (count_list (fst (take_all nows s)) True) \<le> den * level s + num * (last nows - stamp s)"
proof -
  obtain oks s' where run: "take_all nows s = (oks, s')" by fastforce
  from take_all_pays [OF assms(1,2) run assms(3)] assms(4)
  have "0 \<le> level s'" and b: "den * int (count_list oks True) + den * level s' \<le> den * level s + num * (stamp s' - stamp s)"
    and "stamp s' \<le> last nows" by auto
  moreover from this have "num * (stamp s' - stamp s) \<le> num * (last nows - stamp s)"
    using rates by (intro mult_left_mono) auto
  moreover have "0 \<le> den * level s'" using \<open>0 \<le> level s'\<close> rates by simp
  ultimately show ?thesis using run by simp
qed

end

section \<open>Lemmas\<close>

subsection \<open>Token bucket\<close>

lemma refill_amount_bounds:
  assumes "0 \<le> e" "e < 2 ^ 35"
  shows "50 * refill_amount e \<le> 3 * e" "3 * e div 50 \<le> refill_amount e + 1" "0 \<le> refill_amount e"
proof -
  let ?r = "double_trunc (double_mult (double_div (double_of_ratio (nat e) 1) 1000) 60)"
  have "nat e < 2 ^ 35" using assms by (simp add: nat_less_iff)
  note b = double_scaled_trunc [OF this]
  have r: "refill_amount e = int ?r" using assms by (simp add: refill_amount_def refillRatePerSec_def)
  have d: "int (3 * nat e div 50) = 3 * e div 50" using assms by (simp add: zdiv_int)
  have le: "int ?r \<le> 3 * e div 50" using b(1) d by (metis of_nat_le_iff)
  have "50 * (3 * e div 50) \<le> 3 * e" using assms by simp
  with le show "50 * refill_amount e \<le> 3 * e" by (simp add: r)
  have "int (3 * nat e div 50) \<le> int (Suc ?r)" using b(2) by (simp only: of_nat_le_iff)
  then show "3 * e div 50 \<le> refill_amount e + 1" by (simp add: r d)
  show "0 \<le> refill_amount e" by (simp add: r)
qed

lemma to_milliseconds_bounds:
  assumes "0 \<le> d" "d < 2 ^ 35 * 1000000"
  shows "0 \<le> to_milliseconds d" "to_milliseconds d < 2 ^ 35" "1000000 * to_milliseconds d \<le> d"
  using assms by (simp_all add: to_milliseconds_def trunc_quot_def)

interpretation udp_bucket: token_bucket checkUdpRateLimit udpTokens lastUdpTokenRefill
    3 50000000 "2 ^ 35 * 1000000"
proof unfold_locales
  fix s now ok s'
  assume a: "lastUdpTokenRefill s \<le> now" "now - lastUdpTokenRefill s < 2 ^ 35 * 1000000"
    and c: "checkUdpRateLimit now s = (ok, s')"
  define e where "e = to_milliseconds (now - lastUdpTokenRefill s)"
  have e: "0 \<le> e" "e < 2 ^ 35" "1000000 * e \<le> now - lastUdpTokenRefill s"
    using to_milliseconds_bounds [of "now - lastUdpTokenRefill s"] a by (simp_all add: e_def)
  have "50000000 * refill_amount e \<le> 3 * (now - lastUdpTokenRefill s)"
    using refill_amount_bounds(1) [OF e(1,2)] e(3) by simp
  then show "50000000 * udpTokens s' + (if ok then 50000000 else 0)
      \<le> 50000000 * udpTokens s + 3 * (lastUdpTokenRefill s' - lastUdpTokenRefill s)"
    using c by (auto simp: checkUdpRateLimit_def Let_def e_def [symmetric] min_def split: if_splits)
next
  fix now s ok s'
  assume "checkUdpRateLimit now s = (ok, s')"
  then show "lastUdpTokenRefill s' = lastUdpTokenRefill s \<or> lastUdpTokenRefill s' = now"
    by (auto simp: checkUdpRateLimit_def Let_def split: if_splits)
next
  fix s now ok s'
  assume "0 \<le> udpTokens s" "checkUdpRateLimit now s = (ok, s')"
  then show "0 \<le> udpTokens s'"
    by (auto simp: checkUdpRateLimit_def Let_def maxTokens_def split: if_splits)
qed simp_all

lemma bucket_run_take_all: "bucket_run nows s = udp_bucket.take_all nows s"
  by (induction nows arbitrary: s) (simp_all add: Let_def split: prod.splits)

lemma checkUdpRateLimit_capacity:
  "0 \<le> udpTokens s \<Longrightarrow> udpTokens s \<le> maxTokens \<Longrightarrow> checkUdpRateLimit now s = (ok, s') \<Longrightarrow>
     0 \<le> udpTokens s' \<and> udpTokens s' \<le> maxTokens"
  by (auto simp: checkUdpRateLimit_def Let_def maxTokens_def split: if_splits)

lemma bucket_run_capacity:
  "0 \<le> udpTokens s \<Longrightarrow> udpTokens s \<le> maxTokens \<Longrightarrow>
     0 \<le> udpTokens (snd (bucket_run nows s)) \<and> udpTokens (snd (bucket_run nows s)) \<le> maxTokens"
proof (induction nows arbitrary: s)
  case (Cons now nows)
  obtain ok s1 where one: "checkUdpRateLimit now s = (ok, s1)" by fastforce
  show ?case using Cons.IH checkUdpRateLimit_capacity [OF Cons.prems one]
    by (simp add: one Let_def split_beta)
qed simp

subsection \<open>Life cycle\<close>

lemma try_close_iff: "fst (try_close s) \<longleftrightarrow> life_state s = Active \<or> life_state s = Idle"
  by (simp add: try_close_def)

lemma try_close_closing: "fst (try_close s) \<Longrightarrow> life_state (snd (try_close s)) = Closing"
  by (auto simp: try_close_def split: if_splits)

subsection \<open>Outgoing messages\<close>

lemma enqueue_write_length:
  assumes "0 < config_size c ''max_write_queue_size'' 100"
    and "length (write_queue s) \<le> config_size c ''max_write_queue_size'' 100"
  shows "length (write_queue (fst (enqueue_write c msg s))) \<le> config_size c ''max_write_queue_size'' 100"
  using assms by (auto simp: enqueue_write_def Let_def)

lemma enqueue_write_kept:
  "enqueue_write c msg s = (s', False) \<Longrightarrow>
     write_queue s' = (if config_size c ''max_write_queue_size'' 100 \<le> length (write_queue s)
                       then tl (write_queue s) else write_queue s) @ [msg]"
  by (auto simp: enqueue_write_def Let_def split: if_splits)

section \<open>Properties\<close>

text \<open>
  C19: The token bucket of a session enforces its advertised rate in the double precision
  the code computes in: over any run of packets at non-decreasing times, the number of
  admitted packets is at most the tokens present plus 60 for every second since the last
  refill (one per 50/3 milliseconds), as long as the run is shorter than a year; a bucket
  that starts within its capacity of 120 stays within it.
\<close>

theorem udp_bucket_rate:
  assumes "sorted (lastUdpTokenRefill s # nows)" "nows \<noteq> []"
    and "last nows - lastUdpTokenRefill s < 2 ^ 35 * 1000000"
    and "0 \<le> udpTokens s"
  shows "50000000 * int (count_list (fst (bucket_run nows s)) True)
      \<le> 50000000 * udpTokens s + 3 * (last nows - lastUdpTokenRefill s)
    \<and> 0 \<le> udpTokens (snd (bucket_run nows s))
    \<and> (udpTokens s \<le> 120 \<longrightarrow> udpTokens (snd (bucket_run nows s)) \<le> 120)"
proof -
  have "\<forall>now \<in> set nows. now \<le> last nows"
    using assms(1) by (induction nows) (auto split: if_splits)
  then have t: "\<forall>now \<in> set nows. now - lastUdpTokenRefill s < 2 ^ 35 * 1000000"
    using assms(3) by fastforce
  have "0 \<le> udpTokens (snd (bucket_run nows s))"
    using udp_bucket.take_all_pays [OF assms(1) t _ assms(4)]
    by (cases "bucket_run nows s") (simp add: bucket_run_take_all)
  moreover have "udpTokens (snd (bucket_run nows s)) \<le> 120" if "udpTokens s \<le> 120"
    using bucket_run_capacity [of s nows] assms(4) that by (simp add: maxTokens_def)
  ultimately show ?thesis
    using udp_bucket.take_all_bound [OF assms(1) t assms(4,2)] by (simp add: bucket_run_take_all)
qed

text \<open>From an almost empty bucket: one token and 70 milliseconds admit at most five packets.\<close>

theorem udp_bucket_rate_witness:
  "50000000 * int (count_list (fst (bucket_run [20000000, 30000000, 70000000]
       ((session_new 0 1 UdpSendStrand)\<lparr>udpTokens := 1\<rparr>))) True)
     \<le> 50000000 * 1 + 3 * 70000000"
proof -
  let ?s = "(session_new 0 1 UdpSendStrand)\<lparr>udpTokens := 1\<rparr>"
  have f: "lastUdpTokenRefill ?s = 0" "udpTokens ?s = 1" by (simp_all add: session_new_def)
  have "sorted (lastUdpTokenRefill ?s # [20000000, 30000000, 70000000])"
    "last [20000000, 30000000, 70000000] - lastUdpTokenRefill ?s < 2 ^ 35 * 1000000" "0 \<le> udpTokens ?s"
    by (simp_all add: f)
  from udp_bucket_rate [OF this(1) _ this(2,3)] show ?thesis by (simp add: f del: bucket_run.simps)
qed

text \<open>
  C35: The bucket does not starve a well-behaved client: a packet at least 34 milliseconds
  after the last refill is always admitted, even from an empty bucket.
\<close>

theorem udp_bucket_not_starved:
  assumes "34000000 \<le> now - lastUdpTokenRefill s" "now - lastUdpTokenRefill s < 2 ^ 35 * 1000000"
    and "0 \<le> udpTokens s"
  shows "fst (checkUdpRateLimit now s)"
proof -
  define e where "e = to_milliseconds (now - lastUdpTokenRefill s)"
  have e: "34 \<le> e" "e < 2 ^ 35"
    using assms by (simp_all add: e_def to_milliseconds_def trunc_quot_def)
  then have "2 \<le> 3 * e div 50" by simp
  with refill_amount_bounds(2) [of e] e have "0 < refill_amount e" by simp
  then show ?thesis
    using assms(3) by (simp add: checkUdpRateLimit_def Let_def e_def [symmetric] maxTokens_def)
qed

theorem udp_bucket_not_starved_witness:
  "fst (checkUdpRateLimit 40000000 ((session_new 0 1 UdpSendStrand)\<lparr>udpTokens := 0\<rparr>))"
  by (rule udp_bucket_not_starved) (simp_all add: session_new_def)

end
