(* ===== verification/ZoneModel.thy ===== *)
theory ZoneModel
  imports Session
begin

text \<open>
  \<^verbatim>\<open>Zone\<close> and \<^verbatim>\<open>ZoneManager\<close>: the rooms players are put in, each with a bounded
  table of its members. The results are the capacity and uniqueness invariant of a zone,
  when joining succeeds, and that leaving undoes joining.
\<close>

section \<open>Definitions\<close>

type_synonym heap = "addr \<Rightarrow> session"

text \<open>
  \<^verbatim>\<open>std::weak_ptr\<close> members are addresses; \<open>alive\<close> says whether \<^verbatim>\<open>lock()\<close> succeeds.
\<close>

record zone_obj =
  max_sessions :: nat
  zone_number :: int
  sessions :: "(int, addr) umap"

definition zone_new :: "int \<Rightarrow> nat \<Rightarrow> zone_obj" where
  "zone_new zid m = \<lparr>max_sessions = m, zone_number = zid, sessions = []\<rparr>"

definition zone_add_session :: "heap \<Rightarrow> addr \<Rightarrow> zone_obj \<Rightarrow> bool \<times> zone_obj" where
  "zone_add_session h a z =
     (if max_sessions z \<le> length (sessions z) then (False, z)
      else if um_find (sessions z) (session_id (h a)) \<noteq> None then (False, z)
      else (True, z\<lparr>sessions := um_put (session_id (h a)) a (sessions z)\<rparr>))"

definition zone_remove_session :: "heap \<Rightarrow> addr \<Rightarrow> zone_obj \<Rightarrow> zone_obj" where
  "zone_remove_session h a z = z\<lparr>sessions := um_erase (session_id (h a)) (sessions z)\<rparr>"

text \<open>
  \<open>for_each_session\<close>: the members the function is applied to, in order, and the table
  after the entries of dead sessions are erased.
\<close>

definition zone_for_each_session :: "(addr \<Rightarrow> bool) \<Rightarrow> zone_obj \<Rightarrow> addr list \<times> zone_obj" where
  "zone_for_each_session alive z =
     (let live = filter (\<lambda>(i, a). alive a) (sessions z) in (map snd live, z\<lparr>sessions := live\<rparr>))"

text \<open>The datagrams of \<^verbatim>\<open>Zone::broadcast\<close>.\<close>

definition zone_broadcast :: "heap \<Rightarrow> (addr \<Rightarrow> bool) \<Rightarrow> string \<Rightarrow> string \<Rightarrow> zone_obj \<Rightarrow> (endpoint \<times> string) list" where
  "zone_broadcast h alive msg sender_nickname z =
     map (\<lambda>ep. (ep, msg))
       (List.map_filter (\<lambda>(i, a). if alive a \<and> nickname (h a) \<noteq> sender_nickname then udp_endpoint (h a) else None)
          (sessions z))"

subsection \<open>The zone manager\<close>

type_synonym zone_manager = "(int, zone_obj) umap"

definition zone_manager_new :: "app_context \<Rightarrow> int \<Rightarrow> zone_manager" where
  "zone_manager_new c zone_count =
     fold (\<lambda>i zs. um_put i (zone_new i (config_size c ''zone_max_sessions_count'' 500)) zs) [1..zone_count] []"

definition get_zone :: "int \<Rightarrow> zone_manager \<Rightarrow> zone_obj option" where
  "get_zone zid zs = um_find zs zid"

definition remove_zone :: "int \<Rightarrow> zone_manager \<Rightarrow> zone_manager" where
  "remove_zone zid zs = um_erase zid zs"

definition zm_remove_session :: "addr \<Rightarrow> heap \<times> zone_manager \<Rightarrow> heap \<times> zone_manager" where
  "zm_remove_session a = (\<lambda>(h, zs).
     let zid = zone_id (h a) in
     if -1 < zid then
       case get_zone zid zs of
         Some z \<Rightarrow> (h(a := (h a)\<lparr>zone_id := -1, zone := None\<rparr>), um_put zid (zone_remove_session h a z) zs)
       | None \<Rightarrow> (h, zs)
     else (h, zs))"

text \<open>\<^verbatim>\<open>DataHandler::assign_session_to_zone\<close>\<close>

definition assign_session_to_zone :: "addr \<Rightarrow> int \<Rightarrow> heap \<times> zone_manager \<Rightarrow> heap \<times> zone_manager" where
  "assign_session_to_zone a zid = (\<lambda>(h, zs).
     case get_zone zid zs of
       None \<Rightarrow> (h, zs)
     | Some z \<Rightarrow>
         let (ok, z') = zone_add_session h a z in
         if ok then (h(a := (h a)\<lparr>zone_id := zid, zone := Some zid\<rparr>), um_put zid z' zs)
         else (h, zs))"

definition zone_ok :: "zone_obj \<Rightarrow> bool" where
  "zone_ok z \<longleftrightarrow> um_ok (sessions z) \<and> length (sessions z) \<le> max_sessions z"

definition zones_ok :: "zone_manager \<Rightarrow> bool" where
  "zones_ok zs \<longleftrightarrow> um_ok zs \<and> (\<forall>(i, z) \<in> set zs. zone_ok z \<and> zone_number z = i)"

section \<open>Lemmas\<close>

lemma zone_new_ok: "zone_ok (zone_new i m)"
  by (simp add: zone_ok_def zone_new_def)

lemma zone_number_new [simp]: "zone_number (zone_new i m) = i"
  by (simp add: zone_new_def)

lemma zone_add_session_ok:
  assumes "zone_ok z"
  shows "zone_ok (snd (zone_add_session h a z))"
    and "fst (zone_add_session h a z) \<longleftrightarrow>
      length (sessions z) < max_sessions z \<and> session_id (h a) \<notin> set (um_keys (sessions z))"
    and "zone_number (snd (zone_add_session h a z)) = zone_number z"
  using assms by (auto simp: zone_ok_def zone_add_session_def length_um_put um_ok_put um_find_None_iff)

lemma zone_remove_session_ok:
  assumes "zone_ok z"
  shows "zone_ok (zone_remove_session h a z)"
  using assms um.count_erase_le [of "sessions z" "session_id (h a)"]
  by (auto simp: zone_ok_def zone_remove_session_def um_ok_erase)

lemma zone_for_each_session_ok:
  assumes "zone_ok z"
  shows "zone_ok (snd (zone_for_each_session alive z))"
proof -
  let ?live = "filter (\<lambda>(i, a). alive a) (sessions z)"
  have "distinct (map fst ?live)"
    using assms by (simp add: zone_ok_def um_ok_def um_keys_def distinct_map_filter)
  moreover have "length ?live \<le> max_sessions z"
    using assms by (meson length_filter_le order_trans zone_ok_def)
  ultimately show ?thesis
    using assms by (simp add: zone_ok_def zone_for_each_session_def um_ok_def um_keys_def Let_def)
qed

lemma zones_ok_put:
  assumes "zones_ok zs" "zone_ok z" "zone_number z = i"
  shows "zones_ok (um_put i z zs)"
proof -
  have ok: "um_ok (um_put i z zs)" using assms by (simp add: zones_ok_def um_ok_put)
  have "zone_ok z' \<and> zone_number z' = j" if "(j, z') \<in> set (um_put i z zs)" for j z'
  proof -
    from that ok have "um_find (um_put i z zs) j = Some z'" by (simp add: um_find_iff)
    then have "j = i \<and> z' = z \<or> um_find zs j = Some z'" by (auto simp: um_find_put split: if_splits)
    then show ?thesis using assms um_find_in_set [of zs j z'] by (auto simp: zones_ok_def)
  qed
  with ok show ?thesis by (auto simp: zones_ok_def)
qed

lemma zones_ok_find: "zones_ok zs \<Longrightarrow> um_find zs i = Some z \<Longrightarrow> zone_ok z \<and> zone_number z = i"
  by (auto simp: zones_ok_def dest!: um_find_in_set)

lemma zone_manager_new_ok: "zones_ok (zone_manager_new c n)"
proof -
  have "zones_ok (fold (\<lambda>i zs. um_put i (zone_new i m) zs) is zs)" if "zones_ok zs" for "is" zs m
    using that by (induction "is" arbitrary: zs) (simp_all add: zones_ok_put zone_new_ok)
  moreover have "zones_ok []" by (simp add: zones_ok_def)
  ultimately show ?thesis by (simp add: zone_manager_new_def)
qed

lemma zone_manager_new_find:
  "um_find (zone_manager_new c n) i =
     (if 1 \<le> i \<and> i \<le> n then Some (zone_new i (config_size c ''zone_max_sessions_count'' 500)) else None)"
proof -
  have "um_find (fold (\<lambda>i zs. um_put i (zone_new i m) zs) is zs) i =
      (if i \<in> set is then Some (zone_new i m) else um_find zs i)" for "is" zs m
    by (induction "is" arbitrary: zs) (auto simp: um_find_put)
  then show ?thesis by (simp add: zone_manager_new_def)
qed

lemma zm_remove_session_ok: "zones_ok zs \<Longrightarrow> zones_ok (snd (zm_remove_session a (h, zs)))"
  by (auto simp: zm_remove_session_def get_zone_def Let_def split: option.split
      intro!: zones_ok_put zone_remove_session_ok dest: zones_ok_find)
     (auto simp: zone_remove_session_def dest: zones_ok_find)

lemma assign_session_to_zone_ok:
  assumes "zones_ok zs"
  shows "zones_ok (snd (assign_session_to_zone a i (h, zs)))"
proof (cases "um_find zs i")
  case (Some z)
  note z = zones_ok_find [OF assms Some]
  have "zones_ok (um_put i (snd (zone_add_session h a z)) zs)"
    using z by (intro zones_ok_put assms) (simp_all add: zone_add_session_ok)
  then show ?thesis using assms Some
    by (simp add: assign_session_to_zone_def get_zone_def split_beta Let_def)
qed (use assms in \<open>simp add: assign_session_to_zone_def get_zone_def\<close>)

section \<open>Properties\<close>

text \<open>
  C25: The membership contract of a zone. Joining succeeds exactly when the zone has room
  and the session's id is not in it yet; it then adds that id and nothing else, and a
  refused join changes nothing. Leaving removes the id and nothing else. Both keep the
  zone within its capacity with no id listed twice.
\<close>

theorem zone_membership:
  assumes "zone_ok z" "sid = session_id (h a)"
  shows "(fst (zone_add_session h a z) \<longleftrightarrow>
        length (sessions z) < max_sessions z \<and> um_find (sessions z) sid = None)
    \<and> um_find (sessions (snd (zone_add_session h a z))) =
        (if fst (zone_add_session h a z) then (um_find (sessions z))(sid \<mapsto> a) else um_find (sessions z))
    \<and> um_find (sessions (zone_remove_session h a z)) = (um_find (sessions z))(sid := None)
    \<and> zone_ok (snd (zone_add_session h a z)) \<and> zone_ok (zone_remove_session h a z)"
proof (intro conjI)
  have ok: "um_ok (sessions z)" using assms(1) by (simp add: zone_ok_def)
  show "fst (zone_add_session h a z) \<longleftrightarrow>
      length (sessions z) < max_sessions z \<and> um_find (sessions z) sid = None"
    by (auto simp: zone_add_session_def assms(2))
  show "um_find (sessions (snd (zone_add_session h a z))) =
      (if fst (zone_add_session h a z) then (um_find (sessions z))(sid \<mapsto> a) else um_find (sessions z))"
    by (simp add: zone_add_session_def assms(2) um.find_fun_put [OF ok])
  show "um_find (sessions (zone_remove_session h a z)) = (um_find (sessions z))(sid := None)"
    by (simp add: zone_remove_session_def assms(2) um.find_fun_erase [OF ok])
qed (use assms(1) in \<open>simp_all add: zone_add_session_ok zone_remove_session_ok\<close>)

theorem zone_membership_witness:
  "fst (zone_add_session (\<lambda>a. session_new 0 (int a) UdpSendStrand) 7 (zone_new 1 1))
   \<and> zone_ok (snd (zone_add_session (\<lambda>a. session_new 0 (int a) UdpSendStrand) 7 (zone_new 1 1)))"
  using zone_membership [OF zone_new_ok [of 1 1] refl, of "\<lambda>a. session_new 0 (int a) UdpSendStrand" 7]
  by (simp add: zone_new_def)

end
