(* ===== verification/PoolModel.thy ===== *)
theory PoolModel
  imports ZoneModel
begin

text \<open>
  \<^verbatim>\<open>SessionPool\<close>: the reuse of session objects. The results are that a session is never
  handed to a second client while a first one holds it, as long as nobody gives back a
  session that meanwhile belongs to somebody else (the code has no check for that, and one
  such release does hand a session out twice), that the pool stays within its maximum and
  refuses only when every session is held, and what an acquired session looks like field
  by field.
\<close>

section \<open>Definitions\<close>

text \<open>
  \<^verbatim>\<open>assert\<close> is compiled out, as in a release build.
\<close>

record session_pool =
  pool :: "addr list"
  max_size :: nat
  reusable_indices :: "nat list"
  available_index_set :: "nat set"

text \<open>
  The constructor: \<open>pool_size\<close> sessions at the addresses \<open>first\<close>, \<open>first + 1\<close>, ..., each
  with a strand of its own.
\<close>

definition pool_new :: "time \<Rightarrow> nat \<Rightarrow> nat \<Rightarrow> addr \<Rightarrow> nat \<Rightarrow> heap \<Rightarrow> session_pool \<times> heap" where
  "pool_new now pool_size maxs first strand0 h =
     (\<lparr>pool = [first..<first + pool_size], max_size = maxs,
       reusable_indices = [0..<pool_size], available_index_set = {}\<rparr>,
      fold (\<lambda>i h. h(first + i := session_new now (-1) (SessStrand (strand0 + i)))) [0..<pool_size] h)"

text \<open>
  \<open>acquire\<close>: \<open>fresh\<close> is the address of the session the pool may have to add, with the
  strand \<open>st0\<close>; \<open>st\<close> is the strand made by the reset.
\<close>

definition pool_acquire ::
  "time \<Rightarrow> nat \<Rightarrow> int \<Rightarrow> addr \<Rightarrow> strand_id \<Rightarrow> strand_id \<Rightarrow> session_pool \<times> heap
     \<Rightarrow> addr option \<times> session_pool \<times> heap" where
  "pool_acquire now conn sid fresh st0 st = (\<lambda>(p, h).
     let grown =
       (case reusable_indices p of
          [] \<Rightarrow> if max_size p \<le> length (pool p) then None
                else Some (length (pool p), p\<lparr>pool := pool p @ [fresh]\<rparr>,
                           h(fresh := session_new now (-1) st0))
        | idx # rest \<Rightarrow> Some (idx, p\<lparr>reusable_indices := rest,
                                    available_index_set := available_index_set p - {idx}\<rparr>, h))
     in case grown of
          None \<Rightarrow> (None, p, h)
        | Some (idx, p', h') \<Rightarrow>
            let a = pool p' ! idx;
                s = session_cleanup (set_active True (session_reset now conn sid st (h' a)))
            in (Some a, p', h'(a := s)))"

text \<open>The position of a session in the pool (\<^verbatim>\<open>std::find\<close>).\<close>

fun pool_index :: "addr list \<Rightarrow> addr \<Rightarrow> nat option" where
  "pool_index [] a = None"
| "pool_index (x # xs) a = (if x = a then Some 0 else map_option Suc (pool_index xs a))"

text \<open>\<open>release\<close>: the result says whether a double release was reported.\<close>

definition pool_release :: "addr \<Rightarrow> session_pool \<times> heap \<Rightarrow> bool \<times> session_pool \<times> heap" where
  "pool_release a = (\<lambda>(p, h).
     case pool_index (pool p) a of
       None \<Rightarrow> (False, p, h)
     | Some idx \<Rightarrow>
         if idx \<in> available_index_set p then (True, p, h)
         else (False,
               p\<lparr>reusable_indices := reusable_indices p @ [idx],
                 available_index_set := insert idx (available_index_set p)\<rparr>,
               h(a := set_active False (mark_released (session_cleanup (h a))))))"

definition pool_for_each_active :: "heap \<Rightarrow> session_pool \<Rightarrow> addr list" where
  "pool_for_each_active h p = filter (\<lambda>a. is_active (h a)) (pool p)"

definition count_active :: "heap \<Rightarrow> session_pool \<Rightarrow> nat" where
  "count_active h p = length (filter (\<lambda>a. is_active (h a)) (pool p))"

subsection \<open>The protocol of acquisitions and releases\<close>

text \<open>
  A pool in use by clients with numbers: the client that holds each session, and the
  sessions each client was ever given. A client may give back a session it was given, and
  may do so again as long as nobody holds the session; a release of a session that was
  handed to another client in the meantime is not part of the protocol.
\<close>

record pool_use =
  the_pool :: session_pool
  the_heap :: heap
  holder :: "addr \<rightharpoonup> nat"
  handed :: "(addr \<times> nat) set"

inductive pool_step :: "pool_use \<Rightarrow> pool_use \<Rightarrow> bool" where
  acquire:
    "fresh \<notin> set (pool (the_pool u)) \<Longrightarrow>
     pool_acquire now conn sid fresh st0 st (the_pool u, the_heap u) = (Some a, p, h) \<Longrightarrow>
     pool_step u \<lparr>the_pool = p, the_heap = h, holder = (holder u)(a \<mapsto> k), handed = insert (a, k) (handed u)\<rparr>"
| acquire_refused:
    "pool_acquire now conn sid fresh st0 st (the_pool u, the_heap u) = (None, p, h) \<Longrightarrow>
     pool_step u (u\<lparr>the_pool := p, the_heap := h\<rparr>)"
| release:
    "(a, k) \<in> handed u \<Longrightarrow> holder u a = Some k \<or> holder u a = None \<Longrightarrow>
     pool_release a (the_pool u, the_heap u) = (dup, p, h) \<Longrightarrow>
     pool_step u (u\<lparr>the_pool := p, the_heap := h, holder := (holder u)(a := None)\<rparr>)"

definition pool_start :: "pool_use \<Rightarrow> bool" where
  "pool_start u \<longleftrightarrow> (\<exists>now n m first st h.
     n \<le> m \<and> (the_pool u, the_heap u) = pool_new now n m first st h \<and> holder u = Map.empty \<and> handed u = {})"

definition pool_ok :: "session_pool \<Rightarrow> bool" where
  "pool_ok p \<longleftrightarrow> distinct (pool p) \<and> distinct (reusable_indices p)
     \<and> set (reusable_indices p) \<subseteq> {..<length (pool p)}
     \<and> available_index_set p \<subseteq> set (reusable_indices p)
     \<and> length (pool p) \<le> max_size p"

text \<open>The sessions that are not free.\<close>

definition in_use :: "session_pool \<Rightarrow> addr set" where
  "in_use p = {pool p ! i | i. i < length (pool p) \<and> i \<notin> set (reusable_indices p)}"

definition pool_inv :: "pool_use \<Rightarrow> bool" where
  "pool_inv u \<longleftrightarrow> (let p = the_pool u in
     pool_ok p \<and> dom (holder u) = in_use p \<and> fst ` handed u \<subseteq> set (pool p)
     \<and> (\<forall>i < length (pool p). pool p ! i \<in> fst ` handed u \<longrightarrow>
          (i \<in> set (reusable_indices p) \<longleftrightarrow> i \<in> available_index_set p)))"

section \<open>Lemmas\<close>

lemma pool_index_Some: "pool_index xs a = Some i \<Longrightarrow> i < length xs \<and> xs ! i = a"
  by (induction xs arbitrary: i) (auto split: if_splits)

lemma pool_index_None: "pool_index xs a = None \<longleftrightarrow> a \<notin> set xs"
  by (induction xs) auto

lemma pool_index_nth: "distinct xs \<Longrightarrow> i < length xs \<Longrightarrow> pool_index xs (xs ! i) = Some i"
  by (induction xs arbitrary: i) (auto simp: nth_Cons split: nat.split)

lemma in_use_nth:
  "distinct (pool p) \<Longrightarrow> i < length (pool p) \<Longrightarrow> pool p ! i \<in> in_use p \<longleftrightarrow> i \<notin> set (reusable_indices p)"
  by (auto simp: in_use_def nth_eq_iff_index_eq)

lemma in_use_diff:
  assumes "distinct (pool p)" "pool q = pool p" "i < length (pool p)"
    and "set (reusable_indices q) = insert i (set (reusable_indices p))"
  shows "in_use q = in_use p - {pool p ! i}"
proof -
  have q: "j \<notin> set (reusable_indices q) \<longleftrightarrow> j \<notin> set (reusable_indices p) \<and> j \<noteq> i" for j
    by (simp add: assms(4) conj_commute)
  have "pool p ! j = pool p ! i \<longleftrightarrow> j = i" if "j < length (pool p)" for j
    using assms(1,3) that by (simp add: nth_eq_iff_index_eq)
  then show ?thesis unfolding in_use_def assms(2) q by fast
qed

text \<open>The two ways an acquisition succeeds.\<close>

lemma pool_acquire_Some:
  assumes "pool_acquire now conn sid fresh st0 st (p, h) = (Some a, p', h')"
  obtains (grow) "reusable_indices p = []" "length (pool p) < max_size p" "a = fresh"
      "p' = p\<lparr>pool := pool p @ [fresh]\<rparr>"
  | (reuse) idx rest where "reusable_indices p = idx # rest" "a = pool p ! idx"
      "p' = p\<lparr>reusable_indices := rest, available_index_set := available_index_set p - {idx}\<rparr>"
  using assms by (cases "reusable_indices p") (auto simp: pool_acquire_def Let_def split: if_splits)

lemma pool_acquire_None:
  "pool_acquire now conn sid fresh st0 st (p, h) = (None, p', h') \<Longrightarrow> p' = p \<and> h' = h
     \<and> reusable_indices p = [] \<and> max_size p \<le> length (pool p)"
  by (cases "reusable_indices p") (auto simp: pool_acquire_def Let_def split: if_splits)

lemma pool_acquire_ok:
  assumes "pool_ok p" "fresh \<notin> set (pool p)"
    and "pool_acquire now conn sid fresh st0 st (p, h) = (Some a, p', h')"
  shows "pool_ok p' \<and> a \<notin> in_use p \<and> a \<in> set (pool p') \<and> in_use p' = insert a (in_use p)"
  using assms(3)
proof (cases rule: pool_acquire_Some)
  case grow
  have u: "in_use p = set (pool p)" using grow(1) by (auto simp: in_use_def in_set_conv_nth)
  have "in_use q = set (pool q)" if "reusable_indices q = []" for q
    using that by (auto simp: in_use_def in_set_conv_nth)
  then have "in_use p' = set (pool p')" using grow(1,4) by simp
  then have "in_use p' = insert a (in_use p)" using u grow(3,4) by simp
  moreover have "a \<notin> in_use p" using grow assms(2) by (auto simp: in_use_def)
  ultimately show ?thesis using grow assms(1,2) by (auto simp: pool_ok_def)
next
  case (reuse idx rest)
  have idx: "idx < length (pool p)" "idx \<notin> set rest" using assms(1) reuse(1) by (auto simp: pool_ok_def)
  have d: "distinct (pool p)" using assms(1) by (simp add: pool_ok_def)
  have nu: "a \<notin> in_use p" using reuse(1,2) idx(1) d by (simp add: in_use_nth)
  have "in_use p = in_use p' - {pool p' ! idx}"
    by (rule in_use_diff) (use reuse(1,3) idx(1) d in simp_all)
  then have "in_use p = in_use p' - {a}" using reuse(2,3) by simp
  moreover have "a \<in> in_use p'" using in_use_nth [of p' idx] reuse idx d by simp
  ultimately have "in_use p' = insert a (in_use p)" by blast
  moreover have "pool_ok p'"
    using assms(1) reuse(1) unfolding reuse(3) by (auto simp: pool_ok_def)
  moreover have "a \<in> set (pool p')" using reuse idx by simp
  ultimately show ?thesis using nu by blast
qed

lemma pool_release_cases:
  assumes "pool_release a (p, h) = (dup, p', h')"
  obtains (foreign) "a \<notin> set (pool p)" "p' = p" "h' = h" "\<not> dup"
  | (twice) idx where "pool_index (pool p) a = Some idx" "idx \<in> available_index_set p" "p' = p" "h' = h" "dup"
  | (returned) idx where "pool_index (pool p) a = Some idx" "idx \<notin> available_index_set p" "\<not> dup"
      "p' = p\<lparr>reusable_indices := reusable_indices p @ [idx],
             available_index_set := insert idx (available_index_set p)\<rparr>"
proof (cases "pool_index (pool p) a")
  case None
  then have "a \<notin> set (pool p)" by (simp add: pool_index_None)
  then show ?thesis using assms None by (intro foreign) (simp_all add: pool_release_def)
next
  case (Some idx)
  then show ?thesis using assms
    by (cases "idx \<in> available_index_set p")
       (rule twice [of idx], simp_all add: pool_release_def, rule returned [of idx], simp_all)
qed

lemma pool_inv_start: "pool_start u \<Longrightarrow> pool_inv u"
  by (auto simp: pool_start_def pool_inv_def pool_new_def pool_ok_def in_use_def Let_def)

lemma pool_inv_step:
  assumes "pool_inv u" "pool_step u u'"
  shows "pool_inv u'"
  using assms(2)
proof (cases rule: pool_step.cases)
  case (acquire fresh now conn sid st0 st a p h k)
  let ?q = "the_pool u"
  have inv: "pool_ok ?q" "dom (holder u) = in_use ?q" "fst ` handed u \<subseteq> set (pool ?q)"
    "\<And>i. i < length (pool ?q) \<Longrightarrow> pool ?q ! i \<in> fst ` handed u \<Longrightarrow>
       i \<in> set (reusable_indices ?q) \<longleftrightarrow> i \<in> available_index_set ?q"
    using assms(1) unfolding pool_inv_def Let_def by blast+
  note ok = pool_acquire_ok [OF inv(1) acquire(2,3)]
  from acquire(3) have "\<forall>i < length (pool p). pool p ! i \<in> insert a (fst ` handed u) \<longrightarrow>
      (i \<in> set (reusable_indices p) \<longleftrightarrow> i \<in> available_index_set p)"
  proof (cases rule: pool_acquire_Some)
    case grow
    then show ?thesis using inv(1) by (auto simp: pool_ok_def nth_append)
  next
    case (reuse idx rest)
    have idx: "idx < length (pool ?q)" "idx \<notin> set rest" using inv(1) reuse(1) by (auto simp: pool_ok_def)
    have inj: "pool ?q ! i = pool ?q ! idx \<longleftrightarrow> i = idx" if "i < length (pool ?q)" for i
      using that idx inv(1) by (simp add: pool_ok_def nth_eq_iff_index_eq)
    show ?thesis using reuse idx inj inv(4) by auto
  qed
  moreover have "fst ` handed u \<subseteq> set (pool p)"
    by (rule pool_acquire_Some [OF acquire(3)]) (use inv(3) in auto)
  ultimately show ?thesis using acquire(1) ok inv(2) by (auto simp: pool_inv_def Let_def)
next
  case (acquire_refused now conn sid fresh st0 st p h)
  then show ?thesis using assms(1) pool_acquire_None [OF acquire_refused(2)] by simp
next
  case (release a k dup p h)
  let ?q = "the_pool u"
  have inv: "pool_ok ?q" "dom (holder u) = in_use ?q" "fst ` handed u \<subseteq> set (pool ?q)"
    "\<And>i. i < length (pool ?q) \<Longrightarrow> pool ?q ! i \<in> fst ` handed u \<Longrightarrow>
       i \<in> set (reusable_indices ?q) \<longleftrightarrow> i \<in> available_index_set ?q"
    using assms(1) unfolding pool_inv_def Let_def by blast+
  have d: "distinct (pool ?q)" using inv(1) by (simp add: pool_ok_def)
  have given: "a \<in> fst ` handed u" using release(2) by force
  from release(4) show ?thesis
  proof (cases rule: pool_release_cases)
    case foreign
    then show ?thesis using given inv(3) by auto
  next
    case (twice idx)
    note idx = pool_index_Some [OF twice(1)]
    have "idx \<in> set (reusable_indices ?q)" using twice(2) inv(1) by (auto simp: pool_ok_def)
    then have "a \<notin> in_use ?q" using idx in_use_nth [of ?q idx] d by auto
    then have "holder u a = None" using inv(2) by blast
    then have "(holder u)(a := None) = holder u" by auto
    then show ?thesis using twice release(1) assms(1) by (simp add: pool_inv_def Let_def)
  next
    case (returned idx)
    note idx = pool_index_Some [OF returned(1)]
    have "idx \<notin> set (reusable_indices ?q)" using inv(4) idx returned(2) given by auto
    moreover have "in_use p = in_use ?q - {a}" using in_use_diff [OF d, of p idx] returned(4) idx by auto
    ultimately show ?thesis using release(1) returned inv idx by (auto simp: pool_inv_def pool_ok_def Let_def)
  qed
qed

interpretation pool_sys: transition_system pool_start pool_step pool_inv
  by unfold_locales (auto intro: pool_inv_start pool_inv_step)

section \<open>Properties\<close>

text \<open>
  C32: Exclusive hand-out. In every state that acquisitions and releases can reach in which
  a client gives back only what it holds or, once more, what nobody holds, a successful
  \<open>acquire\<close> returns a session that no client holds, and the pool never grows past its
  maximum; \<open>acquire\<close> refuses, changing nothing, only when the maximum is reached and every
  session of the pool is held by a client.
\<close>

theorem acquire_exclusive:
  assumes "reach pool_start pool_step u" "fresh \<notin> set (pool (the_pool u))"
    and "pool_acquire now conn sid fresh st0 st (the_pool u, the_heap u) = (r, p, h)"
  shows "case r of
      Some a \<Rightarrow> holder u a = None \<and> a \<in> set (pool p) \<and> length (pool p) \<le> max_size p
    | None \<Rightarrow> p = the_pool u \<and> h = the_heap u \<and> length (pool p) = max_size p
        \<and> (\<forall>a \<in> set (pool p). \<exists>k. holder u a = Some k)"
proof -
  have inv: "pool_ok (the_pool u)" "dom (holder u) = in_use (the_pool u)"
    using pool_sys.reach_inv [OF assms(1)] by (simp_all add: pool_inv_def Let_def)
  show ?thesis
  proof (cases r)
    case None
    note no = pool_acquire_None [OF assms(3) [unfolded None]]
    then have "dom (holder u) = set (pool (the_pool u))"
      using inv(2) by (auto simp: in_use_def in_set_conv_nth)
    then show ?thesis using None no inv(1) by (auto simp: pool_ok_def)
  next
    case (Some a)
    note ok = pool_acquire_ok [OF inv(1) assms(2) assms(3) [unfolded Some]]
    then have "a \<notin> dom (holder u)" using inv(2) by simp
    then show ?thesis using Some ok by (auto simp: pool_ok_def)
  qed
qed

text \<open>One session, released and handed to a second client while the first one repeats its release in between.\<close>

theorem acquire_exclusive_witness:
  "\<exists>u a p h. reach pool_start pool_step u \<and> holder u 0 = Some 7
     \<and> pool_acquire 5 9 3 1 (SessStrand 8) (SessStrand 9) (the_pool u, the_heap u) = (Some a, p, h)
     \<and> holder u a = None \<and> a \<in> set (pool p) \<and> length (pool p) \<le> max_size p"
proof -
  define P where "P = (\<lambda>is A. \<lparr>pool = [0], max_size = 2, reusable_indices = is, available_index_set = A\<rparr>)"
  have acq: "\<exists>h'. pool_acquire 5 9 3 1 (SessStrand 8) (SessStrand 9) (P [0] A, h) = (Some 0, P [] (A - {0}), h')" for A h
    by (simp add: pool_acquire_def P_def Let_def)
  have rel: "\<exists>h'. pool_release 0 (P [] {}, h) = (False, P [0] {0}, h')" for h
    by (simp add: pool_release_def P_def)
  have again: "pool_release 0 (P [0] {0}, h) = (True, P [0] {0}, h)" for h
    by (simp add: pool_release_def P_def)
  have grow: "\<exists>p' h'. pool_acquire 5 9 3 1 (SessStrand 8) (SessStrand 9) (P [] {}, h) = (Some 1, p', h')" for h
    by (simp add: pool_acquire_def P_def Let_def)
  have f: "1 \<notin> set (pool (P is A))" for "is" A by (simp add: P_def)
  define h0 where "h0 = snd (pool_new 0 1 2 0 0 (\<lambda>_. session_new 0 0 UdpSendStrand))"
  define U where "U = (\<lambda>is A h H G. \<lparr>the_pool = P is A, the_heap = h, holder = H, handed = G\<rparr>)"
  have U: "the_pool (U is A h H G) = P is A" "the_heap (U is A h H G) = h" "holder (U is A h H G) = H"
    "handed (U is A h H G) = G" for "is" A h H G by (simp_all add: U_def)
  have take: "pool_step (U is A h H G) (U is' A' h' (H(0 \<mapsto> k)) (insert (0, k) G))"
    if "pool_acquire 5 9 3 1 (SessStrand 8) (SessStrand 9) (P is A, h) = (Some 0, P is' A', h')" for "is" A h is' A' h' H G k
    using pool_step.acquire [of 1 "U is A h H G" 5 9 3 "SessStrand 8" "SessStrand 9" 0 "P is' A'" h' k] that f U
    by (simp add: U_def)
  have give: "pool_step (U is A h H {(0, 6)}) (U is' A' h' (H(0 := None)) {(0, 6)})"
    if "pool_release 0 (P is A, h) = (d, P is' A', h')" "H 0 = Some 6 \<or> H 0 = None" for "is" A h is' A' h' H d
    using pool_step.release [of 0 6 "U is A h H {(0, 6)}" d "P is' A'" h'] that U
    by (simp add: U_def)
  have n: "pool_new 0 1 2 0 0 (\<lambda>_. session_new 0 0 UdpSendStrand) = (P [0] {}, h0)"
    by (simp add: pool_new_def P_def h0_def)
  have "pool_start (U [0] {} h0 Map.empty {})" unfolding pool_start_def U
    by (rule exI [of _ 0], rule exI [of _ 1], rule exI [of _ 2], rule exI [of _ 0], rule exI [of _ 0],
        rule exI [of _ "\<lambda>_. session_new 0 0 UdpSendStrand"]) (simp only: n, simp)
  then have r0: "reach pool_start pool_step (U [0] {} h0 Map.empty {})" by (rule reach_start)
  obtain h1 where "pool_acquire 5 9 3 1 (SessStrand 8) (SessStrand 9) (P [0] {}, h0) = (Some 0, P [] {}, h1)"
    using acq [of "{}" h0] by auto
  from reach_step [OF r0 take [OF this]]
  have r1: "reach pool_start pool_step (U [] {} h1 [0 \<mapsto> 6] {(0, 6)})" .
  obtain h2 where "pool_release 0 (P [] {}, h1) = (False, P [0] {0}, h2)" using rel by blast
  from reach_step [OF r1 give [OF this]]
  have r2: "reach pool_start pool_step (U [0] {0} h2 Map.empty {(0, 6)})" by simp
  from reach_step [OF r2 give [OF again]]
  have r3: "reach pool_start pool_step (U [0] {0} h2 Map.empty {(0, 6)})" by simp
  obtain h4 where "pool_acquire 5 9 3 1 (SessStrand 8) (SessStrand 9) (P [0] {0}, h2) = (Some 0, P [] {}, h4)"
    using acq [of "{0}" h2] by auto
  from reach_step [OF r3 take [OF this]]
  have r4: "reach pool_start pool_step (U [] {} h4 [0 \<mapsto> 7] {(0, 7), (0, 6)})" .
  let ?u4 = "U [] {} h4 [0 \<mapsto> 7] {(0, 7), (0, 6)}"
  obtain p h where e: "pool_acquire 5 9 3 1 (SessStrand 8) (SessStrand 9) (the_pool ?u4, the_heap ?u4) = (Some 1, p, h)"
    using grow [of h4] U by auto
  have "1 \<notin> set (pool (the_pool ?u4))" using f U by simp
  from acquire_exclusive [OF r4 this e]
  have "holder ?u4 1 = None \<and> 1 \<in> set (pool p) \<and> length (pool p) \<le> max_size p" by simp
  moreover have "holder ?u4 0 = Some 7" using U by simp
  ultimately show ?thesis using r4 e by blast
qed

text \<open>
  The code does not know who calls \<open>release\<close>: a second release by the former client, after
  the session went to another one, puts the session back and the next \<open>acquire\<close> hands it to
  a third client.
\<close>

theorem stale_release_hands_out_twice:
  "let p0 = pool_new 0 1 1 0 0 (\<lambda>_. session_new 0 0 UdpSendStrand);
       (r1, p1) = pool_acquire 5 9 3 1 (SessStrand 8) (SessStrand 9) p0;
       (d1, p2) = pool_release 0 p1;
       (r2, p3) = pool_acquire 6 10 4 1 (SessStrand 8) (SessStrand 10) p2;
       (d2, p4) = pool_release 0 p3;
       (r3, p5) = pool_acquire 7 11 5 1 (SessStrand 8) (SessStrand 11) p4
   in r1 = Some 0 \<and> r2 = Some 0 \<and> \<not> d2 \<and> r3 = Some 0"
  by (simp add: pool_new_def pool_acquire_def pool_release_def Let_def)

text \<open>
  C34: What an acquired session looks like, field by field, whatever its previous client
  left: the new socket, id and strand, no nickname, token, endpoint, zone, buffered input,
  task or queued output, no task running, no read pending, and a generation of which no
  callback of the previous client has the number. What it takes over from the previous
  client (from the constructor when the pool grew) is the count of overflowing writes, the
  level and time stamp of the token bucket, the mark of a write in progress, which nothing
  reads, and the mark of an invalid length, which every read overwrites. No other session
  changes.
\<close>

theorem acquire_clean:
  assumes "pool_acquire now conn sid fresh st0 st (p, h) = (Some a, p', h')"
    and "prev = (if reusable_indices p = [] then session_new now (-1) st0 else h a)"
  shows "h' a = \<lparr>write_queue_overflow_count = write_queue_overflow_count prev,
        socket = Some conn, strand = st, session_id = sid, nickname = [],
        read_pending = False, task_queue = [], task_running = False,
        msg_buf_mgr = \<lparr>buffer = [], last_clear_by_invalid_length = last_clear_by_invalid_length (msg_buf_mgr prev)\<rparr>,
        write_queue = [], write_in_progress = write_in_progress prev, closed_flag = False, login_timer = None,
        nickname_registered = False, last_alive_time = now, state = Handshaking,
        udp_endpoint = None, udp_ep_update_time = 0, last_udp_alive_time = 0, udp_token = [],
        zone_id = -1, generation = generation prev + 2, life_state = Idle,
        udpTokens = udpTokens prev, lastUdpTokenRefill = lastUdpTokenRefill prev,
        zone = None, udp_token_issued = 0, udp_token_ttl_sec = 300\<rparr>
    \<and> generation (h' a) \<noteq> generation prev \<and> generation (h' a) \<noteq> generation prev + 1
    \<and> (\<forall>b. b \<noteq> a \<longrightarrow> h' b = h b)"
proof -
  have s: "session_cleanup (set_active True (session_reset now conn sid st s)) =
      \<lparr>write_queue_overflow_count = write_queue_overflow_count s,
        socket = Some conn, strand = st, session_id = sid, nickname = [],
        read_pending = False, task_queue = [], task_running = False,
        msg_buf_mgr = \<lparr>buffer = [], last_clear_by_invalid_length = last_clear_by_invalid_length (msg_buf_mgr s)\<rparr>,
        write_queue = [], write_in_progress = write_in_progress s, closed_flag = False, login_timer = None,
        nickname_registered = False, last_alive_time = now, state = Handshaking,
        udp_endpoint = None, udp_ep_update_time = 0, last_udp_alive_time = 0, udp_token = [],
        zone_id = -1, generation = generation s + 2, life_state = Idle,
        udpTokens = udpTokens s, lastUdpTokenRefill = lastUdpTokenRefill s,
        zone = None, udp_token_issued = 0, udp_token_ttl_sec = 300\<rparr>" for s :: session
    by (cases s, cases "msg_buf_mgr s")
      (simp add: session_cleanup_def session_reset_def set_active_def try_activate_def mbm_clear_def)
  have n: "g + 2 \<noteq> g" "g + 2 \<noteq> g + 1" for g :: "64 word"
    by simp_all
  show ?thesis
  proof (cases "reusable_indices p")
    case Nil
    then show ?thesis using assms by (auto simp: pool_acquire_def Let_def s n split: if_splits)
  next
    case (Cons idx rest)
    then show ?thesis using assms by (auto simp: pool_acquire_def Let_def s n)
  qed
qed

text \<open>A session whose previous client left a name, a token, a queue and a running task.\<close>

theorem acquire_clean_witness:
  "\<exists>p' h'. pool_acquire 5 9 3 1 (SessStrand 8) (SessStrand 9)
       (fst (pool_new 0 1 2 0 0 (\<lambda>_. session_new 0 0 UdpSendStrand)),
        \<lambda>_. (session_new 0 0 UdpSendStrand)\<lparr>nickname := ''a'', udp_token := ''t'', write_queue := [''x''],
              task_running := True, generation := -1, udpTokens := 3\<rparr>) = (Some 0, p', h')
     \<and> nickname (h' 0) = [] \<and> udp_token (h' 0) = [] \<and> write_queue (h' 0) = [] \<and> \<not> task_running (h' 0)
     \<and> generation (h' 0) = 1 \<and> udpTokens (h' 0) = 3"
proof -
  let ?p = "fst (pool_new 0 1 2 0 0 (\<lambda>_. session_new 0 0 UdpSendStrand))"
  let ?h = "\<lambda>_ :: addr. (session_new 0 0 UdpSendStrand)\<lparr>nickname := ''a'', udp_token := ''t'', write_queue := [''x''],
              task_running := True, generation := -1, udpTokens := 3\<rparr>"
  let ?r = "pool_acquire 5 9 3 1 (SessStrand 8) (SessStrand 9) (?p, ?h)"
  obtain p' h' where e: "?r = (Some 0, p', h')" and i: "reusable_indices ?p = [0]"
    by (simp add: pool_acquire_def pool_new_def Let_def)
  have "h' 0 = \<lparr>write_queue_overflow_count = 0,
        socket = Some 9, strand = SessStrand 9, session_id = 3, nickname = [],
        read_pending = False, task_queue = [], task_running = False,
        msg_buf_mgr = \<lparr>buffer = [], last_clear_by_invalid_length = False\<rparr>,
        write_queue = [], write_in_progress = False, closed_flag = False, login_timer = None,
        nickname_registered = False, last_alive_time = 5, state = Handshaking,
        udp_endpoint = None, udp_ep_update_time = 0, last_udp_alive_time = 0, udp_token = [],
        zone_id = -1, generation = 1, life_state = Idle,
        udpTokens = 3, lastUdpTokenRefill = 0,
        zone = None, udp_token_issued = 0, udp_token_ttl_sec = 300\<rparr>"
    using acquire_clean [OF e refl] i by (simp add: session_new_def empty_buffer_def)
  with e show ?thesis by simp
qed

text \<open>
  \<open>acquire\<close> calls \<^verbatim>\<open>cleanup()\<close> after \<^verbatim>\<open>set_active(true)\<close>, which puts the
  session back to Idle: a session that was just handed out is never among the sessions
  \<open>for_each_active\<close> visits, and \<open>count_active\<close> does not count it.
\<close>

theorem acquired_not_active:
  assumes "pool_acquire now conn sid fresh st0 st (p, h) = (Some a, p', h')"
  shows "a \<notin> set (pool_for_each_active h' p') \<and> life_state (h' a) = Idle"
  using assms
  by (auto simp: pool_acquire_def pool_for_each_active_def is_active_def session_cleanup_def Let_def
      split: list.splits if_splits)

theorem acquired_not_active_witness:
  "\<exists>a p' h'. pool_acquire 5 9 3 1 (SessStrand 8) (SessStrand 9)
       (pool_new 0 1 2 0 0 (\<lambda>_. session_new 0 0 UdpSendStrand)) = (Some a, p', h')
     \<and> pool_for_each_active h' p' = []"
proof -
  let ?n = "pool_new 0 1 2 0 0 (\<lambda>_. session_new 0 0 UdpSendStrand)"
  let ?r = "pool_acquire 5 9 3 1 (SessStrand 8) (SessStrand 9) ?n"
  obtain p' h' where e: "?r = (Some 0, p', h')" and p: "pool p' = [0]"
    by (simp add: pool_acquire_def pool_new_def Let_def)
  then have "pool_acquire 5 9 3 1 (SessStrand 8) (SessStrand 9) (fst ?n, snd ?n) = (Some 0, p', h')"
    by simp
  from acquired_not_active [OF this] p have "pool_for_each_active h' p' = []"
    by (simp add: pool_for_each_active_def split: if_splits)
  with e show ?thesis by blast
qed

end
