(* ===== verification/ManagerModel.thy ===== *)
theory ManagerModel
  imports PoolModel
begin

text \<open>
  \<^verbatim>\<open>SessionManager\<close>: the sessions by id, spread over shards that are locked one at a
  time, and the index from nicknames to sessions. The sharded table refines one flat map:
  it satisfies the same interface, \<open>hash_map\<close>, as a single unordered map. What closes
  sessions (replacing an entry, a second login under one nickname, the sweep of idle
  sessions) is completed in \<open>World.thy\<close>.
\<close>

section \<open>Definitions\<close>

record session_manager =
  shard_count :: nat
  session_buckets :: "(int, addr) umap list"
  nickname_index :: "(string, addr) umap"

definition manager_new :: "nat \<Rightarrow> session_manager" where
  "manager_new n = \<lparr>shard_count = n, session_buckets = replicate n [], nickname_index = []\<rparr>"

text \<open>The id is converted to \<^verbatim>\<open>size_t\<close> before the remainder is taken.\<close>

definition get_shard :: "session_manager \<Rightarrow> int \<Rightarrow> nat" where
  "get_shard m sid = size_t_of_int sid mod shard_count m"

definition put_session :: "int \<Rightarrow> addr \<Rightarrow> session_manager \<Rightarrow> session_manager" where
  "put_session sid a m =
     (let i = get_shard m sid in
      m\<lparr>session_buckets := (session_buckets m)[i := um_put sid a (session_buckets m ! i)]\<rparr>)"

definition find_session :: "session_manager \<Rightarrow> int \<Rightarrow> addr option" where
  "find_session m sid = um_find (session_buckets m ! get_shard m sid) sid"

definition erase_session :: "int \<Rightarrow> session_manager \<Rightarrow> session_manager" where
  "erase_session sid m =
     (let i = get_shard m sid in
      m\<lparr>session_buckets := (session_buckets m)[i := um_erase sid (session_buckets m ! i)]\<rparr>)"

text \<open>
  The locked part of \<open>add_session\<close>: the table, and the session that was replaced because
  it had another generation.
\<close>

definition mgr_add_session :: "heap \<Rightarrow> addr \<Rightarrow> session_manager \<Rightarrow> addr option \<times> session_manager" where
  "mgr_add_session h a m =
     (let sid = session_id (h a);
          replaced = (case find_session m sid of
             Some prev \<Rightarrow> if generation (h prev) \<noteq> generation (h a) then Some prev else None
           | None \<Rightarrow> None)
      in (replaced, put_session sid a m))"

definition mgr_remove_session :: "int \<Rightarrow> session_manager \<Rightarrow> addr option \<times> session_manager" where
  "mgr_remove_session sid m =
     (case find_session m sid of
        Some a \<Rightarrow> (Some a, erase_session sid m)
      | None \<Rightarrow> (None, m))"

text \<open>The copy of all sessions that \<open>for_each_session\<close> makes before it calls anything.\<close>

definition all_sessions :: "session_manager \<Rightarrow> addr list" where
  "all_sessions m = concat (map (map snd) (session_buckets m))"

definition session_count :: "session_manager \<Rightarrow> nat" where
  "session_count m = sum_list (map length (session_buckets m))"

definition get_total_session_count :: "session_manager \<Rightarrow> nat" where
  "get_total_session_count m = sum_list (map (\<lambda>i. length (session_buckets m ! i)) [0..<shard_count m])"

definition find_session_by_nickname :: "(addr \<Rightarrow> bool) \<Rightarrow> session_manager \<Rightarrow> string \<Rightarrow> addr option" where
  "find_session_by_nickname alive m nick =
     (case um_find (nickname_index m) nick of
        Some a \<Rightarrow> if alive a then Some a else None
      | None \<Rightarrow> None)"

definition set_nickname_owner :: "string \<Rightarrow> addr \<Rightarrow> session_manager \<Rightarrow> session_manager" where
  "set_nickname_owner nick a m = m\<lparr>nickname_index := um_put nick a (nickname_index m)\<rparr>"

text \<open>
  \<^verbatim>\<open>nickname_mutex_\<close> is not recursive: the first argument says whether the calling
  thread already holds it, and locking it again never returns.
\<close>

datatype 'a locking = Deadlock | Done 'a

definition cleanup_expired_nicknames ::
  "bool \<Rightarrow> (addr \<Rightarrow> bool) \<Rightarrow> session_manager \<Rightarrow> session_manager locking" where
  "cleanup_expired_nicknames held alive m =
     (if held then Deadlock
      else Done (m\<lparr>nickname_index := filter (\<lambda>(n, a). alive a) (nickname_index m)\<rparr>))"

definition unregister_nickname ::
  "bool \<Rightarrow> (addr \<Rightarrow> bool) \<Rightarrow> string \<Rightarrow> addr \<Rightarrow> session_manager \<Rightarrow> session_manager locking" where
  "unregister_nickname held alive nick a m =
     (if held then Deadlock
      else let m' = (case um_find (nickname_index m) nick of
                       Some b \<Rightarrow> if alive b \<and> b = a
                                 then m\<lparr>nickname_index := um_erase nick (nickname_index m)\<rparr> else m
                     | None \<Rightarrow> m)
           in cleanup_expired_nicknames True alive m')"

text \<open>The sessions \<open>cleanup_inactive_sessions\<close> decides to close.\<close>

definition inactive_sessions :: "heap \<Rightarrow> time \<Rightarrow> time \<Rightarrow> session_manager \<Rightarrow> addr list" where
  "inactive_sessions h now max_idle m =
     filter (\<lambda>a. max_idle < now - last_alive_time (h a)) (all_sessions m)"

definition manager_ok :: "session_manager \<Rightarrow> bool" where
  "manager_ok m \<longleftrightarrow> 0 < shard_count m \<and> length (session_buckets m) = shard_count m
     \<and> (\<forall>i < shard_count m. um_ok (session_buckets m ! i)
          \<and> (\<forall>sid \<in> set (um_keys (session_buckets m ! i)). get_shard m sid = i))
     \<and> um_ok (nickname_index m)"

section \<open>Lemmas\<close>

lemma get_shard_less: "manager_ok m \<Longrightarrow> get_shard m sid < length (session_buckets m)"
  by (simp add: manager_ok_def get_shard_def)

lemma get_shard_buckets [simp]: "get_shard (m\<lparr>session_buckets := bs\<rparr>) sid = get_shard m sid"
  by (simp add: get_shard_def)

lemma get_shard_nicks [simp]: "get_shard (m\<lparr>nickname_index := n\<rparr>) sid = get_shard m sid"
  by (simp add: get_shard_def)

lemma manager_new_ok: "0 < n \<Longrightarrow> manager_ok (manager_new n)"
  by (simp add: manager_ok_def manager_new_def um_keys_def)

lemma manager_ok_bucket:
  assumes "manager_ok m" "get_shard m sid = i" "um_ok b"
    and "\<And>k. k \<in> set (um_keys b) \<Longrightarrow> k = sid \<or> k \<in> set (um_keys (session_buckets m ! i))"
  shows "manager_ok (m\<lparr>session_buckets := (session_buckets m)[i := b]\<rparr>)"
proof -
  have i: "i < shard_count m" using get_shard_less [OF assms(1), of sid] assms(1,2) by (simp add: manager_ok_def)
  have "um_ok ((session_buckets m)[i := b] ! j)
      \<and> (\<forall>k \<in> set (um_keys ((session_buckets m)[i := b] ! j)). get_shard m k = j)"
    if "j < shard_count m" for j
    using that assms i by (cases "j = i") (auto simp: manager_ok_def)
  then show ?thesis using assms(1) by (simp add: manager_ok_def)
qed

lemma put_session_ok: "manager_ok m \<Longrightarrow> manager_ok (put_session sid a m)"
  unfolding put_session_def Let_def
  by (rule manager_ok_bucket) (auto simp: manager_ok_def get_shard_def um_keys_put split: if_splits)

lemma erase_session_ok: "manager_ok m \<Longrightarrow> manager_ok (erase_session sid m)"
  unfolding erase_session_def Let_def
  by (rule manager_ok_bucket [where sid = sid])
     (auto simp: manager_ok_def get_shard_def um_find_erase set_um_keys split: if_splits)

lemma find_session_update:
  assumes "manager_ok m" "get_shard m sid = i"
    and "\<And>k. k \<noteq> sid \<Longrightarrow> um_find b k = um_find (session_buckets m ! i) k"
  shows "find_session (m\<lparr>session_buckets := (session_buckets m)[i := b]\<rparr>) k =
    (if k = sid then um_find b sid else find_session m k)"
  using get_shard_less [OF assms(1), of sid] assms(2,3)
  by (auto simp: find_session_def nth_list_update)

lemma find_put_session:
  "manager_ok m \<Longrightarrow> find_session (put_session sid a m) k = (if k = sid then Some a else find_session m k)"
  unfolding put_session_def Let_def
  by (subst find_session_update [where sid = sid]) (auto simp: um_find_put)

lemma find_erase_session:
  "manager_ok m \<Longrightarrow> find_session (erase_session sid m) k = (if k = sid then None else find_session m k)"
  unfolding erase_session_def Let_def
  by (subst find_session_update [where sid = sid]) (auto simp: um_find_erase)

lemma session_count_update:
  assumes "i < length (session_buckets m)"
  shows "session_count (m\<lparr>session_buckets := (session_buckets m)[i := b]\<rparr>) + length (session_buckets m ! i)
    = session_count m + length b"
proof -
  have "session_buckets m ! i \<in> set (session_buckets m)" using assms by simp
  then have "length (session_buckets m ! i) \<le> session_count m"
    unfolding session_count_def by (intro member_le_sum_list) simp_all
  then show ?thesis using assms by (simp add: session_count_def map_update sum_list_update)
qed

lemma session_count_put:
  assumes "manager_ok m"
  shows "session_count (put_session sid a m) =
    (if find_session m sid = None then Suc (session_count m) else session_count m)"
  using session_count_update [OF get_shard_less [OF assms, of sid], of "um_put sid a (session_buckets m ! get_shard m sid)"]
  by (simp add: put_session_def find_session_def Let_def length_um_put split: if_splits)

lemma session_count_erase:
  assumes "manager_ok m"
  shows "session_count (erase_session sid m) =
    (if find_session m sid = None then session_count m else session_count m - 1)"
proof -
  let ?b = "session_buckets m ! get_shard m sid"
  have ok: "um_ok ?b" using assms get_shard_less [OF assms, of sid] by (simp add: manager_ok_def)
  have "um_find ?b sid \<noteq> None \<Longrightarrow> 0 < length ?b" by (cases ?b) auto
  moreover have "session_count (erase_session sid m) + length ?b = session_count m + length (um_erase sid ?b)"
    using session_count_update [OF get_shard_less [OF assms, of sid], of "um_erase sid ?b"]
    by (simp add: erase_session_def Let_def)
  ultimately show ?thesis
    using length_um_erase [OF ok, of sid]
    by (cases "um_find ?b sid") (simp_all add: find_session_def del: length_greater_0_conv)
qed

interpretation sm: hash_map find_session put_session erase_session session_count manager_ok
  by unfold_locales
     (simp_all add: find_put_session find_erase_session put_session_ok erase_session_ok
        session_count_put session_count_erase)

lemma all_sessions_iff:
  assumes "manager_ok m"
  shows "a \<in> set (all_sessions m) \<longleftrightarrow> (\<exists>sid. find_session m sid = Some a)"
proof
  assume "a \<in> set (all_sessions m)"
  then obtain b sid where b: "b \<in> set (session_buckets m)" "(sid, a) \<in> set b"
    by (auto simp: all_sessions_def)
  then obtain i where i: "i < shard_count m" "b = session_buckets m ! i"
    using assms by (auto simp: manager_ok_def in_set_conv_nth)
  then have "get_shard m sid = i" "um_ok b"
    using assms b(2) by (force simp: manager_ok_def um_keys_def)+
  then have "find_session m sid = Some a" using b(2) i by (simp add: find_session_def um_find_iff)
  then show "\<exists>sid. find_session m sid = Some a" ..
next
  assume "\<exists>sid. find_session m sid = Some a"
  then obtain sid where "(sid, a) \<in> set (session_buckets m ! get_shard m sid)"
    by (auto simp: find_session_def dest: um_find_in_set)
  with get_shard_less [OF assms, of sid] show "a \<in> set (all_sessions m)"
    by (force simp: all_sessions_def intro!: bexI [of _ "session_buckets m ! get_shard m sid"])
qed

lemma length_all_sessions: "length (all_sessions m) = session_count m"
  by (simp add: all_sessions_def session_count_def length_concat comp_def)

text \<open>The keys of different shards are different, so the entries are counted once each.\<close>

lemma distinct_keys: "manager_ok m \<Longrightarrow> distinct (concat (map um_keys (session_buckets m)))"
proof -
  assume m: "manager_ok m"
  have "distinct (concat (map um_keys (map (nth (session_buckets m)) is)))"
    if "distinct is" "set is \<subseteq> {..<shard_count m}" for "is"
    using that
  proof (induction "is")
    case (Cons i "is")
    have "get_shard m k = i" if "k \<in> set (um_keys (session_buckets m ! i))" for k
      using that Cons.prems m by (auto simp: manager_ok_def)
    moreover have "get_shard m k \<in> set is" if "k \<in> set (concat (map um_keys (map (nth (session_buckets m)) is)))" for k
      using that Cons.prems m by (auto simp: manager_ok_def)
    ultimately have "set (um_keys (session_buckets m ! i)) \<inter> set (concat (map um_keys (map (nth (session_buckets m)) is))) = {}"
      using Cons.prems(1) by (metis disjoint_iff distinct.simps(2))
    moreover have "distinct (um_keys (session_buckets m ! i))"
      using Cons.prems(2) m by (simp add: manager_ok_def um_ok_def)
    ultimately show ?case using Cons by simp
  qed simp
  from this [of "[0..<shard_count m]"]
  have "distinct (concat (map um_keys (map (nth (session_buckets m)) [0..<length (session_buckets m)])))"
    using m by (simp add: manager_ok_def atLeast0LessThan)
  then show ?thesis by (simp only: map_nth)
qed

lemma session_count_dom: "manager_ok m \<Longrightarrow> card (dom (find_session m)) = session_count m"
proof -
  assume m: "manager_ok m"
  let ?ks = "concat (map um_keys (session_buckets m))"
  have "dom (find_session m) = set ?ks"
  proof (rule set_eqI)
    fix k
    have "k \<in> dom (find_session m) \<longleftrightarrow> k \<in> set (um_keys (session_buckets m ! get_shard m k))"
      by (auto simp: find_session_def set_um_keys)
    also have "\<dots> \<longleftrightarrow> k \<in> set ?ks"
    proof
      assume "k \<in> set (um_keys (session_buckets m ! get_shard m k))"
      then show "k \<in> set ?ks" using get_shard_less [OF m, of k] by (auto intro: nth_mem)
    next
      assume "k \<in> set ?ks"
      then obtain i where "i < shard_count m" "k \<in> set (um_keys (session_buckets m ! i))"
        using m by (auto simp: manager_ok_def) (metis in_set_conv_nth)
      moreover from this have "get_shard m k = i" using m by (simp add: manager_ok_def)
      ultimately show "k \<in> set (um_keys (session_buckets m ! get_shard m k))" by simp
    qed
    finally show "k \<in> dom (find_session m) \<longleftrightarrow> k \<in> set ?ks" .
  qed
  moreover have "length ?ks = session_count m" by (simp add: session_count_def length_concat comp_def)
  ultimately show ?thesis using distinct_keys [OF m] by (metis distinct_card)
qed

lemma get_total_session_count_eq: "manager_ok m \<Longrightarrow> get_total_session_count m = session_count m"
proof -
  assume "manager_ok m"
  then have l: "length (session_buckets m) = shard_count m" by (simp add: manager_ok_def)
  have "map (\<lambda>i. length (session_buckets m ! i)) [0..<shard_count m] = map length (session_buckets m)"
    by (rule nth_equalityI) (simp_all add: l)
  then show ?thesis by (simp add: get_total_session_count_def session_count_def)
qed

lemma set_nickname_owner_ok: "manager_ok m \<Longrightarrow> manager_ok (set_nickname_owner nick a m)"
  by (auto simp: manager_ok_def set_nickname_owner_def)

lemma mgr_add_session_ok: "manager_ok m \<Longrightarrow> manager_ok (snd (mgr_add_session h a m))"
  by (simp add: mgr_add_session_def put_session_ok Let_def)

lemma mgr_remove_session_ok: "manager_ok m \<Longrightarrow> manager_ok (snd (mgr_remove_session sid m))"
  by (simp add: mgr_remove_session_def erase_session_ok split: option.split)

section \<open>Properties\<close>

text \<open>
  C9: The sharded table is one map from ids to sessions, for any number of shards and any
  id, negative ones included: adding a session makes its id find it, removing an id makes
  it unknown and returns what it found, every other id is untouched, the counts agree with
  the number of entries, and the copy that broadcasts iterate over is exactly the range of
  the map.
\<close>

theorem sharded_table_refines_map:
  assumes "manager_ok m"
  shows "find_session (snd (mgr_add_session h a m)) = (find_session m)(session_id (h a) \<mapsto> a)
    \<and> fst (mgr_remove_session sid m) = find_session m sid
    \<and> find_session (snd (mgr_remove_session sid m)) = (find_session m)(sid := None)
    \<and> session_count (snd (mgr_remove_session sid (snd (mgr_add_session h a m)))) \<le> Suc (session_count m)
    \<and> set (all_sessions m) = ran (find_session m)
    \<and> length (all_sessions m) = session_count m \<and> get_total_session_count m = session_count m
    \<and> manager_ok (snd (mgr_add_session h a m)) \<and> manager_ok (snd (mgr_remove_session sid m))"
proof (intro conjI)
  have put: "snd (mgr_add_session h a m) = put_session (session_id (h a)) a m" for m
    by (simp add: mgr_add_session_def Let_def)
  show "find_session (snd (mgr_add_session h a m)) = (find_session m)(session_id (h a) \<mapsto> a)"
    using assms by (simp add: put sm.find_fun_put)
  show "fst (mgr_remove_session sid m) = find_session m sid"
    by (simp add: mgr_remove_session_def split: option.split)
  show "find_session (snd (mgr_remove_session sid m)) = (find_session m)(sid := None)"
    using assms by (auto simp: mgr_remove_session_def sm.find_fun_erase split: option.split)
  have "session_count (put_session (session_id (h a)) a m) \<le> Suc (session_count m)"
    using sm.count_put_le [OF assms] .
  moreover have "session_count (snd (mgr_remove_session sid n)) \<le> session_count n" if "manager_ok n" for n
    using sm.count_erase_le [OF that] by (simp add: mgr_remove_session_def split: option.split)
  ultimately show "session_count (snd (mgr_remove_session sid (snd (mgr_add_session h a m)))) \<le> Suc (session_count m)"
    using put_session_ok [OF assms] put by (metis order_trans)
  show "set (all_sessions m) = ran (find_session m)"
    using all_sessions_iff [OF assms] by (auto simp: ran_def)
qed (use assms in \<open>simp_all add: length_all_sessions get_total_session_count_eq mgr_add_session_ok mgr_remove_session_ok\<close>)

theorem sharded_table_refines_map_witness:
  "find_session (snd (mgr_add_session (\<lambda>_. session_new 0 (-1) UdpSendStrand) 4 (manager_new 6))) (-1) = Some 4"
  using sharded_table_refines_map [OF manager_new_ok [of 6], of "\<lambda>_. session_new 0 (-1) UdpSendStrand" 4]
  by (simp add: session_new_def)

text \<open>
  \<open>unregister_nickname\<close> never returns: it calls \<open>cleanup_expired_nicknames\<close>, which
  locks the mutex that its caller holds.
\<close>

theorem unregister_nickname_deadlocks: "unregister_nickname held alive nick a m = Deadlock"
  by (simp add: unregister_nickname_def cleanup_expired_nicknames_def Let_def)

end
