(* ===== verification/Router.thy ===== *)
theory Router
  imports Utility
begin

text \<open>
  \<^verbatim>\<open>DBmwRouter\<close>: the table of requests to the DB middleware that wait for an answer,
  with their retransmissions and timeouts, and the routing of incoming messages. Every
  operation below is one job of the router's strand; the callbacks of a request are an
  arbitrary type, and calling one, sending, and fulfilling a promise are effects returned
  in the order the code performs them. The results are that request ids are never reused,
  that every request is settled at most once and is always either waiting or settled, how
  often it is sent, and that it cannot wait for ever.
\<close>

section \<open>Definitions\<close>

record 'cb pending_request =
  request_json :: json
  secure :: bool
  retries :: int
  max_retries :: int
  timeout_ms :: int
  request_session :: int
  on_ok :: "'cb option"
  on_error :: "'cb option"
  use_callbacks :: bool

record router_metrics =
  sent :: "64 word"
  ok_count :: "64 word"
  timed_out :: "64 word"
  retried :: "64 word"
  failed :: "64 word"

text \<open>
  \<open>timers\<close> are the requests whose timeout is armed, \<open>retry_timers\<close> the retransmissions
  that \<open>schedule_retry\<close> has planned. \<open>handler_types\<close> are the registered message types.
\<close>

record 'cb router =
  pending :: "(string, 'cb pending_request) umap"
  timers :: "string list"
  retry_timers :: "string list"
  req_seq :: "64 word"
  metrics :: router_metrics
  send_json_set :: bool
  send_secure_json_set :: bool
  handler_types :: "string list"
  last_timeout_count :: int

datatype 'cb router_effect =
    SendJson json
  | SendSecureJson json
  | Call 'cb json
  | SetPromise string json
  | RunHandler string json
  | AdminAlert string

definition router_new :: "'cb router" where
  "router_new = \<lparr>pending = [], timers = [], retry_timers = [], req_seq = 0,
     metrics = \<lparr>sent = 0, ok_count = 0, timed_out = 0, retried = 0, failed = 0\<rparr>,
     send_json_set = False, send_secure_json_set = False, handler_types = [], last_timeout_count = 0\<rparr>"

definition set_senders :: "bool \<Rightarrow> bool \<Rightarrow> 'cb router \<Rightarrow> 'cb router" where
  "set_senders js sec r = r\<lparr>send_json_set := js, send_secure_json_set := sec\<rparr>"

definition register_handler :: "string \<Rightarrow> 'cb router \<Rightarrow> 'cb router" where
  "register_handler ty r = r\<lparr>handler_types := ty # handler_types r\<rparr>"

definition metrics_snapshot :: "'cb router \<Rightarrow> router_metrics" where
  "metrics_snapshot r = metrics r"

subsection \<open>Request ids\<close>

text \<open>\<open>pid\<close> is the process id.\<close>

definition make_req_id :: "nat \<Rightarrow> int \<Rightarrow> 'cb router \<Rightarrow> string \<times> 'cb router" where
  "make_req_id pid sid r =
     (let seq = req_seq r + 1; r' = r\<lparr>req_seq := seq\<rparr> in
      (if 0 \<le> sid then int_str sid @ ''_'' @ nat_str (unat seq)
       else ''srv-'' @ nat_str pid @ ''-'' @ nat_str (unat seq), r'))"

text \<open>\<^verbatim>\<open>std::stoi\<close> raises on a value outside \<^verbatim>\<open>int\<close>, and the answer is -1.\<close>

definition extract_session_id_from_req :: "string \<Rightarrow> int" where
  "extract_session_id_from_req req_id =
     (let digits = takeWhile is_digit req_id in
      if digits = [] then -1
      else if int (digits_value 0 digits) < 2 ^ 31 then int (digits_value 0 digits) else -1)"

subsection \<open>Sending\<close>

text \<open>
  The request object: the payload's members are assigned over the fixed ones. Iterating
  with keys over a payload that is neither null nor an object raises, except for an empty
  array.
\<close>

definition build_request :: "string \<Rightarrow> string \<Rightarrow> json \<Rightarrow> exn + json" where
  "build_request api req_id payload =
     (let req = [(''type'', JStr ''db_query''), (''api'', JStr api), (''req_id'', JStr req_id)] in
      case payload of
        JNull \<Rightarrow> Inr (jobj req)
      | JObj ms \<Rightarrow> Inr (jobj (req @ ms))
      | JArr [] \<Rightarrow> Inr (jobj req)
      | _ \<Rightarrow> Inl Std_exception)"

text \<open>
  \<open>schedule_retry\<close> plans one more \<open>send_now_locked\<close>. \<open>raises\<close> says whether the injected
  send function raises. The log line reads the request's \<^verbatim>\<open>api\<close> inside the same
  \<^verbatim>\<open>try\<close>: when that raises, the request was sent and counted, and a retry is planned as
  for a failure.
\<close>

definition schedule_retry :: "string \<Rightarrow> 'cb router \<Rightarrow> 'cb router" where
  "schedule_retry req_id r =
     (case um_find (pending r) req_id of
        None \<Rightarrow> r
      | Some _ \<Rightarrow> r\<lparr>retry_timers := retry_timers r @ [req_id]\<rparr>)"

definition send_now_locked :: "bool \<Rightarrow> string \<Rightarrow> 'cb router \<Rightarrow> 'cb router \<times> 'cb router_effect list" where
  "send_now_locked raises req_id r =
     (case um_find (pending r) req_id of
        None \<Rightarrow> (r, [])
      | Some p \<Rightarrow>
          let out = (if secure p
                     then if send_secure_json_set r then [SendSecureJson (request_json p)] else []
                     else if send_json_set r then [SendJson (request_json p)] else [])
          in if out \<noteq> [] \<and> raises then (schedule_retry req_id r, out)
             else let r1 = r\<lparr>metrics := (metrics r)\<lparr>sent := sent (metrics r) + 1\<rparr>\<rparr>
                  in case value_string (request_json p) ''api'' [] of
                       Inl e \<Rightarrow> (schedule_retry req_id r1, out)
                     | Inr api \<Rightarrow> (r1, out))"

definition arm_timeout_locked :: "string \<Rightarrow> 'cb router \<Rightarrow> 'cb router" where
  "arm_timeout_locked req_id r =
     (case um_find (pending r) req_id of
        None \<Rightarrow> r
      | Some _ \<Rightarrow> r\<lparr>timers := req_id # removeAll req_id (timers r)\<rparr>)"

definition fulfill_and_erase_locked ::
  "string \<Rightarrow> json \<Rightarrow> bool \<Rightarrow> 'cb router \<Rightarrow> 'cb router \<times> 'cb router_effect list" where
  "fulfill_and_erase_locked req_id result success r =
     (case um_find (pending r) req_id of
        None \<Rightarrow> (r, [])
      | Some p \<Rightarrow>
          let m = metrics r;
              m' = (if success then m\<lparr>ok_count := ok_count m + 1\<rparr> else m\<lparr>failed := failed m + 1\<rparr>)
          in (r\<lparr>timers := removeAll req_id (timers r), pending := um_erase req_id (pending r), metrics := m'\<rparr>,
              [SetPromise req_id result]))"

text \<open>The strand job of \<open>send_request\<close>, for the future based interface.\<close>

definition send_request_job ::
  "bool \<Rightarrow> string \<Rightarrow> json \<Rightarrow> bool \<Rightarrow> int \<Rightarrow> int \<Rightarrow> int \<Rightarrow> 'cb router \<Rightarrow> 'cb router \<times> 'cb router_effect list" where
  "send_request_job raises req_id req sec t maxr sid r =
     (let p = \<lparr>request_json = req, secure = sec, retries = 0, max_retries = maxr, timeout_ms = t,
               request_session = sid, on_ok = None, on_error = None, use_callbacks = False\<rparr>;
          r1 = (if um_find (pending r) req_id = None then r\<lparr>pending := um_put req_id p (pending r)\<rparr> else r);
          (r2, es) = send_now_locked raises req_id r1
      in (arm_timeout_locked req_id r2, es))"

definition send_request ::
  "nat \<Rightarrow> bool \<Rightarrow> string \<Rightarrow> json \<Rightarrow> bool \<Rightarrow> int \<Rightarrow> int \<Rightarrow> int \<Rightarrow> 'cb router
     \<Rightarrow> (exn + string) \<times> 'cb router \<times> 'cb router_effect list" where
  "send_request pid raises api payload sec t maxr sid r =
     (let (req_id, r1) = make_req_id pid sid r in
      case build_request api req_id payload of
        Inl e \<Rightarrow> (Inl e, r1, [])
      | Inr req \<Rightarrow> (Inr req_id, send_request_job raises req_id req sec t maxr sid r1))"

text \<open>The strand job of \<open>send_request_cb\<close>.\<close>

definition send_request_cb_job ::
  "bool \<Rightarrow> string \<Rightarrow> json \<Rightarrow> bool \<Rightarrow> int \<Rightarrow> int \<Rightarrow> int \<Rightarrow> 'cb \<Rightarrow> 'cb \<Rightarrow> 'cb router
     \<Rightarrow> 'cb router \<times> 'cb router_effect list" where
  "send_request_cb_job raises req_id req sec t maxr sid ok err r =
     (if (\<not> sec \<and> \<not> send_json_set r) \<or> (sec \<and> \<not> send_secure_json_set r)
      then (r, [Call err (jobj [(''type'', JStr ''error''), (''code'', JInt (-1)),
                 (''msg'', JStr ''send function not set''), (''req_id'', JStr req_id)])])
      else let p = \<lparr>request_json = req, secure = sec, retries = 0, max_retries = maxr, timeout_ms = t,
                    request_session = sid, on_ok = Some ok, on_error = Some err, use_callbacks = True\<rparr>;
               r1 = (if um_find (pending r) req_id = None then r\<lparr>pending := um_put req_id p (pending r)\<rparr> else r);
               (r2, es) = send_now_locked raises req_id r1
           in (arm_timeout_locked req_id r2, es))"

definition send_request_cb ::
  "nat \<Rightarrow> bool \<Rightarrow> string \<Rightarrow> json \<Rightarrow> bool \<Rightarrow> int \<Rightarrow> int \<Rightarrow> int \<Rightarrow> 'cb \<Rightarrow> 'cb \<Rightarrow> 'cb router
     \<Rightarrow> (exn + string) \<times> 'cb router \<times> 'cb router_effect list" where
  "send_request_cb pid raises api payload sec t maxr sid ok err r =
     (let (req_id, r1) = make_req_id pid sid r in
      case build_request api req_id payload of
        Inl e \<Rightarrow> (Inl e, r1, [])
      | Inr req \<Rightarrow> (Inr req_id, send_request_cb_job raises req_id req sec t maxr sid ok err r1))"

subsection \<open>Timeouts and retransmissions\<close>

definition timeout_json :: "string \<Rightarrow> json" where
  "timeout_json req_id = jobj [(''type'', JStr ''error''), (''code'', JInt (-110)),
     (''msg'', JStr ''timeout''), (''req_id'', JStr req_id)]"

text \<open>The timer of a request expires: the lambda that \<open>arm_timeout_locked\<close> dispatches.\<close>

definition on_timeout :: "bool \<Rightarrow> string \<Rightarrow> 'cb router \<Rightarrow> 'cb router \<times> 'cb router_effect list" where
  "on_timeout raises req_id r0 =
     (let r = r0\<lparr>timers := removeAll req_id (timers r0)\<rparr> in
      case um_find (pending r) req_id of
        None \<Rightarrow> (r, [])
      | Some p \<Rightarrow>
          if retries p < max_retries p
          then let r1 = r\<lparr>pending := um_put req_id (p\<lparr>retries := retries p + 1\<rparr>) (pending r),
                          metrics := (metrics r)\<lparr>retried := retried (metrics r) + 1\<rparr>\<rparr>;
                   (r2, es) = send_now_locked raises req_id r1
               in (arm_timeout_locked req_id r2, es)
          else let r1 = r\<lparr>metrics := (metrics r)\<lparr>timed_out := timed_out (metrics r) + 1\<rparr>\<rparr>
               in fulfill_and_erase_locked req_id (timeout_json req_id) False r1)"

text \<open>A retransmission planned by \<open>schedule_retry\<close> comes due.\<close>

definition on_retry :: "bool \<Rightarrow> string \<Rightarrow> 'cb router \<Rightarrow> 'cb router \<times> 'cb router_effect list" where
  "on_retry raises req_id r =
     send_now_locked raises req_id (r\<lparr>retry_timers := remove1 req_id (retry_timers r)\<rparr>)"

subsection \<open>Incoming messages\<close>

definition response_types :: "string list" where
  "response_types = [''db_query_result'', ''db_error'', ''dbmw_error'', ''db_error_msg'']"

text \<open>The strand job of \<open>handle\<close> for a response.\<close>

definition on_response :: "string \<Rightarrow> json \<Rightarrow> bool \<Rightarrow> 'cb router \<Rightarrow> 'cb router \<times> 'cb router_effect list" where
  "on_response req_id j ok r =
     (case um_find (pending r) req_id of
        None \<Rightarrow> (r, [])
      | Some p \<Rightarrow>
          let (r', es) = fulfill_and_erase_locked req_id j ok r in
          if use_callbacks p
          then (r', es @ (case (if ok then on_ok p else on_error p) of Some cb \<Rightarrow> [Call cb j] | None \<Rightarrow> []))
          else (r', es))"

text \<open>
  Where \<open>handle\<close> sends a message: to the request it answers, with whether it is a result,
  to a registered handler, or nowhere.
\<close>

datatype route = ToRequest string bool | ToHandler string | NoRoute

definition route_json :: "json \<Rightarrow> 'cb router \<Rightarrow> exn + route" where
  "route_json j r =
     (case value_string j ''type'' [] of
        Inl e \<Rightarrow> Inl e
      | Inr ty \<Rightarrow>
          let rest = (if ty \<in> set (handler_types r) then ToHandler ty else NoRoute) in
          if ty \<in> set response_types
          then case value_string j ''req_id'' [] of
                 Inl e \<Rightarrow> Inl e
               | Inr req_id \<Rightarrow> if req_id \<noteq> [] then Inr (ToRequest req_id (ty = ''db_query_result''))
                               else Inr rest
          else Inr rest)"

definition handle_json :: "json \<Rightarrow> 'cb router \<Rightarrow> exn + ('cb router \<times> 'cb router_effect list)" where
  "handle_json j r =
     (case route_json j r of
        Inl e \<Rightarrow> Inl e
      | Inr (ToRequest req_id ok) \<Rightarrow> Inr (on_response req_id j ok r)
      | Inr (ToHandler ty) \<Rightarrow> Inr (r, [RunHandler ty j])
      | Inr NoRoute \<Rightarrow> Inr (r, []))"

text \<open>
  A Protobuf message: the fields of the generated \<^verbatim>\<open>wire::Envelope\<close> the router reads.
  The two acknowledgements act on the client and are passed on as handler runs.
\<close>

datatype envelope =
    ServerLoginAck string string
  | KeepaliveAck
  | DbQueryResult string int string string
  | ErrorMsg string int string
  | OtherMsg

text \<open>The JSON message that stands for an envelope the router passes on to \<open>handle\<close>.\<close>

definition envelope_json :: "envelope \<Rightarrow> json option" where
  "envelope_json env =
     (case env of
        DbQueryResult req_id code api data_json \<Rightarrow>
          Some (jobj [(''type'', JStr ''db_query_result''), (''api'', JStr api), (''code'', JInt code),
            (''req_id'', JStr req_id), (''data'', JStr data_json)])
      | ErrorMsg req_id code msg \<Rightarrow>
          Some (jobj [(''type'', JStr ''db_error''), (''code'', JInt code), (''req_id'', JStr req_id),
            (''msg'', JStr msg)])
      | _ \<Rightarrow> None)"

definition handle_envelope :: "envelope \<Rightarrow> 'cb router \<Rightarrow> exn + ('cb router \<times> 'cb router_effect list)" where
  "handle_envelope env r =
     (case env of
        ServerLoginAck result nick \<Rightarrow>
          if result = ''ok'' then Inr (r, [RunHandler ''pb_server_login_ack'' JNull]) else Inr (r, [])
      | KeepaliveAck \<Rightarrow> Inr (r, [RunHandler ''pb_keepalive_ack'' JNull])
      | _ \<Rightarrow> (case envelope_json env of Some j \<Rightarrow> handle_json j r | None \<Rightarrow> Inr (r, [])))"

text \<open>
  The metrics timer: an alert when the client's timeouts grew by more than 50 since the
  last period. \<open>current\<close> is the client's counter, 0 when the client is gone.
\<close>

definition on_metrics_timer :: "int \<Rightarrow> 'cb router \<Rightarrow> 'cb router \<times> 'cb router_effect list" where
  "on_metrics_timer current r =
     (r\<lparr>last_timeout_count := current\<rparr>,
      if 50 < current - last_timeout_count r
      then [AdminAlert (''[DBmwRouter] ALERT: Timeout surge detected! count='' @ int_str current)] else [])"

section \<open>Runs of the router\<close>

text \<open>
  A router with the history a proof needs: the ids registered so far, newest first, and the
  effects performed, oldest first.
\<close>

record 'cb router_run =
  the_router :: "'cb router"
  registered :: "string list"
  effects :: "'cb router_effect list"

inductive router_step :: "'cb router_run \<Rightarrow> 'cb router_run \<Rightarrow> bool" where
  request_cb:
    "send_request_cb pid raises api payload sec t maxr sid ok err (the_router u) = (Inr req_id, r, es) \<Longrightarrow>
     (sec \<and> send_secure_json_set (the_router u)) \<or> (\<not> sec \<and> send_json_set (the_router u)) \<Longrightarrow>
     0 \<le> maxr \<Longrightarrow> length (registered u) + 1 < 2 ^ 64 \<Longrightarrow>
     router_step u \<lparr>the_router = r, registered = req_id # registered u, effects = effects u @ es\<rparr>"
| request_future:
    "send_request pid raises api payload sec t maxr sid (the_router u) = (Inr req_id, r, es) \<Longrightarrow>
     0 \<le> maxr \<Longrightarrow> length (registered u) + 1 < 2 ^ 64 \<Longrightarrow>
     router_step u \<lparr>the_router = r, registered = req_id # registered u, effects = effects u @ es\<rparr>"
| timeout:
    "req_id \<in> set (timers (the_router u)) \<Longrightarrow> on_timeout raises req_id (the_router u) = (r, es) \<Longrightarrow>
     router_step u (u\<lparr>the_router := r, effects := effects u @ es\<rparr>)"
| retry:
    "req_id \<in> set (retry_timers (the_router u)) \<Longrightarrow> on_retry raises req_id (the_router u) = (r, es) \<Longrightarrow>
     router_step u (u\<lparr>the_router := r, effects := effects u @ es\<rparr>)"
| response:
    "handle_json j (the_router u) = Inr (r, es) \<Longrightarrow>
     router_step u (u\<lparr>the_router := r, effects := effects u @ es\<rparr>)"

definition router_start :: "'cb router_run \<Rightarrow> bool" where
  "router_start u \<longleftrightarrow> the_router u \<in> {set_senders js sec router_new | js sec. True}
     \<and> registered u = [] \<and> effects u = []"

definition settled :: "'cb router_effect list \<Rightarrow> string list" where
  "settled es = List.map_filter (\<lambda>e. case e of SetPromise i _ \<Rightarrow> Some i | _ \<Rightarrow> None) es"

text \<open>The sequence number at the end of a request id.\<close>

definition id_seq :: "string \<Rightarrow> nat" where
  "id_seq i = digits_value 0 (rev (takeWhile is_digit (rev i)))"

definition table_inv :: "'cb router \<Rightarrow> string list \<Rightarrow> string list \<Rightarrow> bool" where
  "table_inv r regs fin \<longleftrightarrow>
     um_ok (pending r)
     \<and> req_seq r = of_nat (length regs) \<and> length regs < 2 ^ 64
     \<and> (\<forall>i \<in> set regs. 0 < id_seq i \<and> id_seq i \<le> length regs)
     \<and> distinct regs \<and> distinct fin
     \<and> set fin \<union> set (um_keys (pending r)) = set regs
     \<and> set fin \<inter> set (um_keys (pending r)) = {}
     \<and> set (um_keys (pending r)) = set (timers r)
     \<and> (\<forall>i p. um_find (pending r) i = Some p \<longrightarrow> 0 \<le> retries p \<and> retries p \<le> max_retries p)"

definition router_inv :: "'cb router_run \<Rightarrow> bool" where
  "router_inv u \<longleftrightarrow> table_inv (the_router u) (registered u) (settled (effects u))"

text \<open>The timer of one request expires \<open>n\<close> times in a row, with a sender that works.\<close>

fun timeouts :: "nat \<Rightarrow> string \<Rightarrow> 'cb router \<Rightarrow> 'cb router \<times> 'cb router_effect list" where
  "timeouts 0 i r = (r, [])"
| "timeouts (Suc n) i r =
     (let (r1, es1) = on_timeout False i r; (r2, es2) = timeouts n i r1 in (r2, es1 @ es2))"

section \<open>Lemmas\<close>

subsection \<open>Request ids\<close>

lemma is_digit_underscore [simp]: "\<not> is_digit (CHR ''_'')" "\<not> is_digit (CHR ''-'')"
  by (simp_all add: is_digit_def)

lemma takeWhile_rev_digits:
  assumes "\<not> is_digit ch"
  shows "takeWhile is_digit (rev (xs @ ch # nat_str n)) = rev (nat_str n)"
proof -
  have "takeWhile is_digit (rev (nat_str n) @ ch # rev xs) = rev (nat_str n)"
    using assms nat_str_digits by (subst takeWhile_append2) auto
  then show ?thesis by simp
qed

lemma id_seq_suffix: "\<not> is_digit ch \<Longrightarrow> id_seq (xs @ ch # nat_str n) = n"
  unfolding id_seq_def by (subst takeWhile_rev_digits) (simp_all add: digits_value_nat_str)

lemma id_seq_make_req_id: "id_seq (fst (make_req_id pid sid r)) = unat (req_seq r + 1)"
proof -
  have "id_seq (int_str sid @ ''_'' @ nat_str n) = n" for n
    using id_seq_suffix [of "CHR ''_''" "int_str sid" n] by simp
  moreover have "id_seq (''srv-'' @ nat_str pid @ ''-'' @ nat_str n) = n" for n
    using id_seq_suffix [of "CHR ''-''" "''srv-'' @ nat_str pid" n] by simp
  ultimately show ?thesis by (simp only: make_req_id_def Let_def fst_conv split: if_split) simp
qed

lemma make_req_id_router [simp]: "snd (make_req_id pid sid r) = r\<lparr>req_seq := req_seq r + 1\<rparr>"
  by (simp add: make_req_id_def Let_def)

lemma takeWhile_int_str: "0 \<le> sid \<Longrightarrow> takeWhile is_digit (int_str sid @ CHR ''_'' # xs) = nat_str (nat sid)"
  using nat_str_digits by (subst takeWhile_append2) (auto simp: int_str_def)

subsection \<open>Frames of the operations\<close>

lemma settled_append [simp]: "settled (as @ bs) = settled as @ settled bs"
  by (simp add: settled_def map_filter_def)

lemma settled_Nil [simp]: "settled [] = []"
  by (simp add: settled_def map_filter_def)

lemma settled_simps [simp]:
  "settled (SetPromise i j # es) = i # settled es" "settled (SendJson j # es) = settled es"
  "settled (SendSecureJson j # es) = settled es" "settled (Call cb j # es) = settled es"
  "settled (RunHandler ty j # es) = settled es"
  by (simp_all add: settled_def map_filter_def)

lemma send_now_frame:
  "send_now_locked raises i r = (r', es) \<Longrightarrow>
     pending r' = pending r \<and> timers r' = timers r \<and> req_seq r' = req_seq r \<and> settled es = []"
  by (auto simp: send_now_locked_def schedule_retry_def Let_def split: option.splits if_splits sum.splits)

lemma table_inv_cong:
  "pending r' = pending r \<Longrightarrow> set (timers r') = set (timers r) \<Longrightarrow> req_seq r' = req_seq r \<Longrightarrow>
     table_inv r regs fin \<Longrightarrow> table_inv r' regs fin"
  unfolding table_inv_def by metis

lemma table_inv_register:
  assumes "table_inv r regs fin" "id_seq i = Suc (length regs)" "Suc (length regs) < 2 ^ 64"
    and "pending r' = um_put i p (pending r)" "set (timers r') = insert i (set (timers r))"
    and "req_seq r' = req_seq r + 1" "retries p = 0" "0 \<le> max_retries p"
  shows "table_inv r' (i # regs) fin"
proof -
  have fresh: "i \<notin> set regs" using assms(1,2) by (auto simp: table_inv_def)
  then have "um_find (pending r) i = None" "i \<notin> set fin"
    using assms(1) by (auto simp: table_inv_def um_find_None_iff)
  then show ?thesis
    using assms fresh by (auto simp: table_inv_def um_ok_put um_keys_put um_find_put um_find_None_iff split: if_splits)
qed

lemma table_inv_retry:
  assumes "table_inv r regs fin" "um_find (pending r) i = Some p" "retries p < max_retries p"
    and "pending r' = um_put i (p\<lparr>retries := retries p + 1\<rparr>) (pending r)"
    and "set (timers r') = set (timers r)" "req_seq r' = req_seq r"
  shows "table_inv r' regs fin"
proof -
  have "i \<in> set (um_keys (pending r))" using assms(2) by (simp add: set_um_keys)
  then have k: "um_keys (pending r') = um_keys (pending r)" using assms(4) by (simp add: um_keys_put)
  have "0 \<le> retries q \<and> retries q \<le> max_retries q" if "um_find (pending r') k = Some q" for k q
    using that assms(1-4) by (auto simp: table_inv_def um_find_put split: if_splits)
  then show ?thesis using assms(1,4-6) k by (auto simp: table_inv_def um_ok_put)
qed

lemma table_inv_settle:
  assumes "table_inv r regs fin" "um_find (pending r) i = Some p"
    and "pending r' = um_erase i (pending r)" "set (timers r') = set (timers r) - {i}"
    and "req_seq r' = req_seq r"
  shows "table_inv r' regs (fin @ [i])"
proof -
  have k: "set (um_keys (pending r')) = set (um_keys (pending r)) - {i}"
    using assms(3) by (auto simp: set_um_keys um_find_erase)
  have i: "i \<in> set (um_keys (pending r))" using assms(2) by (simp add: set_um_keys)
  show ?thesis
    using assms k i by (auto simp: table_inv_def um_ok_erase um_find_erase split: if_splits)
qed

text \<open>What the two ways of registering a request do to the table.\<close>

lemma register_table:
  assumes "table_inv r regs fin" "Suc (length regs) < 2 ^ 64" "retries p = 0" "0 \<le> max_retries p"
    and i: "make_req_id pid sid r = (i, r1)"
    and "send_now_locked raises i (r1\<lparr>pending := um_put i p (pending r1)\<rparr>) = (r2, es)"
  shows "table_inv (arm_timeout_locked i r2) (i # regs) fin \<and> settled es = []
    \<and> um_find (pending r1) i = None"
proof -
  have r1: "r1 = r\<lparr>req_seq := req_seq r + 1\<rparr>" using make_req_id_router [of pid sid r] i by simp
  have "req_seq r + 1 = of_nat (Suc (length regs))" using assms(1) by (simp add: table_inv_def)
  then have "unat (req_seq r + 1) = Suc (length regs)" using assms(2) by (simp only: unat_of_nat) simp
  then have seq: "id_seq i = Suc (length regs)" using id_seq_make_req_id [of pid sid r] i by simp
  then have "i \<notin> set regs" using assms(1) by (auto simp: table_inv_def)
  then have none: "um_find (pending r1) i = None"
    using assms(1) r1 by (auto simp: table_inv_def um_find_None_iff)
  note f = send_now_frame [OF assms(6)]
  have "pending (arm_timeout_locked i r2) = um_put i p (pending r)"
    "set (timers (arm_timeout_locked i r2)) = insert i (set (timers r))"
    "req_seq (arm_timeout_locked i r2) = req_seq r + 1"
    using f r1 by (auto simp: arm_timeout_locked_def um_find_put)
  with table_inv_register [OF assms(1) seq assms(2)] assms(3,4) have "table_inv (arm_timeout_locked i r2) (i # regs) fin"
    by blast
  with f none show ?thesis by simp
qed

lemma fulfill_table:
  assumes "table_inv r regs fin" "um_find (pending r) i = Some p"
    and "fulfill_and_erase_locked i j ok r' = (r2, es)"
    and "pending r' = pending r" "set (timers r') - {i} = set (timers r) - {i}" "req_seq r' = req_seq r"
  shows "table_inv r2 regs (fin @ settled es)"
proof -
  have "pending r2 = um_erase i (pending r)" "timers r2 = removeAll i (timers r')" "req_seq r2 = req_seq r"
    and es: "settled es = [i]"
    using assms(2-4,6) by (auto simp: fulfill_and_erase_locked_def Let_def)
  moreover from this(2) have "set (timers r2) = set (timers r) - {i}" using assms(5) by simp
  ultimately show ?thesis unfolding es by (intro table_inv_settle [OF assms(1,2)])
qed

lemma on_timeout_table:
  assumes "table_inv r regs fin" "on_timeout raises i r = (r', es)"
  shows "table_inv r' regs (fin @ settled es)"
proof (cases "um_find (pending r) i")
  case None
  then have "i \<notin> set (timers r)" using assms(1) by (auto simp: table_inv_def um_find_None_iff)
  then show ?thesis using assms None by (auto simp: on_timeout_def Let_def intro: table_inv_cong)
next
  case (Some p)
  have t: "i \<in> set (timers r)" using assms(1) Some by (auto simp: table_inv_def set_um_keys)
  show ?thesis
  proof (cases "retries p < max_retries p")
    case True
    then obtain r2 where s: "send_now_locked raises i (r\<lparr>timers := removeAll i (timers r),
        pending := um_put i (p\<lparr>retries := retries p + 1\<rparr>) (pending r),
        metrics := (metrics r)\<lparr>retried := retried (metrics r) + 1\<rparr>\<rparr>) = (r2, es)"
      and r': "r' = arm_timeout_locked i r2"
      using assms(2) Some by (auto simp: on_timeout_def Let_def split: prod.splits)
    note f = send_now_frame [OF s]
    have "table_inv r' regs fin"
      by (rule table_inv_retry [OF assms(1) Some True])
         (use f r' t in \<open>auto simp: arm_timeout_locked_def um_find_put\<close>)
    then show ?thesis using f by simp
  next
    case False
    then have "fulfill_and_erase_locked i (timeout_json i) False
        (r\<lparr>timers := removeAll i (timers r),
          metrics := (metrics r)\<lparr>timed_out := timed_out (metrics r) + 1\<rparr>\<rparr>) = (r', es)"
      using assms(2) Some by (simp add: on_timeout_def Let_def)
    from fulfill_table [OF assms(1) Some this] show ?thesis by (simp del: settled_simps)
  qed
qed

lemma on_response_table:
  assumes "table_inv r regs fin" "on_response i j ok r = (r', es)"
  shows "table_inv r' regs (fin @ settled es)"
proof (cases "um_find (pending r) i")
  case None
  then show ?thesis using assms by (simp add: on_response_def)
next
  case (Some p)
  obtain es1 where f: "fulfill_and_erase_locked i j ok r = (r', es1)" and es: "settled es = settled es1"
    using assms(2) Some by (auto simp: on_response_def Let_def split: prod.splits if_splits option.splits)
  from fulfill_table [OF assms(1) Some f] show ?thesis unfolding es by simp
qed

lemma handle_json_table:
  assumes "table_inv r regs fin" "handle_json j r = Inr (r', es)"
  shows "table_inv r' regs (fin @ settled es)"
  using assms on_response_table [OF assms(1)]
  by (auto simp: handle_json_def route_json_def Let_def split: sum.splits if_splits route.splits)

lemma router_inv_start: "router_start u \<Longrightarrow> router_inv u"
  by (auto simp: router_start_def router_inv_def table_inv_def router_new_def set_senders_def um_keys_def)

lemma router_inv_step:
  assumes "router_inv u" "router_step u u'"
  shows "router_inv u'"
  using assms(2)
proof (cases rule: router_step.cases)
  case (request_cb pid raises api payload sec t maxr sid ok err req_id r es)
  obtain i r1 where i: "make_req_id pid sid (the_router u) = (i, r1)" by fastforce
  obtain req where req: "build_request api i payload = Inr req" and ri: "req_id = i"
    using request_cb(2) i by (auto simp: send_request_cb_def split: sum.splits)
  let ?p = "\<lparr>request_json = req, secure = sec, retries = 0, max_retries = maxr, timeout_ms = t,
      request_session = sid, on_ok = Some ok, on_error = Some err, use_callbacks = True\<rparr>"
  obtain r2 es2 where s: "send_now_locked raises i (r1\<lparr>pending := um_put i ?p (pending r1)\<rparr>) = (r2, es2)"
    by fastforce
  have inv: "table_inv (the_router u) (registered u) (settled (effects u))" using assms(1) by (simp add: router_inv_def)
  note t = register_table [OF inv _ _ _ i s]
  have "r1 = (the_router u)\<lparr>req_seq := req_seq (the_router u) + 1\<rparr>"
    using make_req_id_router [of pid sid "the_router u"] i by simp
  then have "r = arm_timeout_locked i r2" "es = es2"
    using request_cb(2,3,4,5) i req s t by (auto simp: send_request_cb_def send_request_cb_job_def)
  then show ?thesis using t request_cb(1,4,5) ri by (simp add: router_inv_def)
next
  case (request_future pid raises api payload sec t maxr sid req_id r es)
  obtain i r1 where i: "make_req_id pid sid (the_router u) = (i, r1)" by fastforce
  obtain req where req: "build_request api i payload = Inr req" and ri: "req_id = i"
    using request_future(2) i by (auto simp: send_request_def split: sum.splits)
  let ?p = "\<lparr>request_json = req, secure = sec, retries = 0, max_retries = maxr, timeout_ms = t,
      request_session = sid, on_ok = None, on_error = None, use_callbacks = False\<rparr>"
  obtain r2 es2 where s: "send_now_locked raises i (r1\<lparr>pending := um_put i ?p (pending r1)\<rparr>) = (r2, es2)"
    by fastforce
  have inv: "table_inv (the_router u) (registered u) (settled (effects u))" using assms(1) by (simp add: router_inv_def)
  note t = register_table [OF inv _ _ _ i s]
  have "r = arm_timeout_locked i r2" "es = es2"
    using request_future(2,3,4) i req s t by (auto simp: send_request_def send_request_job_def)
  then show ?thesis using t request_future(1,3,4) ri by (simp add: router_inv_def)
next
  case (timeout req_id raises r es)
  then show ?thesis using assms(1) on_timeout_table by (fastforce simp: router_inv_def)
next
  case (retry req_id raises r es)
  then have "pending r = pending (the_router u) \<and> timers r = timers (the_router u)
      \<and> req_seq r = req_seq (the_router u) \<and> settled es = []"
    using send_now_frame [of raises req_id _ r es] by (fastforce simp: on_retry_def)
  then show ?thesis using assms(1) retry(1) by (auto simp: router_inv_def intro: table_inv_cong)
next
  case (response j r es)
  then show ?thesis using assms(1) handle_json_table by (fastforce simp: router_inv_def)
qed

interpretation router_sys: transition_system router_start router_step router_inv
  by unfold_locales (auto intro: router_inv_start router_inv_step)

text \<open>One expiry: a retransmission while retries are left, the end of the request after that.\<close>

lemma on_timeout_retry:
  assumes "um_find (pending r) i = Some p" "retries p < max_retries p"
    and "if secure p then send_secure_json_set r else send_json_set r"
    and "value_string (request_json p) ''api'' [] = Inr api"
  shows "on_timeout False i r =
    (r\<lparr>pending := um_put i (p\<lparr>retries := retries p + 1\<rparr>) (pending r), timers := i # removeAll i (timers r),
       metrics := (metrics r)\<lparr>retried := retried (metrics r) + 1, sent := sent (metrics r) + 1\<rparr>\<rparr>,
     [if secure p then SendSecureJson (request_json p) else SendJson (request_json p)])"
  using assms
  by (simp add: on_timeout_def send_now_locked_def arm_timeout_locked_def um_find_put Let_def split: if_splits)

lemma on_timeout_last:
  assumes "um_find (pending r) i = Some p" "\<not> retries p < max_retries p"
  shows "on_timeout raises i r =
    (r\<lparr>pending := um_erase i (pending r), timers := removeAll i (timers r),
       metrics := (metrics r)\<lparr>timed_out := timed_out (metrics r) + 1, failed := failed (metrics r) + 1\<rparr>\<rparr>,
     [SetPromise i (timeout_json i)])"
  using assms by (simp add: on_timeout_def fulfill_and_erase_locked_def Let_def)

lemma timeouts_settle:
  assumes "um_find (pending r) i = Some p" "retries p \<le> max_retries p"
    and "if secure p then send_secure_json_set r else send_json_set r"
    and "value_string (request_json p) ''api'' [] = Inr api"
    and "n = nat (max_retries p - retries p)"
    and "timeouts (Suc n) i r = (r', es)"
  shows "es = replicate n (if secure p then SendSecureJson (request_json p) else SendJson (request_json p))
        @ [SetPromise i (timeout_json i)]
    \<and> (\<forall>k. um_find (pending r') k = (if k = i then None else um_find (pending r) k))
    \<and> i \<notin> set (timers r') \<and> retry_timers r' = retry_timers r
    \<and> metrics r' = (metrics r)\<lparr>sent := sent (metrics r) + of_nat n, retried := retried (metrics r) + of_nat n,
        timed_out := timed_out (metrics r) + 1, failed := failed (metrics r) + 1\<rparr>"
  using assms
proof (induction n arbitrary: r p es)
  case 0
  then have "\<not> retries p < max_retries p" by simp
  then show ?case using "0.prems"(6) by (auto simp: on_timeout_last [OF "0.prems"(1)] um_find_erase)
next
  case (Suc n)
  let ?q = "p\<lparr>retries := retries p + 1\<rparr>"
  let ?r = "r\<lparr>pending := um_put i ?q (pending r), timers := i # removeAll i (timers r),
       metrics := (metrics r)\<lparr>retried := retried (metrics r) + 1, sent := sent (metrics r) + 1\<rparr>\<rparr>"
  have lt: "retries p < max_retries p" using Suc.prems(5) by simp
  note one = on_timeout_retry [OF Suc.prems(1) lt Suc.prems(3,4)]
  obtain es2 where rest: "timeouts (Suc n) i ?r = (r', es2)"
    and es: "es = (if secure p then SendSecureJson (request_json p) else SendJson (request_json p)) # es2"
    using Suc.prems(6) one by (auto simp: timeouts.simps(2) [of "Suc n"] Let_def simp del: timeouts.simps split: prod.splits)
  have q: "um_find (pending ?r) i = Some ?q" by (simp add: um_find_put)
  have b: "retries ?q \<le> max_retries ?q" using lt by simp
  have st: "if secure ?q then send_secure_json_set ?r else send_json_set ?r" using Suc.prems(3) by simp
  have v: "value_string (request_json ?q) ''api'' [] = Inr api" using Suc.prems(4) by simp
  have n: "n = nat (max_retries ?q - retries ?q)" using Suc.prems(5) lt by simp
  from Suc.IH [OF q b st v n rest] es show ?case by (simp add: um_find_put add_ac)
qed

section \<open>Properties\<close>

text \<open>
  Request ids name their session and are never reused: the session id can be read
  back from the id of any request of a session, and two ids made with different counters
  differ, whatever sessions and processes they are made for.
\<close>

theorem req_id_roundtrip:
  assumes "0 \<le> sid" "sid < 2 ^ 31" "req_seq r \<noteq> req_seq r'"
  shows "extract_session_id_from_req (fst (make_req_id pid sid r)) = sid
    \<and> fst (make_req_id pid sid r) \<noteq> fst (make_req_id pid' sid' r')"
proof
  have "fst (make_req_id pid sid r) = int_str sid @ CHR ''_'' # nat_str (unat (req_seq r + 1))"
    using assms(1) by (simp add: make_req_id_def Let_def)
  then show "extract_session_id_from_req (fst (make_req_id pid sid r)) = sid"
    using assms(1,2) by (simp add: extract_session_id_from_req_def takeWhile_int_str digits_value_nat_str Let_def)
  have "id_seq (fst (make_req_id pid sid r)) \<noteq> id_seq (fst (make_req_id pid' sid' r'))"
    using assms(3) by (simp add: id_seq_make_req_id word_unat_eq_iff [symmetric])
  then show "fst (make_req_id pid sid r) \<noteq> fst (make_req_id pid' sid' r')" by metis
qed

theorem req_id_roundtrip_witness:
  "extract_session_id_from_req (fst (make_req_id 77 42 (router_new :: nat router))) = 42"
proof -
  have "req_seq (router_new :: nat router) \<noteq> req_seq (router_new\<lparr>req_seq := 5\<rparr> :: nat router)"
    by (simp add: router_new_def)
  from req_id_roundtrip [OF _ _ this, of 42 77] show ?thesis by simp
qed

text \<open>
  C6: The request table. In every reachable state of the router the ids of all requests
  made so far are distinct, every request is either waiting, with its timeout armed, or was
  settled exactly once, and no other request was ever settled: no answer is lost, given
  twice, or given to a request that was not made.
\<close>

theorem requests_settled_once:
  assumes "reach router_start router_step u"
  shows "distinct (registered u) \<and> distinct (settled (effects u))
    \<and> set (settled (effects u)) \<union> set (um_keys (pending (the_router u))) = set (registered u)
    \<and> set (settled (effects u)) \<inter> set (um_keys (pending (the_router u))) = {}
    \<and> length (registered u) = length (settled (effects u)) + length (pending (the_router u))
    \<and> set (um_keys (pending (the_router u))) = set (timers (the_router u))"
proof -
  let ?k = "um_keys (pending (the_router u))" and ?d = "settled (effects u)"
  from router_sys.reach_inv [OF assms] have inv: "table_inv (the_router u) (registered u) ?d"
    by (simp add: router_inv_def)
  then have d: "distinct ?k" "distinct ?d" "distinct (registered u)" "set ?d \<inter> set ?k = {}"
    and un: "set ?d \<union> set ?k = set (registered u)"
    unfolding table_inv_def um_ok_def by blast+
  have "length (registered u) = card (set ?d \<union> set ?k)" using d(3) by (simp add: un distinct_card)
  also have "\<dots> = length ?d + length ?k" using d by (simp add: card_Un_disjoint distinct_card)
  finally have "length (registered u) = length ?d + length (pending (the_router u))" by simp
  moreover have "set ?k = set (timers (the_router u))" using inv by (simp add: table_inv_def)
  ultimately show ?thesis using d un by blast
qed

theorem requests_settled_once_witness:
  "\<exists>u :: nat router_run. reach router_start router_step u \<and> length (registered u) = 1
     \<and> length (registered u) = length (settled (effects u)) + length (pending (the_router u))"
proof -
  let ?u0 = "\<lparr>the_router = set_senders True True router_new, registered = [], effects = []\<rparr> :: nat router_run"
  have r0: "reach router_start router_step ?u0"
    by (rule reach_start) (auto simp: router_start_def)
  obtain i r es where s: "send_request_cb 1 False ''api'' JNull True 2500 2 7 (0 :: nat) 1 (the_router ?u0)
      = (Inr i, r, es)"
    by (cases "send_request_cb 1 False ''api'' JNull True 2500 2 7 (0 :: nat) 1 (the_router ?u0)")
       (auto simp: send_request_cb_def build_request_def split: prod.splits)
  let ?u1 = "\<lparr>the_router = r, registered = [i], effects = es\<rparr>"
  have "router_step ?u0 ?u1"
    using router_step.request_cb [OF s] by (simp add: set_senders_def)
  then have r1: "reach router_start router_step ?u1" using r0 by (rule reach_step [rotated])
  from requests_settled_once [OF r1] have "length (registered ?u1) = length (settled (effects ?u1)) + length (pending (the_router ?u1))"
    by blast
  with r1 show ?thesis by (intro exI [of _ ?u1]) simp
qed

text \<open>
  C18: A request cannot wait for ever. When its timer expires again and again without an
  answer, and the sender works, the request is retransmitted exactly once for every retry
  it has left, with the same content, and the next expiry settles it with the timeout
  error, takes it out of the table, counts it as failed and timed out and leaves no
  retransmission planned that was not planned before; the other requests are not touched.
  (The log line of a sent request reads its \<^verbatim>\<open>api\<close>, which has to be a string.)
\<close>

theorem request_times_out:
  assumes "um_find (pending r) i = Some p" "retries p \<le> max_retries p"
    and "if secure p then send_secure_json_set r else send_json_set r"
    and "value_string (request_json p) ''api'' [] = Inr api"
    and "n = nat (max_retries p - retries p)"
    and "timeouts (Suc n) i r = (r', es)"
  shows "es = replicate n (if secure p then SendSecureJson (request_json p) else SendJson (request_json p))
        @ [SetPromise i (timeout_json i)]
    \<and> (\<forall>k. um_find (pending r') k = (if k = i then None else um_find (pending r) k))
    \<and> i \<notin> set (timers r') \<and> retry_timers r' = retry_timers r
    \<and> metrics r' = (metrics r)\<lparr>sent := sent (metrics r) + of_nat n, retried := retried (metrics r) + of_nat n,
        timed_out := timed_out (metrics r) + 1, failed := failed (metrics r) + 1\<rparr>"
  by (rule timeouts_settle [OF assms])

theorem request_times_out_witness:
  "\<exists>r' es. timeouts 3 ''7_1'' ((set_senders True True router_new)\<lparr>pending := [(''7_1'',
      \<lparr>request_json = jobj [(''type'', JStr ''db_query''), (''api'', JStr ''login''), (''req_id'', JStr ''7_1'')],
       secure = True, retries = 0, max_retries = 2, timeout_ms = 2500,
       request_session = 7, on_ok = Some (0 :: nat), on_error = Some 1, use_callbacks = True\<rparr>)]\<rparr>) = (r', es)
     \<and> es = [SendSecureJson (jobj [(''type'', JStr ''db_query''), (''api'', JStr ''login''), (''req_id'', JStr ''7_1'')]),
             SendSecureJson (jobj [(''type'', JStr ''db_query''), (''api'', JStr ''login''), (''req_id'', JStr ''7_1'')]),
             SetPromise ''7_1'' (timeout_json ''7_1'')]
     \<and> retry_timers r' = [] \<and> um_find (pending r') ''7_1'' = None"
proof -
  let ?q = "jobj [(''type'', JStr ''db_query''), (''api'', JStr ''login''), (''req_id'', JStr ''7_1'')]"
  let ?p = "\<lparr>request_json = ?q, secure = True, retries = 0, max_retries = 2, timeout_ms = 2500,
       request_session = 7, on_ok = Some (0 :: nat), on_error = Some 1, use_callbacks = True\<rparr>"
  let ?r = "(set_senders True True router_new)\<lparr>pending := [(''7_1'', ?p)]\<rparr>"
  obtain r' es where e: "timeouts (Suc 2) ''7_1'' ?r = (r', es)" by fastforce
  have f: "um_find (pending ?r) ''7_1'' = Some ?p" by (simp add: um_find_def)
  have b: "retries ?p \<le> max_retries ?p" "2 = nat (max_retries ?p - retries ?p)" by simp_all
  have st: "if secure ?p then send_secure_json_set ?r else send_json_set ?r" by (simp add: set_senders_def)
  have v: "value_string (request_json ?p) ''api'' [] = Inr ''login''" by (simp add: jobj_def)
  from request_times_out [OF f b(1) st v b(2) e]
  have "es = replicate 2 (SendSecureJson ?q) @ [SetPromise ''7_1'' (timeout_json ''7_1'')]"
    "retry_timers r' = []" "um_find (pending r') ''7_1'' = None"
    by (simp_all add: set_senders_def router_new_def)
  with e show ?thesis by (simp add: numeral_eq_Suc del: timeouts.simps)
qed

text \<open>
  A request whose \<^verbatim>\<open>api\<close> is no string, which a payload with such a member makes, is
  sent again by every planned retransmission, and each of them plans the next one, for as
  long as the request waits: the type error of the log line is taken for a failure to send.
\<close>

theorem bad_api_sent_again:
  assumes "um_find (pending r) i = Some p" "secure p" "send_secure_json_set r"
    and "value_string (request_json p) ''api'' [] = Inl e" "i \<in> set (retry_timers r)"
    and "on_retry False i r = (r', es)"
  shows "es = [SendSecureJson (request_json p)] \<and> i \<in> set (retry_timers r') \<and> um_find (pending r') i = Some p"
  using assms by (auto simp: on_retry_def send_now_locked_def schedule_retry_def Let_def)

text \<open>
  The expiry of a request made with callbacks never calls one of them: whatever the
  state, \<open>on_timeout\<close> performs no \<open>Call\<close>, so the caller of \<open>send_request_cb\<close>, whose
  \<^verbatim>\<open>on_error\<close> expects the message \<^verbatim>\<open>timeout\<close>, is not told. An error answer does
  call it.
\<close>

theorem timeout_calls_nobody:
  "Call cb j \<notin> set (snd (on_timeout raises i r))"
  by (auto simp: on_timeout_def send_now_locked_def fulfill_and_erase_locked_def Let_def
      split: option.splits prod.splits if_splits sum.splits)

text \<open>
  C31: An answer goes to the request it names and to nobody else. For a request that waits
  with callbacks, a \<^verbatim>\<open>db_query_result\<close> settles it and calls its \<^verbatim>\<open>on_ok\<close> with the
  answer, an error answer settles it and calls its \<^verbatim>\<open>on_error\<close>; the request leaves the
  table and its timer is cancelled, the other requests keep waiting, and the one counter
  for the outcome moves. Every further answer to the same request, and any answer to an
  unknown one, has no effect at all.
\<close>

theorem response_matches_request:
  assumes "value_string j ''type'' [] = Inr ty" "ty \<in> set response_types"
    and "value_string j ''req_id'' [] = Inr i" "i \<noteq> []"
  shows "case um_find (pending r) i of
       None \<Rightarrow> handle_json j r = Inr (r, [])
     | Some p \<Rightarrow> \<exists>r'.
         handle_json j r = Inr (r', SetPromise i j #
           (if use_callbacks p
            then (case (if ty = ''db_query_result'' then on_ok p else on_error p) of Some cb \<Rightarrow> [Call cb j] | None \<Rightarrow> [])
            else []))
         \<and> (\<forall>k. um_find (pending r') k = (if k = i then None else um_find (pending r) k))
         \<and> set (timers r') = set (timers r) - {i}
         \<and> metrics r' = (if ty = ''db_query_result'' then (metrics r)\<lparr>ok_count := ok_count (metrics r) + 1\<rparr>
                        else (metrics r)\<lparr>failed := failed (metrics r) + 1\<rparr>)
         \<and> r' = r\<lparr>pending := pending r', timers := timers r', metrics := metrics r'\<rparr>
         \<and> (\<forall>j2 ty2. value_string j2 ''type'' [] = Inr ty2 \<longrightarrow> ty2 \<in> set response_types \<longrightarrow>
              value_string j2 ''req_id'' [] = Inr i \<longrightarrow> handle_json j2 r' = Inr (r', []))"
proof (cases "um_find (pending r) i")
  case None
  then show ?thesis using assms by (simp add: handle_json_def route_json_def on_response_def Let_def)
next
  case (Some p)
  let ?m = "if ty = ''db_query_result'' then (metrics r)\<lparr>ok_count := ok_count (metrics r) + 1\<rparr>
      else (metrics r)\<lparr>failed := failed (metrics r) + 1\<rparr>"
  let ?r = "r\<lparr>timers := removeAll i (timers r), pending := um_erase i (pending r), metrics := ?m\<rparr>"
  have "handle_json j r = Inr (?r, SetPromise i j #
      (if use_callbacks p
       then (case (if ty = ''db_query_result'' then on_ok p else on_error p) of Some cb \<Rightarrow> [Call cb j] | None \<Rightarrow> [])
       else []))"
    using assms Some by (simp add: handle_json_def route_json_def on_response_def fulfill_and_erase_locked_def Let_def)
  moreover have "handle_json j2 ?r = Inr (?r, [])"
    if "value_string j2 ''type'' [] = Inr ty2" "ty2 \<in> set response_types" "value_string j2 ''req_id'' [] = Inr i" for j2 ty2
    using that assms(4) by (simp add: handle_json_def route_json_def on_response_def um_find_erase Let_def)
  ultimately show ?thesis unfolding Some option.case
    by (intro exI [of _ ?r]) (auto simp: um_find_erase)
qed

text \<open>An error answer, and the same answer once more.\<close>

theorem response_matches_request_witness:
  "\<exists>r'. handle_json (jobj [(''type'', JStr ''db_error''), (''req_id'', JStr ''7_1''), (''msg'', JStr ''no'')])
     ((set_senders True True router_new)\<lparr>pending := [(''7_1'',
      \<lparr>request_json = JNull, secure = True, retries = 0, max_retries = 2, timeout_ms = 2500,
       request_session = 7, on_ok = Some (0 :: nat), on_error = Some 1, use_callbacks = True\<rparr>)]\<rparr>)
   = Inr (r', [SetPromise ''7_1'' (jobj [(''type'', JStr ''db_error''), (''req_id'', JStr ''7_1''), (''msg'', JStr ''no'')]),
       Call 1 (jobj [(''type'', JStr ''db_error''), (''req_id'', JStr ''7_1''), (''msg'', JStr ''no'')])])
   \<and> um_find (pending r') ''7_1'' = None
   \<and> handle_json (jobj [(''type'', JStr ''db_error''), (''req_id'', JStr ''7_1''), (''msg'', JStr ''no'')]) r' = Inr (r', [])"
proof -
  let ?j = "jobj [(''type'', JStr ''db_error''), (''req_id'', JStr ''7_1''), (''msg'', JStr ''no'')]"
  let ?p = "\<lparr>request_json = JNull, secure = True, retries = 0, max_retries = 2, timeout_ms = 2500,
       request_session = 7, on_ok = Some (0 :: nat), on_error = Some 1, use_callbacks = True\<rparr>"
  let ?r = "(set_senders True True router_new)\<lparr>pending := [(''7_1'', ?p)]\<rparr>"
  have v: "value_string ?j ''type'' [] = Inr ''db_error''" "''db_error'' \<in> set response_types"
    "value_string ?j ''req_id'' [] = Inr ''7_1''" "''7_1'' \<noteq> []"
    by (simp_all add: jobj_def response_types_def)
  have f: "um_find (pending ?r) ''7_1'' = Some ?p" by (simp add: um_find_def)
  from response_matches_request [OF v, of ?r, unfolded f] v
  show ?thesis by auto
qed

end
