(* ===== verification/Client.thy ===== *)
theory Client
  imports Router MessageBuffer
begin

text \<open>
  \<^verbatim>\<open>DBMiddlewareClient\<close>: the connection to the DB middleware, its reconnection with
  back-off, the login and the heartbeat, the queue of outgoing frames and the timers of
  the requests. Every operation is one job of the client's strand. An outstanding
  asynchronous operation is recorded in the state, and its completion is an operation of
  its own that takes the error code. The results are the order of the frames on the wire,
  the bounds of the back-off, and what happens to the queue after a failed write.
\<close>

section \<open>Definitions\<close>

text \<open>
  \<open>resolving\<close>, \<open>connecting\<close> and \<open>reading\<close> count outstanding operations, \<open>writing\<close> holds
  the data of outstanding writes, \<open>reconnect_wait\<close> the delay of a pending reconnect timer
  in seconds. \<open>timer_waits\<close> are the request timers that run, with whether they belong to
  \<open>send_json\<close>, which reports an alert; \<open>request_timers\<close> are the keys of the map of the same
  name. \<open>client_out\<close> is the sequence of frames handed to the socket and \<open>client_alerts\<close>
  the alerts.
\<close>

record db_client =
  host :: string
  port :: nat
  server_login_nickname :: string
  secret :: string
  sock_open :: bool
  connected :: bool
  stopping :: bool
  server_login_sent :: bool
  authed :: bool
  missed_heartbeat :: int
  client_buf :: msg_buffer
  client_queue :: "string list"
  client_writing :: bool
  reconnect_sec :: int
  heartbeat_sec :: int
  timeout_count :: int
  request_timers :: "string list"
  timer_waits :: "(string \<times> bool) list"
  request_counter :: "64 word"
  resolving :: nat
  connecting :: nat
  reading :: nat
  writing :: "string list"
  reconnect_wait :: "int option"
  heartbeat_wait :: bool
  client_out :: "string list"
  client_alerts :: "string list"

definition heartbeat_miss_limit :: int where
  "heartbeat_miss_limit = 3"

definition reconnect_sec_max :: int where
  "reconnect_sec_max = 30"

definition client_new :: "string \<Rightarrow> nat \<Rightarrow> string \<Rightarrow> string \<Rightarrow> db_client" where
  "client_new h p nick sec =
     \<lparr>host = h, port = p, server_login_nickname = nick, secret = sec, sock_open = False,
      connected = False, stopping = False, server_login_sent = False, authed = False,
      missed_heartbeat = 0, client_buf = empty_buffer, client_queue = [], client_writing = False,
      reconnect_sec = 2, heartbeat_sec = 20, timeout_count = 0, request_timers = [], timer_waits = [],
      request_counter = 0, resolving = 0, connecting = 0, reading = 0, writing = [],
      reconnect_wait = None, heartbeat_wait = False, client_out = [], client_alerts = []\<rparr>"

definition set_heartbeat_interval :: "int \<Rightarrow> db_client \<Rightarrow> db_client" where
  "set_heartbeat_interval secs d = d\<lparr>heartbeat_sec := secs\<rparr>"

definition note_heartbeat_ack :: "db_client \<Rightarrow> db_client" where
  "note_heartbeat_ack d = d\<lparr>missed_heartbeat := 0\<rparr>"

definition mark_authed :: "bool \<Rightarrow> db_client \<Rightarrow> db_client" where
  "mark_authed v d = d\<lparr>authed := v\<rparr>"

definition on_request_timeout :: "db_client \<Rightarrow> db_client" where
  "on_request_timeout d = d\<lparr>timeout_count := timeout_count d + 1\<rparr>"

subsection \<open>Connecting\<close>

definition close_socket :: "db_client \<Rightarrow> db_client" where
  "close_socket d = d\<lparr>sock_open := False, connected := False\<rparr>"

definition do_connect :: "app_context \<Rightarrow> db_client \<Rightarrow> db_client" where
  "do_connect c d =
     (if stopping d then d
      else if int (port d) = config_value c ''tcp_port'' 12345 then d
      else d\<lparr>resolving := resolving d + 1\<rparr>)"

definition client_start :: "app_context \<Rightarrow> db_client \<Rightarrow> db_client" where
  "client_start c d = do_connect c (d\<lparr>stopping := False\<rparr>)"

definition client_stop :: "db_client \<Rightarrow> db_client" where
  "client_stop d = (close_socket (d\<lparr>stopping := True\<rparr>))\<lparr>reconnect_wait := None, heartbeat_wait := False\<rparr>"

definition schedule_reconnect :: "db_client \<Rightarrow> db_client" where
  "schedule_reconnect d0 =
     (let d = d0\<lparr>connected := False\<rparr> in
      if stopping d then d
      else let s = min (reconnect_sec d * 2) reconnect_sec_max in
           d\<lparr>reconnect_sec := s, reconnect_wait := Some s\<rparr>)"

definition on_reconnect_timer :: "app_context \<Rightarrow> db_client \<Rightarrow> db_client" where
  "on_reconnect_timer c d0 =
     (let d = d0\<lparr>reconnect_wait := None\<rparr> in if stopping d then d else do_connect c d)"

definition on_resolve :: "bool \<Rightarrow> db_client \<Rightarrow> db_client" where
  "on_resolve ec d0 =
     (let d = d0\<lparr>resolving := resolving d0 - 1\<rparr> in
      if ec then schedule_reconnect d else d\<lparr>connecting := connecting d + 1\<rparr>)"

subsection \<open>Sending\<close>

definition flush_write_queue :: "db_client \<Rightarrow> db_client" where
  "flush_write_queue d =
     (case client_queue d of
        [] \<Rightarrow> d\<lparr>client_writing := False\<rparr>
      | data # _ \<Rightarrow> d\<lparr>writing := writing d @ [data], client_out := client_out d @ [data]\<rparr>)"

definition on_write_done :: "bool \<Rightarrow> string \<Rightarrow> db_client \<Rightarrow> db_client" where
  "on_write_done ec data d0 =
     (let d = d0\<lparr>writing := remove1 data (writing d0)\<rparr> in
      if ec then schedule_reconnect (close_socket d)
      else flush_write_queue (d\<lparr>client_queue := tl (client_queue d)\<rparr>))"

definition send_framed :: "string \<Rightarrow> db_client \<Rightarrow> db_client" where
  "send_framed body d =
     (if \<not> connected d then d
      else let idle = (client_queue d = []);
               d1 = d\<lparr>client_queue := client_queue d @ [frame_message body]\<rparr>
           in if idle \<and> \<not> client_writing d
              then flush_write_queue (d1\<lparr>client_writing := True\<rparr>) else d1)"

definition generate_request_id :: "db_client \<Rightarrow> string \<times> db_client" where
  "generate_request_id d =
     (let n = request_counter d + 1 in (''req_'' @ nat_str (unat n), d\<lparr>request_counter := n\<rparr>))"

text \<open>The request id of a message: its own, or a new one that is added to it.\<close>

definition ensure_request_id :: "json \<Rightarrow> db_client \<Rightarrow> (exn + string \<times> json) \<times> db_client" where
  "ensure_request_id j d =
     (if json_contains j ''request_id''
      then (case j of
              JObj ms \<Rightarrow> (case map_of ms ''request_id'' of
                  Some v \<Rightarrow> (case get_string v of Inl e \<Rightarrow> (Inl e, d) | Inr i \<Rightarrow> (Inr (i, j), d))
                | None \<Rightarrow> (Inl Type_error, d))
            | _ \<Rightarrow> (Inl Type_error, d))
      else let (i, d') = generate_request_id d in
           case json_set ''request_id'' (JStr i) j of
             Inl e \<Rightarrow> (Inl e, d')
           | Inr j' \<Rightarrow> (Inr (i, j'), d'))"

definition arm_request_timer :: "string \<Rightarrow> bool \<Rightarrow> db_client \<Rightarrow> db_client" where
  "arm_request_timer i alerting d =
     d\<lparr>request_timers := List.insert i (request_timers d), timer_waits := timer_waits d @ [(i, alerting)]\<rparr>"

definition client_alert :: "string \<Rightarrow> db_client \<Rightarrow> db_client" where
  "client_alert msg d = d\<lparr>client_alerts := client_alerts d @ [msg]\<rparr>"

text \<open>
  \<open>send_json\<close> catches everything; \<open>send_framed\<close> itself raises nothing here. What is left
  of the handlers is the one for \<^verbatim>\<open>std::exception\<close>.
\<close>

definition send_json :: "app_context \<Rightarrow> json \<Rightarrow> db_client \<Rightarrow> db_client" where
  "send_json c j d =
     (case ensure_request_id j d of
        (Inl e, d') \<Rightarrow>
          schedule_reconnect (close_socket (client_alert ''[ALERT][DBMW][send_json] Unexpected exception: '' d'))
      | (Inr (i, j'), d') \<Rightarrow> arm_request_timer i True (send_framed (json_dump c j') d'))"

definition send_secure_json :: "app_context \<Rightarrow> json \<Rightarrow> db_client \<Rightarrow> exn option \<times> db_client" where
  "send_secure_json c j d =
     (case ensure_request_id j d of
        (Inl e, d') \<Rightarrow> (Some e, d')
      | (Inr (i, j'), d') \<Rightarrow> (None, arm_request_timer i False (send_framed (secret d' @ json_dump c j') d')))"

text \<open>A request timer expires (\<open>ec = False\<close>) or is cancelled.\<close>

definition on_request_timer :: "bool \<Rightarrow> string \<Rightarrow> bool \<Rightarrow> db_client \<Rightarrow> db_client" where
  "on_request_timer ec i alerting d0 =
     (let d = d0\<lparr>timer_waits := remove1 (i, alerting) (timer_waits d0)\<rparr>;
          d1 = (if ec then d
                else let t = d\<lparr>timeout_count := timeout_count d + 1\<rparr> in
                     if alerting
                     then client_alert (''[ALERT][DBMW] Request timeout detected (id='' @ i @ '')'') t else t)
      in d1\<lparr>request_timers := removeAll i (request_timers d1)\<rparr>)"

definition send_proto :: "string \<Rightarrow> db_client \<Rightarrow> db_client" where
  "send_proto body d = send_framed body d"

definition send_secure_proto :: "string \<Rightarrow> db_client \<Rightarrow> db_client" where
  "send_secure_proto plain d = send_framed (secret d @ plain) d"

subsection \<open>Login and heartbeat\<close>

definition login_message :: "db_client \<Rightarrow> json" where
  "login_message d = jobj [(''type'', JStr ''serverlogin''), (''nickname'', JStr (server_login_nickname d))]"

definition server_send_login :: "app_context \<Rightarrow> db_client \<Rightarrow> db_client" where
  "server_send_login c d =
     (if server_login_sent d then d
      else snd (send_secure_json c (login_message d) (d\<lparr>server_login_sent := True\<rparr>)))"

definition arm_heartbeat_timer :: "db_client \<Rightarrow> db_client" where
  "arm_heartbeat_timer d = d\<lparr>heartbeat_wait := True\<rparr>"

definition heartbeat_message :: "db_client \<Rightarrow> json" where
  "heartbeat_message d = jobj [(''type'', JStr ''keepalive''), (''nickname'', JStr (server_login_nickname d))]"

definition on_heartbeat_timer :: "app_context \<Rightarrow> db_client \<Rightarrow> db_client" where
  "on_heartbeat_timer c d0 =
     (let d = d0\<lparr>heartbeat_wait := False\<rparr> in
      if stopping d then d
      else if connected d \<and> authed d
      then let d1 = snd (send_secure_json c (heartbeat_message d) d);
               misses = missed_heartbeat d1 + 1;
               d2 = d1\<lparr>missed_heartbeat := misses\<rparr>
           in if heartbeat_miss_limit \<le> misses then schedule_reconnect (close_socket d2)
              else arm_heartbeat_timer d2
      else arm_heartbeat_timer d)"

subsection \<open>Receiving\<close>

definition do_read_some :: "db_client \<Rightarrow> db_client" where
  "do_read_some d = (if connected d then d\<lparr>reading := reading d + 1\<rparr> else d)"

definition on_connect :: "app_context \<Rightarrow> bool \<Rightarrow> db_client \<Rightarrow> db_client" where
  "on_connect c ec d0 =
     (let d = d0\<lparr>connecting := connecting d0 - 1\<rparr> in
      if ec then schedule_reconnect d
      else arm_heartbeat_timer (do_read_some (server_send_login c
             (d\<lparr>sock_open := True, connected := True, reconnect_sec := 2,
                server_login_sent := False, authed := False\<rparr>))))"

text \<open>
  What one extracted message is: the secret is stripped when it is a prefix, the rest is
  tried as a Protobuf message, and when that fails the whole message, with the secret, is
  parsed as JSON. \<open>parse_pb\<close> is the parser of the generated code.
\<close>

datatype client_msg = PbMsg envelope | JsonMsg json | BadMsg exn

definition strip_secret :: "string \<Rightarrow> string \<Rightarrow> string" where
  "strip_secret sec raw =
     (if length sec \<le> length raw \<and> take (length sec) raw = sec then drop (length sec) raw else raw)"

definition decode_message :: "app_context \<Rightarrow> (string \<Rightarrow> envelope option) \<Rightarrow> string \<Rightarrow> string \<Rightarrow> client_msg" where
  "decode_message c parse_pb sec raw =
     (case parse_pb (strip_secret sec raw) of
        Some env \<Rightarrow> PbMsg env
      | None \<Rightarrow> (case json_parse c raw of Inr j \<Rightarrow> JsonMsg j | Inl e \<Rightarrow> BadMsg e))"

text \<open>
  The completion of a read: the messages for the router, and whether the connection is
  given up after them. The router is called for each message in turn; it never touches the
  receive buffer.
\<close>

definition on_read_data :: "string \<Rightarrow> db_client \<Rightarrow> string list \<times> db_client" where
  "on_read_data data d0 =
     (let d = d0\<lparr>reading := reading d0 - 1\<rparr>;
          (msgs, b) = extract_all (mbm_append data (client_buf d))
      in (msgs, d\<lparr>client_buf := b\<rparr>))"

definition after_messages :: "db_client \<Rightarrow> db_client" where
  "after_messages d =
     (if last_clear_by_invalid_length (client_buf d) then schedule_reconnect (close_socket d)
      else do_read_some d)"

definition on_read_error :: "db_client \<Rightarrow> db_client" where
  "on_read_error d = schedule_reconnect (close_socket (d\<lparr>reading := reading d - 1\<rparr>))"

section \<open>Runs of the client\<close>

text \<open>
  The client with the frames it accepted for sending so far. Anything may be sent or
  acknowledged at any time; a completion needs its operation.
\<close>

record client_run =
  the_client :: db_client
  accepted :: "string list"

text \<open>The frames an operation adds to the queue, read off the queue it leaves.\<close>

inductive client_step :: "app_context \<Rightarrow> client_run \<Rightarrow> client_run \<Rightarrow> bool" for c where
  send: "d' = send_framed body (the_client u) \<Longrightarrow>
    a = (if connected (the_client u) then [frame_message body] else []) \<Longrightarrow>
    client_step c u \<lparr>the_client = d', accepted = accepted u @ a\<rparr>"
| send_plain: "d' = send_json c j (the_client u) \<Longrightarrow>
    client_step c u \<lparr>the_client = d', accepted = accepted u @ drop (length (client_queue (the_client u))) (client_queue d')\<rparr>"
| send_secure: "d' = snd (send_secure_json c j (the_client u)) \<Longrightarrow>
    client_step c u \<lparr>the_client = d', accepted = accepted u @ drop (length (client_queue (the_client u))) (client_queue d')\<rparr>"
| write_done: "data \<in> set (writing (the_client u)) \<Longrightarrow>
    client_step c u (u\<lparr>the_client := on_write_done ec data (the_client u)\<rparr>)"
| resolve: "0 < resolving (the_client u) \<Longrightarrow> client_step c u (u\<lparr>the_client := on_resolve ec (the_client u)\<rparr>)"
| connect_failed: "0 < connecting (the_client u) \<Longrightarrow> client_step c u (u\<lparr>the_client := on_connect c True (the_client u)\<rparr>)"
| connect_ok: "0 < connecting (the_client u) \<Longrightarrow> d' = on_connect c False (the_client u) \<Longrightarrow>
    client_step c u \<lparr>the_client = d', accepted = accepted u @ drop (length (client_queue (the_client u))) (client_queue d')\<rparr>"
| reconnect: "reconnect_wait (the_client u) \<noteq> None \<Longrightarrow>
    client_step c u (u\<lparr>the_client := on_reconnect_timer c (the_client u)\<rparr>)"
| heartbeat: "heartbeat_wait (the_client u) \<Longrightarrow> d' = on_heartbeat_timer c (the_client u) \<Longrightarrow>
    client_step c u \<lparr>the_client = d', accepted = accepted u @ drop (length (client_queue (the_client u))) (client_queue d')\<rparr>"
| request_timer: "(i, al) \<in> set (timer_waits (the_client u)) \<Longrightarrow>
    client_step c u (u\<lparr>the_client := on_request_timer ec i al (the_client u)\<rparr>)"
| read_error: "0 < reading (the_client u) \<Longrightarrow> client_step c u (u\<lparr>the_client := on_read_error (the_client u)\<rparr>)"
| read_data: "0 < reading (the_client u) \<Longrightarrow> on_read_data data (the_client u) = (msgs, d') \<Longrightarrow>
    client_step c u (u\<lparr>the_client := after_messages d'\<rparr>)"
| heartbeat_ack: "client_step c u (u\<lparr>the_client := note_heartbeat_ack (the_client u)\<rparr>)"
| auth: "client_step c u (u\<lparr>the_client := mark_authed v (the_client u)\<rparr>)"
| start: "client_step c u (u\<lparr>the_client := client_start c (the_client u)\<rparr>)"
| stop: "client_step c u (u\<lparr>the_client := client_stop (the_client u)\<rparr>)"

definition client_begin :: "client_run \<Rightarrow> bool" where
  "client_begin u \<longleftrightarrow> (\<exists>h p nick sec. the_client u = client_new h p nick sec) \<and> accepted u = []"

text \<open>
  The writer: what was accepted is what went out, except that the frames after the front of
  the queue have not gone out yet; at most the front is being written.
\<close>

definition writer_ok :: "db_client \<Rightarrow> string list \<Rightarrow> bool" where
  "writer_ok d acc \<longleftrightarrow> client_writing d = (client_queue d \<noteq> [])
     \<and> acc = client_out d @ tl (client_queue d)
     \<and> (client_queue d = [] \<or> client_out d \<noteq> [] \<and> last (client_out d) = hd (client_queue d))
     \<and> (writing d = [] \<or> writing d = take 1 (client_queue d))"

definition client_inv :: "client_run \<Rightarrow> bool" where
  "client_inv u \<longleftrightarrow> writer_ok (the_client u) (accepted u)
     \<and> 2 \<le> reconnect_sec (the_client u) \<and> reconnect_sec (the_client u) \<le> reconnect_sec_max
     \<and> (\<forall>s. reconnect_wait (the_client u) = Some s \<longrightarrow> 4 \<le> s \<and> s \<le> reconnect_sec_max)"

text \<open>
  What a failure does to the connection: it is down, the delay has doubled up to 30 seconds,
  and the timer of the next attempt runs with that delay.
\<close>

definition backs_off :: "db_client \<Rightarrow> db_client \<Rightarrow> bool" where
  "backs_off d d' \<longleftrightarrow> \<not> connected d'
     \<and> reconnect_sec d' = min (2 * reconnect_sec d) 30
     \<and> reconnect_wait d' = Some (min (2 * reconnect_sec d) 30)"

text \<open>A queue that is not empty while nothing is being written.\<close>

definition stalled :: "db_client \<Rightarrow> bool" where
  "stalled d \<longleftrightarrow> client_queue d \<noteq> [] \<and> writing d = []"

section \<open>Lemmas\<close>

text \<open>The part of the state the writer works on, and the operations that leave it alone.\<close>

definition writer_part :: "db_client \<Rightarrow> string list \<times> bool \<times> string list \<times> string list" where
  "writer_part d = (client_queue d, client_writing d, writing d, client_out d)"

named_theorems client_frames \<open>operations that do not touch the writer\<close>

lemma writer_part_basic [client_frames]:
  "writer_part (close_socket d) = writer_part d"
  "writer_part (schedule_reconnect d) = writer_part d"
  "writer_part (do_connect c d) = writer_part d"
  "writer_part (note_heartbeat_ack d) = writer_part d"
  "writer_part (mark_authed v d) = writer_part d"
  "writer_part (arm_request_timer i al d) = writer_part d"
  "writer_part (client_alert msg d) = writer_part d"
  "writer_part (arm_heartbeat_timer d) = writer_part d"
  "writer_part (do_read_some d) = writer_part d"
  "writer_part (on_request_timer ec i al d) = writer_part d"
  by (simp_all add: writer_part_def close_socket_def schedule_reconnect_def do_connect_def note_heartbeat_ack_def
      mark_authed_def arm_request_timer_def client_alert_def arm_heartbeat_timer_def do_read_some_def
      on_request_timer_def Let_def)

lemma writer_part_field [client_frames]:
  "writer_part (d\<lparr>stopping := b\<rparr>) = writer_part d" "writer_part (d\<lparr>connected := b\<rparr>) = writer_part d"
  "writer_part (d\<lparr>sock_open := b\<rparr>) = writer_part d" "writer_part (d\<lparr>resolving := n\<rparr>) = writer_part d"
  "writer_part (d\<lparr>connecting := n\<rparr>) = writer_part d" "writer_part (d\<lparr>reading := n\<rparr>) = writer_part d"
  "writer_part (d\<lparr>reconnect_wait := w\<rparr>) = writer_part d" "writer_part (d\<lparr>heartbeat_wait := b\<rparr>) = writer_part d"
  "writer_part (d\<lparr>client_buf := mb\<rparr>) = writer_part d" "writer_part (d\<lparr>missed_heartbeat := i\<rparr>) = writer_part d"
  "writer_part (d\<lparr>server_login_sent := b\<rparr>) = writer_part d" "writer_part (d\<lparr>authed := b\<rparr>) = writer_part d"
  "writer_part (d\<lparr>reconnect_sec := i\<rparr>) = writer_part d" "writer_part (d\<lparr>request_counter := w'\<rparr>) = writer_part d"
  by (simp_all add: writer_part_def)

lemma writer_part_steps [client_frames]:
  "writer_part (on_resolve ec d) = writer_part d"
  "writer_part (on_reconnect_timer c d) = writer_part d"
  "writer_part (on_read_error d) = writer_part d"
  "writer_part (after_messages d) = writer_part d"
  "writer_part (client_start c d) = writer_part d"
  "writer_part (client_stop d) = writer_part d"
  "writer_part (on_connect c True d) = writer_part d"
  by (simp_all add: on_resolve_def on_reconnect_timer_def on_read_error_def after_messages_def client_start_def
      client_stop_def on_connect_def client_frames Let_def)

lemma writer_part_read_data: "on_read_data data d = (msgs, d') \<Longrightarrow> writer_part d' = writer_part d"
  by (auto simp: on_read_data_def client_frames Let_def split: prod.splits)

lemma writer_ok_part: "writer_part d' = writer_part d \<Longrightarrow> writer_ok d' acc = writer_ok d acc"
  by (simp add: writer_ok_def writer_part_def)

lemma queue_part: "writer_part d' = writer_part d \<Longrightarrow> client_queue d' = client_queue d"
  by (simp add: writer_part_def)

lemma stalled_part: "writer_part d' = writer_part d \<Longrightarrow> stalled d' = stalled d \<and> client_out d' = client_out d"
  by (simp add: writer_part_def stalled_def)

text \<open>Sending, seen from the writer: one frame is appended, or nothing happens.\<close>

lemma send_framed_queue: "client_queue (send_framed body d) = client_queue d @ (if connected d then [frame_message body] else [])"
  by (auto simp: send_framed_def flush_write_queue_def Let_def split: list.split)

lemma send_framed_writer:
  "writer_ok d acc \<Longrightarrow> writer_ok (send_framed body d) (acc @ (if connected d then [frame_message body] else []))"
  by (cases "client_queue d") (auto simp: send_framed_def flush_write_queue_def writer_ok_def Let_def)

lemma send_framed_stalled: "stalled d \<Longrightarrow> stalled (send_framed body d) \<and> client_out (send_framed body d) = client_out d"
  by (simp add: stalled_def send_framed_def Let_def)

lemma ensure_request_id_frame:
  "ensure_request_id j d = (x, d') \<Longrightarrow> writer_part d' = writer_part d \<and> reconnect_sec d' = reconnect_sec d
     \<and> reconnect_wait d' = reconnect_wait d \<and> missed_heartbeat d' = missed_heartbeat d
     \<and> connected d' = connected d \<and> stopping d' = stopping d"
  by (auto simp: ensure_request_id_def generate_request_id_def writer_part_def Let_def
      split: json.splits option.splits sum.splits if_splits)

text \<open>
  Every operation that may send does so through at most one \<open>send_framed\<close> between
  operations that leave the writer alone.
\<close>

definition sends_once :: "db_client \<Rightarrow> db_client \<Rightarrow> bool" where
  "sends_once d d' \<longleftrightarrow> writer_part d' = writer_part d
     \<or> (\<exists>d1 body. writer_part d1 = writer_part d \<and> writer_part d' = writer_part (send_framed body d1))"

lemma sends_once_none: "writer_part d' = writer_part d \<Longrightarrow> sends_once d d'"
  by (simp add: sends_once_def)

lemma sends_once_one:
  "writer_part d1 = writer_part d \<Longrightarrow> writer_part d' = writer_part (send_framed body d1) \<Longrightarrow> sends_once d d'"
  unfolding sends_once_def by blast

lemma sends_once_send_json: "sends_once d (send_json c j d)"
proof (cases "ensure_request_id j d")
  case (Pair x d')
  note f = ensure_request_id_frame [OF this]
  show ?thesis
  proof (cases x)
    case Inl
    then show ?thesis using Pair f by (intro sends_once_none) (simp add: send_json_def client_frames)
  next
    case (Inr y)
    then have "writer_part (send_json c j d) = writer_part (send_framed (json_dump c (snd y)) d')"
      using Pair by (cases y) (simp add: send_json_def client_frames)
    then show ?thesis using f by (intro sends_once_one [of d']) simp_all
  qed
qed

lemma sends_once_send_secure: "sends_once d (snd (send_secure_json c j d))"
proof (cases "ensure_request_id j d")
  case (Pair x d')
  note f = ensure_request_id_frame [OF this]
  show ?thesis
  proof (cases x)
    case Inl
    then show ?thesis using Pair f by (intro sends_once_none) (simp add: send_secure_json_def)
  next
    case (Inr y)
    then have "writer_part (snd (send_secure_json c j d))
        = writer_part (send_framed (secret d' @ json_dump c (snd y)) d')"
      using Pair by (cases y) (simp add: send_secure_json_def client_frames)
    then show ?thesis using f by (intro sends_once_one [of d']) simp_all
  qed
qed

lemma sends_once_mono:
  "sends_once d1 d2 \<Longrightarrow> writer_part d1 = writer_part d \<Longrightarrow> writer_part d' = writer_part d2 \<Longrightarrow> sends_once d d'"
  by (auto simp: sends_once_def)

lemma sends_once_connect: "sends_once d (on_connect c False d)"
proof -
  let ?d1 = "d\<lparr>connecting := connecting d - 1, sock_open := True, connected := True, reconnect_sec := 2,
                server_login_sent := False, authed := False\<rparr>"
  have "on_connect c False d = arm_heartbeat_timer (do_read_some
      (snd (send_secure_json c (login_message ?d1) (?d1\<lparr>server_login_sent := True\<rparr>))))"
    by (simp add: on_connect_def server_send_login_def Let_def)
  then show ?thesis
    by (intro sends_once_mono [OF sends_once_send_secure]) (simp_all add: client_frames)
qed

lemma sends_once_heartbeat: "sends_once d (on_heartbeat_timer c d)"
proof -
  let ?d = "d\<lparr>heartbeat_wait := False\<rparr>"
  have "writer_part (on_heartbeat_timer c d) = writer_part d
      \<or> writer_part (on_heartbeat_timer c d) = writer_part (snd (send_secure_json c (heartbeat_message ?d) ?d))"
    by (simp add: on_heartbeat_timer_def client_frames Let_def)
  then show ?thesis
  proof
    assume "writer_part (on_heartbeat_timer c d) = writer_part d"
    then show ?thesis by (rule sends_once_none)
  next
    assume "writer_part (on_heartbeat_timer c d) = writer_part (snd (send_secure_json c (heartbeat_message ?d) ?d))"
    then show ?thesis by (rule sends_once_mono [OF sends_once_send_secure writer_part_field(8)])
  qed
qed

lemma sends_once_writer:
  assumes "sends_once d d'" "writer_ok d acc"
  shows "writer_ok d' (acc @ drop (length (client_queue d)) (client_queue d'))"
  using assms(1) unfolding sends_once_def
proof
  assume p: "writer_part d' = writer_part d"
  then show ?thesis using assms(2) queue_part [OF p] writer_ok_part [OF p] by simp
next
  assume "\<exists>d1 body. writer_part d1 = writer_part d \<and> writer_part d' = writer_part (send_framed body d1)"
  then obtain d1 body where p: "writer_part d1 = writer_part d" "writer_part d' = writer_part (send_framed body d1)"
    by blast
  have "writer_ok d1 acc" using assms(2) writer_ok_part [OF p(1)] by simp
  from send_framed_writer [OF this, of body] show ?thesis
    using queue_part [OF p(1)] queue_part [OF p(2)] writer_ok_part [OF p(2)] by (simp add: send_framed_queue)
qed

lemma sends_once_stalled:
  "sends_once d d' \<Longrightarrow> stalled d \<Longrightarrow> stalled d' \<and> client_out d' = client_out d"
  unfolding sends_once_def by (metis send_framed_stalled stalled_part)

lemma on_write_done_writer:
  assumes "writer_ok d acc" "data \<in> set (writing d)"
  shows "writer_ok (on_write_done ec data d) acc"
proof -
  obtain q where q: "client_queue d = data # q" "writing d = [data]"
    using assms by (cases "client_queue d") (auto simp: writer_ok_def)
  then show ?thesis using assms(1)
    by (cases q) (auto simp: on_write_done_def flush_write_queue_def writer_ok_def close_socket_def
        schedule_reconnect_def Let_def)
qed

subsection \<open>Back-off\<close>

definition backoff_ok :: "db_client \<Rightarrow> bool" where
  "backoff_ok d \<longleftrightarrow> 2 \<le> reconnect_sec d \<and> reconnect_sec d \<le> reconnect_sec_max
     \<and> (\<forall>s. reconnect_wait d = Some s \<longrightarrow> 4 \<le> s \<and> s \<le> reconnect_sec_max)"

lemma backoff_schedule [intro]: "backoff_ok d \<Longrightarrow> backoff_ok (schedule_reconnect d)"
  by (auto simp: backoff_ok_def schedule_reconnect_def reconnect_sec_max_def Let_def)

lemma backoff_eq:
  "reconnect_sec d' = reconnect_sec d \<Longrightarrow> reconnect_wait d' = reconnect_wait d \<or> reconnect_wait d' = None \<Longrightarrow>
     backoff_ok d \<Longrightarrow> backoff_ok d'"
  by (auto simp: backoff_ok_def)

lemma backoff_fields [simp]:
  "reconnect_sec (send_framed body d) = reconnect_sec d" "reconnect_wait (send_framed body d) = reconnect_wait d"
  "reconnect_sec (flush_write_queue d) = reconnect_sec d" "reconnect_wait (flush_write_queue d) = reconnect_wait d"
  "reconnect_sec (close_socket d) = reconnect_sec d" "reconnect_wait (close_socket d) = reconnect_wait d"
  "reconnect_sec (do_connect c d) = reconnect_sec d" "reconnect_wait (do_connect c d) = reconnect_wait d"
  "reconnect_sec (do_read_some d) = reconnect_sec d" "reconnect_wait (do_read_some d) = reconnect_wait d"
  "reconnect_sec (arm_heartbeat_timer d) = reconnect_sec d" "reconnect_wait (arm_heartbeat_timer d) = reconnect_wait d"
  "reconnect_sec (arm_request_timer i al d) = reconnect_sec d" "reconnect_wait (arm_request_timer i al d) = reconnect_wait d"
  "reconnect_sec (client_alert m d) = reconnect_sec d" "reconnect_wait (client_alert m d) = reconnect_wait d"
  by (simp_all add: send_framed_def flush_write_queue_def close_socket_def do_connect_def do_read_some_def
      arm_heartbeat_timer_def arm_request_timer_def client_alert_def Let_def split: list.split)

lemma backoff_send_secure [simp]:
  "reconnect_sec (snd (send_secure_json c j d)) = reconnect_sec d"
  "reconnect_wait (snd (send_secure_json c j d)) = reconnect_wait d"
  by (auto simp: send_secure_json_def split: prod.splits sum.splits dest: ensure_request_id_frame)

lemma backoff_send_json: "backoff_ok d \<Longrightarrow> backoff_ok (send_json c j d)"
  by (auto simp: send_json_def split: prod.splits sum.splits dest!: ensure_request_id_frame
      intro!: backoff_schedule intro: backoff_eq)

lemma backoff_heartbeat: "backoff_ok d \<Longrightarrow> backoff_ok (on_heartbeat_timer c d)"
  by (auto simp: on_heartbeat_timer_def Let_def intro!: backoff_schedule intro: backoff_eq)

lemma backoff_connect: "backoff_ok d \<Longrightarrow> backoff_ok (on_connect c ec d)"
  by (auto simp: on_connect_def server_send_login_def backoff_ok_def reconnect_sec_max_def schedule_reconnect_def Let_def)

lemma backoff_steps:
  assumes "backoff_ok d"
  shows "backoff_ok (on_write_done ec data d)" "backoff_ok (on_resolve ec d)" "backoff_ok (on_reconnect_timer c d)"
    "backoff_ok (on_request_timer ec i al d)" "backoff_ok (on_read_error d)" "backoff_ok (after_messages d)"
    "backoff_ok (note_heartbeat_ack d)" "backoff_ok (mark_authed v d)" "backoff_ok (client_start c d)"
    "backoff_ok (client_stop d)" "backoff_ok (send_framed body d)"
  using assms
  by (auto simp: on_write_done_def on_resolve_def on_reconnect_timer_def on_request_timer_def on_read_error_def
      after_messages_def note_heartbeat_ack_def mark_authed_def client_start_def client_stop_def Let_def
      intro!: backoff_schedule intro: backoff_eq)

subsection \<open>The invariant\<close>

lemma client_inv_start: "client_begin u \<Longrightarrow> client_inv u"
  by (auto simp: client_begin_def client_inv_def client_new_def writer_ok_def reconnect_sec_max_def)

lemma client_inv_alt: "client_inv u \<longleftrightarrow> writer_ok (the_client u) (accepted u) \<and> backoff_ok (the_client u)"
  by (auto simp: client_inv_def backoff_ok_def)

lemma client_inv_step:
  assumes "client_inv u" "client_step c u u'"
  shows "client_inv u'"
proof -
  let ?d = "the_client u"
  have w: "writer_ok ?d (accepted u)" and b: "backoff_ok ?d" using assms(1) by (simp_all add: client_inv_alt)
  have same: "writer_ok d' (accepted u)" if "writer_part d' = writer_part ?d" for d'
    using w writer_ok_part [OF that] by simp
  from assms(2) show ?thesis
  proof (cases rule: client_step.cases)
    case (read_data data msgs d')
    have "backoff_ok d'"
      by (rule backoff_eq [OF _ _ b]) (use read_data(3) in \<open>auto simp: on_read_data_def Let_def split: prod.splits\<close>)
    moreover have "writer_part (after_messages d') = writer_part ?d"
      using writer_part_read_data [OF read_data(3)] by (simp add: client_frames)
    ultimately show ?thesis using read_data(1) same by (simp add: client_inv_alt backoff_steps)
  qed (simp_all add: client_inv_alt b w same client_frames backoff_steps backoff_send_json backoff_heartbeat backoff_connect
      send_framed_writer on_write_done_writer sends_once_writer [OF sends_once_send_json]
      sends_once_writer [OF sends_once_connect] sends_once_writer [OF sends_once_heartbeat]
      sends_once_writer [OF sends_once_send_secure] backoff_eq [OF _ _ b])
qed

interpretation client_sys: transition_system client_begin "client_step c" client_inv
  by unfold_locales (auto intro: client_inv_start client_inv_step)

lemma stalled_step:
  assumes "stalled (the_client u)" "client_step c u u'"
  shows "stalled (the_client u') \<and> client_out (the_client u') = client_out (the_client u)"
  using assms(2)
proof (cases rule: client_step.cases)
  case (read_data data msgs d')
  have "writer_part (after_messages d') = writer_part (the_client u)"
    using writer_part_read_data [OF read_data(3)] by (simp add: client_frames)
  from stalled_part [OF this] read_data(1) assms(1) show ?thesis by simp
qed (use assms(1) in \<open>simp_all add: stalled_part [OF writer_part_basic(4)] stalled_part [OF writer_part_basic(5)]
      stalled_part [OF writer_part_basic(10)]
      stalled_part [OF writer_part_steps(1)] stalled_part [OF writer_part_steps(2)] stalled_part [OF writer_part_steps(3)]
      stalled_part [OF writer_part_steps(5)] stalled_part [OF writer_part_steps(6)] stalled_part [OF writer_part_steps(7)]
      send_framed_stalled sends_once_stalled [OF sends_once_send_json] sends_once_stalled [OF sends_once_send_secure]
      sends_once_stalled [OF sends_once_connect] sends_once_stalled [OF sends_once_heartbeat]\<close>,
    (simp add: stalled_def)?)

lemma stalled_run:
  assumes "(client_step c)\<^sup>*\<^sup>* u v" "stalled (the_client u)"
  shows "stalled (the_client v) \<and> client_out (the_client v) = client_out (the_client u)"
  using assms by (induction rule: rtranclp_induct) (auto dest: stalled_step)

lemma missed_heartbeat_send_secure [simp]:
  "missed_heartbeat (snd (send_secure_json c j d)) = missed_heartbeat d"
  by (auto simp: send_secure_json_def send_framed_def flush_write_queue_def arm_request_timer_def Let_def
      split: prod.splits sum.splits list.splits dest: ensure_request_id_frame)

subsection \<open>Failures\<close>

lemma backs_off_schedule:
  "\<not> stopping d' \<Longrightarrow> reconnect_sec d' = reconnect_sec d \<Longrightarrow> backs_off d (schedule_reconnect d')"
  by (simp add: backs_off_def schedule_reconnect_def reconnect_sec_max_def Let_def mult.commute)

lemma backs_off_completions:
  assumes "\<not> stopping d"
  shows "backs_off d (on_resolve True d)" "backs_off d (on_connect c True d)"
    "backs_off d (on_read_error d)" "backs_off d (on_write_done True data d)"
  using assms
  by (auto simp: on_resolve_def on_connect_def on_read_error_def on_write_done_def close_socket_def Let_def
      intro!: backs_off_schedule)

lemma backs_off_messages:
  assumes "\<not> stopping d" "on_read_data data d = (msgs, d')" "last_clear_by_invalid_length (client_buf d')"
  shows "backs_off d (after_messages d')"
proof -
  have "stopping d' = stopping d" "reconnect_sec d' = reconnect_sec d"
    using assms(2) by (auto simp: on_read_data_def Let_def split: prod.splits)
  then show ?thesis
    using assms by (auto simp: after_messages_def close_socket_def intro!: backs_off_schedule)
qed

lemma send_framed_backoff:
  "stopping (send_framed body d) = stopping d" "reconnect_sec (send_framed body d) = reconnect_sec d"
  "missed_heartbeat (send_framed body d) = missed_heartbeat d"
  by (auto simp: send_framed_def flush_write_queue_def Let_def split: list.split)

lemma send_secure_backoff:
  "stopping (snd (send_secure_json c j d)) = stopping d"
  "reconnect_sec (snd (send_secure_json c j d)) = reconnect_sec d"
  "missed_heartbeat (snd (send_secure_json c j d)) = missed_heartbeat d"
proof -
  obtain x d' where e: "ensure_request_id j d = (x, d')" by fastforce
  note f = ensure_request_id_frame [OF e]
  show "stopping (snd (send_secure_json c j d)) = stopping d"
    "reconnect_sec (snd (send_secure_json c j d)) = reconnect_sec d"
    "missed_heartbeat (snd (send_secure_json c j d)) = missed_heartbeat d"
    using f by (auto simp: send_secure_json_def e arm_request_timer_def send_framed_backoff split: sum.splits)
qed

lemma backs_off_heartbeat:
  assumes "\<not> stopping d" "connected d" "authed d" "2 \<le> missed_heartbeat d"
  shows "backs_off d (on_heartbeat_timer c d)"
  using assms
  by (auto simp: on_heartbeat_timer_def heartbeat_miss_limit_def close_socket_def send_secure_backoff Let_def
      intro!: backs_off_schedule)

lemma backs_off_send_json:
  assumes "\<not> stopping d" "ensure_request_id j d = (Inl e, d')"
  shows "backs_off d (send_json c j d)"
  using assms ensure_request_id_frame [OF assms(2)]
  by (auto simp: send_json_def client_alert_def close_socket_def intro!: backs_off_schedule)

lemma connected_resets_delay: "reconnect_sec (on_connect c False d) = 2"
  by (simp add: on_connect_def server_send_login_def do_read_some_def arm_heartbeat_timer_def
      send_secure_backoff Let_def)

section \<open>Properties\<close>

text \<open>
  C17: The frames reach the wire in the order they were accepted: in every reachable state
  the frames handed to the socket, followed by the queue behind its front, are exactly the
  frames accepted so far, so none is duplicated, overtaken or dropped while the connection
  is up; and at most one write is outstanding.
\<close>

theorem client_frames_in_order:
  assumes "reach client_begin (client_step c) u"
  shows "accepted u = client_out (the_client u) @ tl (client_queue (the_client u))
    \<and> length (writing (the_client u)) \<le> 1"
  using client_sys.reach_inv [OF assms] by (auto simp: client_inv_def writer_ok_def)

theorem client_frames_in_order_witness:
  "\<forall>c. \<exists>u. reach client_begin (client_step c) u
     \<and> accepted u = client_out (the_client u) @ tl (client_queue (the_client u))"
proof
  fix c :: app_context
  let ?u = "\<lparr>the_client = client_new [] 1 [] [], accepted = []\<rparr>"
  have r: "reach client_begin (client_step c) ?u"
    by (rule reach_start) (auto simp: client_begin_def)
  from client_frames_in_order [OF r] r show "\<exists>u. reach client_begin (client_step c) u
     \<and> accepted u = client_out (the_client u) @ tl (client_queue (the_client u))" by blast
qed

text \<open>
  C40: After one failed write nothing is ever sent again. The failed frame stays at the
  front of the queue and \<^verbatim>\<open>write_in_progress_\<close> stays set; whatever happens afterwards,
  reconnections, logins, heartbeats and new requests included, no frame is handed to the
  socket.
\<close>

theorem write_error_stalls_client:
  assumes "reach client_begin (client_step c) u" "data \<in> set (writing (the_client u))"
    and "(client_step c)\<^sup>*\<^sup>* (u\<lparr>the_client := on_write_done True data (the_client u)\<rparr>) v"
  shows "client_out (the_client v) = client_out (the_client u)"
proof -
  let ?d = "on_write_done True data (the_client u)"
  have w: "writer_ok (the_client u) (accepted u)"
    using client_sys.reach_inv [OF assms(1)] by (simp add: client_inv_def)
  then have "writing (the_client u) = [data]" "client_queue (the_client u) \<noteq> []"
    using assms(2) by (cases "client_queue (the_client u)"; auto simp: writer_ok_def)+
  then have "stalled ?d \<and> client_out ?d = client_out (the_client u)"
    by (simp add: on_write_done_def stalled_def schedule_reconnect_def close_socket_def Let_def)
  with stalled_run [OF assms(3)] show ?thesis by simp
qed

theorem write_error_stalls_client_witness:
  "\<exists>(c :: app_context) u data v. reach client_begin (client_step c) u \<and> data \<in> set (writing (the_client u))
     \<and> (client_step c)\<^sup>*\<^sup>* (u\<lparr>the_client := on_write_done True data (the_client u)\<rparr>) v
     \<and> client_out (the_client v) = client_out (the_client u)"
proof -
  define c where "c = \<lparr>config = \<lambda>_. None, config_text = \<lambda>_. None, json_parse = \<lambda>_. Inl Parse_error, json_dump = \<lambda>_. ''x''\<rparr>"
  define u0 where "u0 = \<lparr>the_client = client_new [] 1 [] [], accepted = []\<rparr>"
  define u1 where "u1 = u0\<lparr>the_client := client_start c (the_client u0)\<rparr>"
  define u2 where "u2 = u1\<lparr>the_client := on_resolve False (the_client u1)\<rparr>"
  define d3 where "d3 = on_connect c False (the_client u2)"
  define u3 where "u3 = \<lparr>the_client = d3, accepted = accepted u2 @ drop (length (client_queue (the_client u2))) (client_queue d3)\<rparr>"
  have r0: "reach client_begin (client_step c) u0" by (rule reach_start) (auto simp: client_begin_def u0_def)
  have r1: "reach client_begin (client_step c) u1"
    unfolding u1_def by (rule reach_step [OF r0 client_step.start])
  have "0 < resolving (the_client u1)"
    by (simp add: u1_def u0_def c_def client_start_def do_connect_def client_new_def config_value_def)
  then have r2: "reach client_begin (client_step c) u2"
    unfolding u2_def by (intro reach_step [OF r1] client_step.resolve)
  have cn: "0 < connecting (the_client u2)"
    by (simp add: u2_def on_resolve_def Let_def)
  have r3: "reach client_begin (client_step c) u3"
    unfolding u3_def by (rule reach_step [OF r2 client_step.connect_ok [OF cn d3_def]])
  have "client_queue (the_client u2) = []" "\<not> client_writing (the_client u2)"
    by (simp_all add: u2_def u1_def u0_def c_def on_resolve_def client_start_def do_connect_def client_new_def
        config_value_def Let_def)
  then have "writing (the_client u3) \<noteq> []"
    by (simp add: u3_def d3_def on_connect_def server_send_login_def send_secure_json_def ensure_request_id_def
        login_message_def generate_request_id_def jobj_def send_framed_def flush_write_queue_def
        arm_request_timer_def do_read_some_def arm_heartbeat_timer_def Let_def)
  then obtain data where d: "data \<in> set (writing (the_client u3))" by (cases "writing (the_client u3)") auto
  from write_error_stalls_client [OF r3 d rtranclp.rtrancl_refl] r3 d show ?thesis by blast
qed

text \<open>
  C36: The back-off. In every reachable state the delay is between 2 and 30 seconds and a
  pending reconnect waits between 4 and 30 seconds. Every failure of a client that is not
  stopping, of the name resolution, of the connection, of a read or a write, a message of
  invalid length, a third missed heartbeat, or a message that cannot be given a request id,
  takes the connection down, doubles the delay up to 30 seconds and leaves the timer of the
  next attempt running with that delay; a connection that succeeds resets the delay to 2
  seconds.
\<close>

theorem reconnect_backoff:
  assumes "reach client_begin (client_step c) u" "d = the_client u"
  shows "2 \<le> reconnect_sec d \<and> reconnect_sec d \<le> 30
    \<and> (\<forall>s. reconnect_wait d = Some s \<longrightarrow> 4 \<le> s \<and> s \<le> 30)
    \<and> reconnect_sec (on_connect c False d) = 2
    \<and> (\<not> stopping d \<longrightarrow>
         backs_off d (on_resolve True d) \<and> backs_off d (on_connect c True d)
       \<and> backs_off d (on_read_error d) \<and> (\<forall>data. backs_off d (on_write_done True data d))
       \<and> (\<forall>data msgs d'. on_read_data data d = (msgs, d') \<longrightarrow>
            last_clear_by_invalid_length (client_buf d') \<longrightarrow> backs_off d (after_messages d'))
       \<and> (connected d \<longrightarrow> authed d \<longrightarrow> 2 \<le> missed_heartbeat d \<longrightarrow> backs_off d (on_heartbeat_timer c d))
       \<and> (\<forall>j e d'. ensure_request_id j d = (Inl e, d') \<longrightarrow> backs_off d (send_json c j d)))"
proof -
  have "2 \<le> reconnect_sec d \<and> reconnect_sec d \<le> 30
    \<and> (\<forall>s. reconnect_wait d = Some s \<longrightarrow> 4 \<le> s \<and> s \<le> 30)"
    using client_sys.reach_inv [OF assms(1)] assms(2) by (simp add: client_inv_def reconnect_sec_max_def)
  moreover have "backs_off d (on_heartbeat_timer c d)"
    if "\<not> stopping d" "connected d" "authed d" "2 \<le> missed_heartbeat d"
    by (rule backs_off_heartbeat [OF that])
  moreover have "backs_off d (after_messages d')"
    if "\<not> stopping d" "on_read_data data d = (msgs, d')" "last_clear_by_invalid_length (client_buf d')" for data msgs d'
    by (rule backs_off_messages [OF that])
  moreover have "backs_off d (send_json c j d)"
    if "\<not> stopping d" "ensure_request_id j d = (Inl e, d')" for j e d'
    by (rule backs_off_send_json [OF that])
  ultimately show ?thesis by (simp add: backs_off_completions connected_resets_delay)
qed

text \<open>The client at its start, and a message that is no object.\<close>

theorem reconnect_backoff_witness:
  "let c = \<lparr>config = \<lambda>_. None, config_text = \<lambda>_. None, json_parse = \<lambda>_. Inl Parse_error, json_dump = \<lambda>_. []\<rparr> in
   backs_off (client_new [] 1 [] []) (on_connect c True (client_new [] 1 [] []))
   \<and> backs_off (client_new [] 1 [] []) (send_json c (JArr []) (client_new [] 1 [] []))
   \<and> reconnect_wait (on_resolve True (client_new [] 1 [] [])) = Some 4"
proof -
  define c where "c = \<lparr>config = \<lambda>_. None, config_text = \<lambda>_. None, json_parse = \<lambda>_. Inl Parse_error, json_dump = \<lambda>_. []\<rparr>"
  let ?u = "\<lparr>the_client = client_new [] 1 [] [], accepted = []\<rparr>"
  have r: "reach client_begin (client_step c) ?u"
    by (rule reach_start) (auto simp: client_begin_def)
  have s: "\<not> stopping (client_new [] 1 [] [])" "reconnect_sec (client_new [] 1 [] []) = 2"
    by (simp_all add: client_new_def)
  obtain e d' where e: "ensure_request_id (JArr []) (client_new [] 1 [] []) = (Inl e, d')"
    by (simp add: ensure_request_id_def generate_request_id_def Let_def)
  from reconnect_backoff [OF r refl] s e
  have b: "backs_off (client_new [] 1 [] []) (on_connect c True (client_new [] 1 [] []))"
    "backs_off (client_new [] 1 [] []) (send_json c (JArr []) (client_new [] 1 [] []))"
    "backs_off (client_new [] 1 [] []) (on_resolve True (client_new [] 1 [] []))" by auto
  then show ?thesis using s by (simp add: backs_off_def flip: c_def)
qed

text \<open>
  The count of missed heartbeats outlives the connection. A heartbeat that makes it
  the third unanswered one gives the connection up, and connecting again does not clear the
  counter, so the first heartbeat after the next login gives that connection up as well,
  however healthy it is, unless an acknowledgement came first.
\<close>

theorem heartbeat_count_survives_reconnect:
  assumes "connected d" "authed d" "\<not> stopping d" "2 \<le> missed_heartbeat d"
  shows "\<not> connected (on_heartbeat_timer c d)
    \<and> 3 \<le> missed_heartbeat (on_connect c False (on_heartbeat_timer c d))
    \<and> (\<forall>d'. connected d' \<and> authed d' \<and> \<not> stopping d'
          \<and> missed_heartbeat d' = missed_heartbeat (on_connect c False (on_heartbeat_timer c d))
          \<longrightarrow> \<not> connected (on_heartbeat_timer c d'))"
proof -
  have m: "missed_heartbeat (on_connect c False e) = missed_heartbeat e" for e
    by (simp add: on_connect_def server_send_login_def do_read_some_def arm_heartbeat_timer_def Let_def)
  have h: "\<not> connected (on_heartbeat_timer c e) \<and> missed_heartbeat (on_heartbeat_timer c e) = missed_heartbeat e + 1"
    if "connected e" "authed e" "\<not> stopping e" "2 \<le> missed_heartbeat e" for e
    using that by (simp add: on_heartbeat_timer_def heartbeat_miss_limit_def schedule_reconnect_def close_socket_def Let_def)
  show ?thesis using h [OF assms] h m assms(4) by simp
qed

theorem heartbeat_count_survives_reconnect_witness:
  "\<not> connected (on_heartbeat_timer \<lparr>config = \<lambda>_. None, config_text = \<lambda>_. None,
      json_parse = \<lambda>_. Inl Parse_error, json_dump = \<lambda>_. []\<rparr>
      ((client_new [] 1 [] [])\<lparr>connected := True, authed := True, missed_heartbeat := 2\<rparr>))"
  using heartbeat_count_survives_reconnect [of "(client_new [] 1 [] [])\<lparr>connected := True, authed := True, missed_heartbeat := 2\<rparr>"]
  by (simp add: client_new_def)

end
