(* ===== verification/World.thy ===== *)
theory World
  imports ManagerModel Client
begin

text \<open>
  The running server: the session objects together with the pool, the session manager, the
  zones and the UDP tables, the jobs waiting on strands and the outstanding reads and
  writes; and what a session does in it: posting messages through its strand, writing,
  reading, the login timer, and closing, with everything \<^verbatim>\<open>DataHandler::remove_session\<close>
  takes down. The main results are that closing removes every trace of a session and that
  a stale completion of a write is ignored.
\<close>

section \<open>Definitions\<close>

text \<open>
  The callbacks of the login request: the session and the nickname of the
  \<^verbatim>\<open>LoginFlow\<close> object that both lambdas capture.
\<close>

datatype login_cb = OnUserInfoOk addr string | OnUserInfoError addr string

text \<open>
  A function object waiting on a strand: the lambdas of \<^verbatim>\<open>post_write\<close>,
  \<^verbatim>\<open>post_task\<close>, \<^verbatim>\<open>Zone::broadcast\<close> (\<open>zone_id\<close>, message, sender),
  \<^verbatim>\<open>udp_broadcast\<close> (message, sender), the router's request and response jobs, and the
  client's \<^verbatim>\<open>send_framed\<close>, \<^verbatim>\<open>stop\<close> and \<^verbatim>\<open>start\<close>.
\<close>

datatype job =
    WriteJob addr string
  | TaskJob addr task
  | ZoneBroadcastJob int string string
  | UdpBroadcastJob string string
  | RouterRequestJob string json bool int int int login_cb login_cb
  | RouterResponseJob string json bool
  | ClientFrameJob string
  | ClientStopJob
  | ClientStartJob

text \<open>
  \<open>router\<close> and \<open>client\<close> are \<open>None\<close> when the weak pointer of \<^verbatim>\<open>AppContext\<close> is empty;
  \<open>context_ready\<close> says that its \<^verbatim>\<open>session_manager\<close> and \<^verbatim>\<open>data_handler\<close> are set.
  \<open>reads\<close> and \<open>writes\<close> are the outstanding operations on client sockets with the strand
  their completion runs on; \<open>tcp_out\<close> and \<open>udp_out\<close> record what was handed to the sockets.
  \<open>cur_strand\<close> is the strand the running handler is executed on. \<open>io_threads\<close> counts the
  threads in \<^verbatim>\<open>io.run()\<close>: an exception that leaves a handler ends one.
\<close>

record world =
  heap :: heap
  next_addr :: addr
  next_strand :: nat
  spool :: session_pool
  pool_set :: bool
  smgr :: session_manager
  zones :: zone_manager
  udp_endpoint_to_session :: "(endpoint, addr) umap"
  bad_udp_map :: "(string, int \<times> time) umap"
  udp_global_limiter :: udp_rate_limiter
  udp_total_packet_count :: "64 word"
  udp_total_packet_window :: time
  data_handler_alive :: bool
  context_ready :: bool
  router :: "login_cb router option"
  client :: "db_client option"
  session_counter :: int
  posted :: "(strand_id \<times> job) list"
  cur_strand :: "strand_id option"
  reads :: "(addr \<times> strand_id) list"
  writes :: "(addr \<times> strand_id \<times> 64 word \<times> string) list"
  tcp_out :: "(nat option \<times> string) list"
  udp_out :: "(endpoint \<times> string) list"
  alerts :: "string list"
  io_threads :: nat

text \<open>A pooled session is owned by the pool for ever, so its weak pointers never expire.\<close>

definition alive :: "world \<Rightarrow> addr \<Rightarrow> bool" where
  "alive w a \<longleftrightarrow> a \<in> set (pool (spool w))"

definition upd :: "addr \<Rightarrow> (session \<Rightarrow> session) \<Rightarrow> world \<Rightarrow> world" where
  "upd a f w = w\<lparr>heap := (heap w)(a := f (heap w a))\<rparr>"

text \<open>
  \<^verbatim>\<open>boost::asio::dispatch\<close>: run now when the caller is already on the strand, queue
  otherwise; \<^verbatim>\<open>post\<close> always queues.
\<close>

definition post_job :: "strand_id \<Rightarrow> job \<Rightarrow> world \<Rightarrow> world" where
  "post_job st j w = w\<lparr>posted := posted w @ [(st, j)]\<rparr>"

definition dispatch_job :: "strand_id \<Rightarrow> job \<Rightarrow> (world \<Rightarrow> world) \<Rightarrow> world \<Rightarrow> world" where
  "dispatch_job st j run w = (if cur_strand w = Some st then run w else post_job st j w)"

definition send_udp :: "endpoint \<Rightarrow> string \<Rightarrow> world \<Rightarrow> world" where
  "send_udp ep data w = w\<lparr>udp_out := udp_out w @ [(ep, data)]\<rparr>"

subsection \<open>Closing\<close>

text \<open>The entry of an endpoint is erased when it points to the session, or to a dead one.\<close>

definition erase_endpoint_of :: "endpoint \<Rightarrow> addr \<Rightarrow> world \<Rightarrow> world" where
  "erase_endpoint_of ep a w =
     (case um_find (udp_endpoint_to_session w) ep of
        Some b \<Rightarrow> if alive w b \<and> b \<noteq> a then w
                  else w\<lparr>udp_endpoint_to_session := um_erase ep (udp_endpoint_to_session w)\<rparr>
      | None \<Rightarrow> w)"

definition pool_release_session :: "addr \<Rightarrow> world \<Rightarrow> world" where
  "pool_release_session a w =
     (if pool_set w then
        let (dup, p, h) = pool_release a (spool w, heap w);
            w' = w\<lparr>spool := p, heap := h\<rparr>
        in if dup
           then w'\<lparr>alerts := alerts w' @ [''[ALERT] SessionPool '' @ utf8 [236, 164, 145, 235, 179, 181] @
                     '' acquire '' @ utf8 [234, 176, 144, 236, 167, 128] @ ''! idx='' @
                     (case pool_index (pool p) a of Some i \<Rightarrow> nat_str i | None \<Rightarrow> [])]\<rparr>
           else w'
      else w)"

text \<open>\<^verbatim>\<open>DataHandler::remove_session\<close>\<close>

definition remove_session :: "int \<Rightarrow> world \<Rightarrow> world" where
  "remove_session sid w =
     (case mgr_remove_session sid (smgr w) of
        (None, m) \<Rightarrow> w\<lparr>smgr := m\<rparr>
      | (Some a, m) \<Rightarrow>
          let w0 = w\<lparr>smgr := m\<rparr>;
              w1 = (case udp_endpoint (heap w0 a) of Some ep \<Rightarrow> erase_endpoint_of ep a w0 | None \<Rightarrow> w0);
              w2 = upd a clear_udp_token w1;
              w3 = (if -1 < zone_id (heap w2 a)
                    then let (h, zs) = zm_remove_session a (heap w2, zones w2) in w2\<lparr>heap := h, zones := zs\<rparr>
                    else w2)
          in pool_release_session a w3)"

text \<open>
  \<^verbatim>\<open>Session::close_session\<close>. The socket calls report through error codes and
  \<open>remove_session\<close> raises nothing, so its \<^verbatim>\<open>catch\<close> part is not reached.
\<close>

definition close_session :: "addr \<Rightarrow> world \<Rightarrow> world" where
  "close_session a w =
     (let (ok, s) = try_close (heap w a) in
      if \<not> ok then w
      else let w1 = upd a (\<lambda>_. finalize_close (s\<lparr>state := Closed, login_timer := None, socket := None\<rparr>)) w;
               w2 = (if data_handler_alive w1 then remove_session (session_id (heap w1 a)) w1 else w1)
           in upd a session_cleanup w2)"

subsection \<open>Writing\<close>

text \<open>
  One asynchronous write of the front of the queue: a frame on the socket, and a completion
  that remembers the generation.
\<close>

definition do_write_queue :: "addr \<Rightarrow> world \<Rightarrow> world" where
  "do_write_queue a w =
     (let s = heap w a in
      if state s = Closed then w
      else case write_queue s of
        [] \<Rightarrow> upd a (\<lambda>s. s\<lparr>write_in_progress := False\<rparr>) w
      | msg # _ \<Rightarrow> w\<lparr>writes := writes w @ [(a, strand s, generation s, msg)],
                      tcp_out := tcp_out w @ [(socket s, frame_message msg)]\<rparr>)"

text \<open>The lambda of \<^verbatim>\<open>post_write\<close>.\<close>

definition write_job :: "app_context \<Rightarrow> addr \<Rightarrow> string \<Rightarrow> world \<Rightarrow> world" where
  "write_job c a msg w =
     (let idle = (write_queue (heap w a) = []);
          (s, full) = enqueue_write c msg (heap w a);
          w1 = upd a (\<lambda>_. s) w;
          w2 = (if full then close_session a w1 else w1)
      in if idle then do_write_queue a (upd a (\<lambda>s. s\<lparr>write_in_progress := True\<rparr>) w2) else w2)"

definition post_write :: "app_context \<Rightarrow> addr \<Rightarrow> string \<Rightarrow> world \<Rightarrow> world" where
  "post_write c a msg w = dispatch_job (strand (heap w a)) (WriteJob a msg) (write_job c a msg) w"

text \<open>The completion of a write; \<open>ec\<close> is true for an error.\<close>

definition on_write_complete :: "bool \<Rightarrow> addr \<Rightarrow> 64 word \<Rightarrow> world \<Rightarrow> world" where
  "on_write_complete ec a my_generation w =
     (if my_generation \<noteq> generation (heap w a) then w
      else if ec then close_session a w
      else do_write_queue a (upd a (\<lambda>s. s\<lparr>write_queue := tl (write_queue s)\<rparr>) w))"

subsection \<open>Tasks and reading\<close>

definition run_next_task :: "addr \<Rightarrow> world \<Rightarrow> world" where
  "run_next_task a w =
     (case task_queue (heap w a) of
        [] \<Rightarrow> upd a (\<lambda>s. s\<lparr>task_running := False\<rparr>) w
      | ReadTask # rest \<Rightarrow>
          let w1 = upd a (\<lambda>s. s\<lparr>task_queue := rest\<rparr>) w
          in w1\<lparr>reads := reads w1 @ [(a, strand (heap w1 a))]\<rparr>)"

definition task_job :: "app_context \<Rightarrow> addr \<Rightarrow> task \<Rightarrow> world \<Rightarrow> world" where
  "task_job c a fn w =
     (let (s, full) = enqueue_task c fn (heap w a) in
      if full then close_session a w
      else let w1 = upd a (\<lambda>_. s) w in
           if task_running s then w1
           else run_next_task a (upd a (\<lambda>s. s\<lparr>task_running := True\<rparr>) w1))"

definition post_task :: "app_context \<Rightarrow> addr \<Rightarrow> task \<Rightarrow> world \<Rightarrow> world" where
  "post_task c a fn w = dispatch_job (strand (heap w a)) (TaskJob a fn) (task_job c a fn) w"

text \<open>\<^verbatim>\<open>get_handler_safe\<close> closes the session when the handler is gone.\<close>

definition get_handler_safe :: "addr \<Rightarrow> world \<Rightarrow> bool \<times> world" where
  "get_handler_safe a w = (if data_handler_alive w then (True, w) else (False, close_session a w))"

definition do_read :: "app_context \<Rightarrow> addr \<Rightarrow> world \<Rightarrow> world" where
  "do_read c a w =
     (if state (heap w a) = Closed then w
      else let (ok, s) = try_acquire_read (heap w a);
               w1 = upd a (\<lambda>_. s) w
           in if \<not> ok then w1
              else let (there, w2) = get_handler_safe a w1
                   in if there then post_task c a ReadTask w2 else w2)"

subsection \<open>Login timer and start\<close>

definition login_timeout_msg :: string where
  "login_timeout_msg =
     ''{\"type\":\"notice\",\"msg\":\"Your connection has been terminated due to a login timeout.\"}'' @ newline"

definition start_login_timeout :: "app_context \<Rightarrow> time \<Rightarrow> addr \<Rightarrow> world \<Rightarrow> world" where
  "start_login_timeout c now a w =
     (if state (heap w a) = Closed then w
      else upd a (\<lambda>s. s\<lparr>login_timer := Some (now + seconds (config_value c ''login_timeout_seconds'' 90))\<rparr>) w)"

text \<open>The login timer expires; it was not cancelled.\<close>

definition on_login_timer :: "app_context \<Rightarrow> addr \<Rightarrow> world \<Rightarrow> world" where
  "on_login_timer c a w0 =
     (let w = upd a (\<lambda>s. s\<lparr>login_timer := None\<rparr>) w0 in
      if nickname_registered (heap w a) then w
      else close_session a (post_write c a login_timeout_msg w))"

definition session_start :: "app_context \<Rightarrow> time \<Rightarrow> addr \<Rightarrow> world \<Rightarrow> world" where
  "session_start c now a w = start_login_timeout c now a (do_read c a w)"

subsection \<open>Start-up\<close>

text \<open>
  The objects \<^verbatim>\<open>main\<close> builds before its threads enter \<^verbatim>\<open>io.run()\<close>: \<open>hw\<close> is
  \<^verbatim>\<open>hardware_concurrency()\<close>. Without the secret the program ends. The DB client's
  \<^verbatim>\<open>start()\<close> waits on its strand.
\<close>

definition server_new :: "app_context \<Rightarrow> time \<Rightarrow> nat \<Rightarrow> string \<Rightarrow> world option" where
  "server_new c now hw sec =
     (if sec = [] then None
      else let shards = max 4 (hw * 2);
               n = config_size c ''session_pool_size'' 1024;
               (p, h) = pool_new now n (config_size c ''max_session_pool_size'' 10000) 0 0
                          (\<lambda>_. session_new now (-1) (SessStrand 0));
               r = set_senders True True
                     (register_handler ''server_login_ack'' (register_handler ''keepalive_ack'' router_new));
               d = set_heartbeat_interval (config_value c ''dbmw_heartbeat_sec'' 20)
                     (client_new (config_string c ''dbmw_host'' ''127.0.0.1'')
                        (nat (config_value c ''dbmw_port'' 40001 mod 2 ^ 16))
                        (config_string c ''dbmw_login_nickname'' ''Server_1'') sec)
           in Some \<lparr>heap = h, next_addr = n, next_strand = n, spool = p, pool_set = True,
                smgr = manager_new shards,
                zones = zone_manager_new c (config_value c ''max_zone_count'' 10),
                udp_endpoint_to_session = [], bad_udp_map = [],
                udp_global_limiter = new_limiter shards,
                udp_total_packet_count = 0, udp_total_packet_window = 0,
                data_handler_alive = True, context_ready = True,
                router = Some r, client = Some d, session_counter = 0,
                posted = [(ClientStrand, ClientStartJob)], cur_strand = None,
                reads = [], writes = [], tcp_out = [], udp_out = [], alerts = [],
                io_threads = (if hw = 0 then 4 else hw)\<rparr>)"

section \<open>Lemmas\<close>

lemma heap_upd [simp]: "heap (upd a f w) b = (if b = a then f (heap w a) else heap w b)"
  by (simp add: upd_def)

lemma upd_frame [simp]:
  "smgr (upd a f w) = smgr w" "zones (upd a f w) = zones w" "spool (upd a f w) = spool w"
  "pool_set (upd a f w) = pool_set w" "udp_endpoint_to_session (upd a f w) = udp_endpoint_to_session w"
  "data_handler_alive (upd a f w) = data_handler_alive w" "cur_strand (upd a f w) = cur_strand w"
  "posted (upd a f w) = posted w" "writes (upd a f w) = writes w" "reads (upd a f w) = reads w"
  "tcp_out (upd a f w) = tcp_out w" "udp_out (upd a f w) = udp_out w" "io_threads (upd a f w) = io_threads w"
  "alerts (upd a f w) = alerts w" "context_ready (upd a f w) = context_ready w" "router (upd a f w) = router w"
  "client (upd a f w) = client w" "bad_udp_map (upd a f w) = bad_udp_map w"
  "next_addr (upd a f w) = next_addr w" "next_strand (upd a f w) = next_strand w"
  "udp_global_limiter (upd a f w) = udp_global_limiter w"
  by (simp_all add: upd_def)

lemma alive_upd [simp]: "alive (upd a f w) = alive w"
  by (simp add: alive_def fun_eq_iff)

subsection \<open>Closing\<close>

lemma close_session_cases:
  obtains (dead) "close_session a w = w" "life_state (heap w a) \<notin> {Idle, Active}"
  | (closes) "life_state (heap w a) \<in> {Idle, Active}"
      "close_session a w = upd a session_cleanup
         (let w1 = upd a (\<lambda>s. s\<lparr>state := Closed, login_timer := None, socket := None, life_state := LifeClosed\<rparr>) w
          in if data_handler_alive w then remove_session (session_id (heap w a)) w1 else w1)"
proof (cases "life_state (heap w a) \<in> {Idle, Active}")
  case True
  then have "snd (try_close (heap w a)) = (heap w a)\<lparr>life_state := Closing\<rparr>" "fst (try_close (heap w a))"
    by (auto simp: try_close_def)
  then have "close_session a w = upd a session_cleanup
         (let w1 = upd a (\<lambda>s. s\<lparr>state := Closed, login_timer := None, socket := None, life_state := LifeClosed\<rparr>) w
          in if data_handler_alive w then remove_session (session_id (heap w a)) w1 else w1)"
    by (simp add: close_session_def finalize_close_def Let_def split_beta upd_def)
  with True show ?thesis by (rule closes)
next
  case False
  then have "close_session a w = w" by (auto simp: close_session_def try_close_def)
  with False show ?thesis by (intro dead)
qed

text \<open>What no part of closing touches.\<close>

lemma erase_endpoint_of_frame [simp]:
  "heap (erase_endpoint_of ep a w) = heap w" "spool (erase_endpoint_of ep a w) = spool w"
  "smgr (erase_endpoint_of ep a w) = smgr w" "zones (erase_endpoint_of ep a w) = zones w"
  "pool_set (erase_endpoint_of ep a w) = pool_set w"
  "writes (erase_endpoint_of ep a w) = writes w" "tcp_out (erase_endpoint_of ep a w) = tcp_out w"
  "data_handler_alive (erase_endpoint_of ep a w) = data_handler_alive w"
  by (simp_all add: erase_endpoint_of_def split: option.split)

lemma pool_release_session_frame [simp]:
  "smgr (pool_release_session a w) = smgr w" "zones (pool_release_session a w) = zones w"
  "udp_endpoint_to_session (pool_release_session a w) = udp_endpoint_to_session w"
  "tcp_out (pool_release_session a w) = tcp_out w"
  by (simp_all add: pool_release_session_def split_beta Let_def)

lemma pool_release_heap:
  "snd (snd (pool_release a (p, h))) b = (if b = a then snd (snd (pool_release a (p, h))) a else h b)"
  by (auto simp: pool_release_def split: option.split)

lemma pool_release_heap_cases:
  "snd (snd (pool_release a (p, h))) a = h a
   \<or> snd (snd (pool_release a (p, h))) a = set_active False (mark_released (session_cleanup (h a)))"
  by (auto simp: pool_release_def split: option.split)

lemma heap_pool_release_other [simp]: "b \<noteq> a \<Longrightarrow> heap (pool_release_session a w) b = heap w b"
  using pool_release_heap [of a "spool w" "heap w" b] by (simp add: pool_release_session_def split_beta Let_def)

subsection \<open>The invariant of the tables and queues\<close>

text \<open>
  The bounds on one session: queued output and tasks, the level of its bucket, and
  the bytes buffered for it.
\<close>

definition session_ok :: "app_context \<Rightarrow> session \<Rightarrow> bool" where
  "session_ok c s \<longleftrightarrow>
     length (write_queue s) \<le> config_size c ''max_write_queue_size'' 100
     \<and> length (task_queue s) \<le> config_size c ''max_task_queue'' 1000
     \<and> 0 \<le> udpTokens s \<and> udpTokens s \<le> maxTokens"

text \<open>The pool: its sessions are different, older than the next one, and its free indices exist.\<close>

definition pool_fits :: "app_context \<Rightarrow> session_pool \<Rightarrow> addr \<Rightarrow> bool" where
  "pool_fits c p next \<longleftrightarrow> distinct (pool p) \<and> (\<forall>a \<in> set (pool p). a < next)
     \<and> set (reusable_indices p) \<subseteq> {..<length (pool p)}
     \<and> max_size p = config_size c ''max_session_pool_size'' 10000
     \<and> length (pool p) \<le> max (config_size c ''session_pool_size'' 1024) (max_size p)"

definition world_ok :: "app_context \<Rightarrow> world \<Rightarrow> bool" where
  "world_ok c w \<longleftrightarrow> 0 < config_size c ''max_write_queue_size'' 100
     \<and> (\<forall>a. session_ok c (heap w a)) \<and> manager_ok (smgr w) \<and> zones_ok (zones w)
     \<and> um_ok (udp_endpoint_to_session w) \<and> pool_fits c (spool w) (next_addr w)"

lemma world_ok_upd:
  "world_ok c w \<Longrightarrow> session_ok c (f (heap w a)) \<Longrightarrow> world_ok c (upd a f w)"
  by (simp add: world_ok_def)

lemma world_ok_upd_all:
  "world_ok c w \<Longrightarrow> (\<And>s. session_ok c s \<Longrightarrow> session_ok c (f s)) \<Longrightarrow> world_ok c (upd a f w)"
  by (simp add: world_ok_def)

lemma world_ok_session: "world_ok c w \<Longrightarrow> session_ok c (heap w a)"
  by (simp add: world_ok_def)

lemma world_ok_cong:
  "world_ok c w \<Longrightarrow> heap w' = heap w \<Longrightarrow> smgr w' = smgr w \<Longrightarrow> zones w' = zones w \<Longrightarrow>
     udp_endpoint_to_session w' = udp_endpoint_to_session w \<Longrightarrow> spool w' = spool w \<Longrightarrow> next_addr w' = next_addr w \<Longrightarrow>
     world_ok c w'"
  by (simp add: world_ok_def)

lemma session_ok_ops [simp, intro]:
  assumes "session_ok c s"
  shows "session_ok c (session_cleanup s)" "session_ok c (clear_udp_token s)"
    "session_ok c (set_active v s)" "session_ok c (mark_released s)"
    "session_ok c (session_reset now conn sid st s)"
    "session_ok c (s\<lparr>state := sst, login_timer := t, socket := so, life_state := l\<rparr>)"
    "session_ok c (s\<lparr>zone_id := zi, zone := zz\<rparr>)" "session_ok c (s\<lparr>write_in_progress := b\<rparr>)"
    "session_ok c (s\<lparr>login_timer := t\<rparr>)" "session_ok c (s\<lparr>task_running := b\<rparr>)"
    "session_ok c (s\<lparr>read_pending := b\<rparr>)" "session_ok c (s\<lparr>nickname := nn\<rparr>)"
    "session_ok c (on_nickname_registered s)" "session_ok c (update_alive_time now s)"
    "session_ok c (set_udp_endpoint now ep s)" "session_ok c (update_udp_alive_time now s)"
    "session_ok c (set_udp_token c' now tok s)" "session_ok c (set_udp_token_ttl i s)"
    "session_ok c (clear_udp_endpoint s)" "session_ok c (release_read s)"
  using assms
  by (simp_all add: session_ok_def session_cleanup_def clear_udp_token_def set_active_def try_activate_def
      mark_released_def session_reset_def mbm_clear_def on_nickname_registered_def update_alive_time_def
      set_udp_endpoint_def update_udp_alive_time_def set_udp_token_def set_udp_token_ttl_def
      clear_udp_endpoint_def release_read_def)

lemma session_ok_new: "session_ok c (session_new now sid st)"
  by (simp add: session_ok_def session_new_def maxTokens_def empty_buffer_def)

lemma erase_endpoint_of_ok: "world_ok c w \<Longrightarrow> world_ok c (erase_endpoint_of ep a w)"
  by (simp add: world_ok_def) (auto simp: erase_endpoint_of_def um_ok_erase split: option.split)

lemma pool_release_fits: "pool_fits c p n \<Longrightarrow> pool_fits c (fst (snd (pool_release a (p, h)))) n"
  by (auto simp: pool_release_def pool_fits_def dest: pool_index_Some split: option.split)

lemma pool_release_session_ok:
  assumes "world_ok c w"
  shows "world_ok c (pool_release_session a w)"
proof -
  let ?h = "snd (snd (pool_release a (spool w, heap w)))"
  have "session_ok c (?h a)"
    using pool_release_heap_cases [of a "spool w" "heap w"] world_ok_session [OF assms, of a]
    by (metis session_ok_ops(1,3,4))
  then have "session_ok c (?h b)" for b
    using pool_release_heap [of a "spool w" "heap w" b] world_ok_session [OF assms, of b] by metis
  then have "session_ok c (heap (pool_release_session a w) b)" for b
    using world_ok_session [OF assms, of b] by (simp add: pool_release_session_def split_beta Let_def)
  moreover have "pool_fits c (spool (pool_release_session a w)) (next_addr (pool_release_session a w))"
    using assms pool_release_fits [of c "spool w" "next_addr w" a "heap w"]
    by (simp add: world_ok_def pool_release_session_def split_beta Let_def)
  ultimately show ?thesis using assms by (simp add: world_ok_def)
qed

lemma zm_remove_session_heap:
  "b \<noteq> a \<Longrightarrow> fst (zm_remove_session a (h, zs)) b = h b"
  "fst (zm_remove_session a (h, zs)) a = h a
   \<or> fst (zm_remove_session a (h, zs)) a = (h a)\<lparr>zone_id := -1, zone := None\<rparr>"
  by (simp_all add: zm_remove_session_def Let_def split: option.split)

lemma remove_session_ok:
  assumes "world_ok c w"
  shows "world_ok c (remove_session sid w)"
proof -
  have m: "manager_ok (snd (mgr_remove_session sid (smgr w)))"
    using assms by (intro mgr_remove_session_ok) (simp add: world_ok_def)
  show ?thesis
  proof (cases "mgr_remove_session sid (smgr w)")
    case (Pair r m')
    have w0: "world_ok c (w\<lparr>smgr := m'\<rparr>)" using assms m Pair by (simp add: world_ok_def)
    show ?thesis
    proof (cases r)
      case None
      then show ?thesis using w0 Pair by (simp add: remove_session_def)
    next
      case (Some a)
      let ?w1 = "case udp_endpoint (heap (w\<lparr>smgr := m'\<rparr>) a) of Some ep \<Rightarrow> erase_endpoint_of ep a (w\<lparr>smgr := m'\<rparr>) | None \<Rightarrow> w\<lparr>smgr := m'\<rparr>"
      define w2 where "w2 = upd a clear_udp_token ?w1"
      have "world_ok c ?w1" using w0 by (auto intro: erase_endpoint_of_ok split: option.split)
      then have w2: "world_ok c w2" unfolding w2_def by (intro world_ok_upd) (auto dest: world_ok_session)
      define w3 where "w3 = (if -1 < zone_id (heap w2 a)
          then let (h, zs) = zm_remove_session a (heap w2, zones w2) in w2\<lparr>heap := h, zones := zs\<rparr> else w2)"
      have "session_ok c (fst (zm_remove_session a (heap w2, zones w2)) b)" for b
        using zm_remove_session_heap(1) [of b a "heap w2" "zones w2"]
          zm_remove_session_heap(2) [of a "heap w2" "zones w2"] world_ok_session [OF w2]
        by (metis session_ok_ops(7))
      moreover have "zones_ok (snd (zm_remove_session a (heap w2, zones w2)))"
        using w2 by (intro zm_remove_session_ok) (simp add: world_ok_def)
      ultimately have "world_ok c w3" using w2 by (simp add: w3_def world_ok_def split_beta Let_def)
      then have "world_ok c (pool_release_session a w3)" by (rule pool_release_session_ok)
      moreover have "remove_session sid w = pool_release_session a w3"
        unfolding remove_session_def w3_def w2_def Pair Some by (simp only: Let_def prod.case option.case)
      ultimately show ?thesis by simp
    qed
  qed
qed

lemma close_session_ok:
  assumes "world_ok c w"
  shows "world_ok c (close_session a w)"
proof (cases rule: close_session_cases [of a w])
  case closes
  let ?w1 = "upd a (\<lambda>s. s\<lparr>state := Closed, login_timer := None, socket := None, life_state := LifeClosed\<rparr>) w"
  have "world_ok c ?w1" using assms by (intro world_ok_upd_all) auto
  then have "world_ok c (if data_handler_alive w then remove_session (session_id (heap w a)) ?w1 else ?w1)"
    by (simp add: remove_session_ok)
  then show ?thesis unfolding closes(2) Let_def by (intro world_ok_upd_all) auto
qed (use assms in simp)

subsection \<open>Writing, tasks and timers keep the invariant\<close>

lemma do_write_queue_ok: "world_ok c w \<Longrightarrow> world_ok c (do_write_queue a w)"
  by (auto simp: do_write_queue_def Let_def split: list.split intro!: world_ok_upd_all
      intro: world_ok_cong)

lemma session_ok_enqueue:
  assumes "session_ok c s" "0 < config_size c ''max_write_queue_size'' 100"
  shows "session_ok c (fst (enqueue_write c msg s))"
  using assms enqueue_write_length [OF assms(2), of s msg]
  by (auto simp: session_ok_def enqueue_write_def Let_def)

lemma write_job_ok:
  assumes "world_ok c w"
  shows "world_ok c (write_job c a msg w)"
proof -
  have "session_ok c (fst (enqueue_write c msg (heap w a)))"
    using assms by (intro session_ok_enqueue) (auto simp: world_ok_def)
  then have "world_ok c (upd a (\<lambda>_. fst (enqueue_write c msg (heap w a))) w)"
    using assms by (intro world_ok_upd) auto
  then show ?thesis
    by (auto simp: write_job_def split_beta Let_def intro!: do_write_queue_ok world_ok_upd_all close_session_ok)
qed

lemma dispatch_job_ok:
  "world_ok c w \<Longrightarrow> world_ok c (run w) \<Longrightarrow> world_ok c (dispatch_job st j run w)"
  by (auto simp: dispatch_job_def post_job_def intro: world_ok_cong)

lemma post_write_ok: "world_ok c w \<Longrightarrow> world_ok c (post_write c a msg w)"
  unfolding post_write_def by (intro dispatch_job_ok write_job_ok)

lemma on_write_complete_ok: "world_ok c w \<Longrightarrow> world_ok c (on_write_complete ec a g w)"
  by (auto simp: on_write_complete_def intro!: close_session_ok do_write_queue_ok world_ok_upd_all)
     (simp add: session_ok_def le_diff_conv)

lemma run_next_task_ok:
  assumes "world_ok c w"
  shows "world_ok c (run_next_task a w)"
proof (cases "task_queue (heap w a)")
  case Nil
  then show ?thesis using assms by (auto simp: run_next_task_def intro!: world_ok_upd_all)
next
  case (Cons t rest)
  have "session_ok c ((heap w a)\<lparr>task_queue := rest\<rparr>)"
    using world_ok_session [OF assms, of a] Cons by (simp add: session_ok_def)
  then have "world_ok c (upd a (\<lambda>s. s\<lparr>task_queue := rest\<rparr>) w)" using assms by (intro world_ok_upd)
  then show ?thesis using Cons by (cases t) (auto simp: run_next_task_def Let_def intro: world_ok_cong)
qed

lemma task_job_ok:
  assumes "world_ok c w"
  shows "world_ok c (task_job c a fn w)"
proof (cases "snd (enqueue_task c fn (heap w a))")
  case True
  then show ?thesis using assms by (simp add: task_job_def split_beta Let_def close_session_ok)
next
  case False
  then have "session_ok c (fst (enqueue_task c fn (heap w a)))"
    using world_ok_session [OF assms, of a] by (auto simp: enqueue_task_def session_ok_def)
  then have "world_ok c (upd a (\<lambda>_. fst (enqueue_task c fn (heap w a))) w)"
    using assms by (intro world_ok_upd) auto
  then show ?thesis using False
    by (auto simp: task_job_def split_beta Let_def intro!: run_next_task_ok world_ok_upd_all)
qed

lemma post_task_ok: "world_ok c w \<Longrightarrow> world_ok c (post_task c a fn w)"
  unfolding post_task_def by (intro dispatch_job_ok task_job_ok)

lemma do_read_ok: "world_ok c w \<Longrightarrow> world_ok c (do_read c a w)"
  by (auto simp: do_read_def try_acquire_read_def get_handler_safe_def Let_def
      intro!: post_task_ok close_session_ok world_ok_upd session_ok_ops dest: world_ok_session)

lemma start_login_timeout_ok: "world_ok c w \<Longrightarrow> world_ok c (start_login_timeout c' now a w)"
  by (auto simp: start_login_timeout_def intro!: world_ok_upd_all)

lemma on_login_timer_ok: "world_ok c w \<Longrightarrow> world_ok c (on_login_timer c a w)"
  by (auto simp: on_login_timer_def Let_def intro!: close_session_ok post_write_ok world_ok_upd_all)

lemma session_start_ok: "world_ok c w \<Longrightarrow> world_ok c (session_start c now a w)"
  by (simp add: session_start_def start_login_timeout_ok do_read_ok)

lemmas world_ok_intros =
  close_session_ok post_write_ok do_read_ok session_start_ok on_login_timer_ok on_write_complete_ok
  write_job_ok task_job_ok run_next_task_ok remove_session_ok

subsection \<open>What closing does\<close>

lemma erase_endpoint_of_map:
  "um_find (udp_endpoint_to_session (erase_endpoint_of ep a w)) ep \<noteq> Some a"
  "ep' \<noteq> ep \<Longrightarrow> um_find (udp_endpoint_to_session (erase_endpoint_of ep a w)) ep' = um_find (udp_endpoint_to_session w) ep'"
  by (auto simp: erase_endpoint_of_def um_find_erase split: option.split)

text \<open>
  A registered session on its way out: the tables after \<open>remove_session\<close>, for a session
  that the manager files under its own id and that the pool has handed out.
\<close>

lemma remove_session_effect:
  assumes "manager_ok (smgr w)" "find_session (smgr w) sid = Some a" "sid = session_id (heap w a)"
    and "pool_set w" "pool_index (pool (spool w)) a = Some i" "i \<notin> available_index_set (spool w)"
  defines "w' \<equiv> remove_session sid w"
  shows "find_session (smgr w') = (find_session (smgr w))(sid := None)"
    and "udp_endpoint (heap w a) = Some ep \<Longrightarrow> um_find (udp_endpoint_to_session w') ep \<noteq> Some a"
    and "-1 < zone_id (heap w a) \<Longrightarrow> um_find (zones w') (zone_id (heap w a)) = Some z \<Longrightarrow> um_find (sessions z) sid = None"
    and "reusable_indices (spool w') = reusable_indices (spool w) @ [i]"
    and "available_index_set (spool w') = insert i (available_index_set (spool w))"
    and "b \<noteq> a \<Longrightarrow> heap w' b = heap w b"
    and "socket (heap w' a) = socket (heap w a) \<and> state (heap w' a) = state (heap w a) \<and> udp_token_issued (heap w' a) = 0"
    and "tcp_out w' = tcp_out w"
    and "smgr w' = erase_session sid (smgr w) \<and> pool (spool w') = pool (spool w) \<and> pool_set w'
      \<and> data_handler_alive w' = data_handler_alive w"
proof -
  define w0 where "w0 = w\<lparr>smgr := erase_session sid (smgr w)\<rparr>"
  define w1 where "w1 = (case udp_endpoint (heap w0 a) of Some ep \<Rightarrow> erase_endpoint_of ep a w0 | None \<Rightarrow> w0)"
  define w2 where "w2 = upd a clear_udp_token w1"
  define w3 where "w3 = (if -1 < zone_id (heap w2 a)
      then let (h, zs) = zm_remove_session a (heap w2, zones w2) in w2\<lparr>heap := h, zones := zs\<rparr> else w2)"
  have w': "w' = pool_release_session a w3"
    unfolding w'_def remove_session_def w3_def w2_def w1_def w0_def mgr_remove_session_def assms(2)
    by (simp only: Let_def prod.case option.case)
  have h1: "data_handler_alive w1 = data_handler_alive w" "heap w1 = heap w" "zones w1 = zones w" "spool w1 = spool w" "pool_set w1 = pool_set w" "smgr w1 = smgr w0"
    "tcp_out w1 = tcp_out w"
    by (simp_all add: w1_def w0_def split: option.split)
  have h2: "heap w2 a = clear_udp_token (heap w a)" "b \<noteq> a \<Longrightarrow> heap w2 b = heap w b" for b by (simp_all add: w2_def h1)
  have z2: "zone_id (heap w2 a) = zone_id (heap w a)" "session_id (heap w2 a) = sid" "zones w2 = zones w"
    by (simp_all add: h2 clear_udp_token_def assms(3) w2_def h1)
  have f3: "data_handler_alive w3 = data_handler_alive w" "spool w3 = spool w" "pool_set w3" "smgr w3 = smgr w0" "tcp_out w3 = tcp_out w"
    "udp_endpoint_to_session w3 = udp_endpoint_to_session w1"
    by (simp_all add: w3_def w2_def h1 assms(4) split_beta Let_def)
  have h3: "b \<noteq> a \<Longrightarrow> heap w3 b = heap w b" for b
    using zm_remove_session_heap(1) by (simp add: w3_def split_beta Let_def h2)
  have s3: "heap w3 a = heap w2 a \<or> heap w3 a = (heap w2 a)\<lparr>zone_id := -1, zone := None\<rparr>"
    using zm_remove_session_heap(2) [of a "heap w2" "zones w2"] by (simp add: w3_def split_beta Let_def)
  have rel: "pool_release a (spool w3, heap w3) =
      (False, (spool w)\<lparr>reusable_indices := reusable_indices (spool w) @ [i],
          available_index_set := insert i (available_index_set (spool w))\<rparr>,
       (heap w3)(a := set_active False (mark_released (session_cleanup (heap w3 a)))))"
    by (simp add: pool_release_def f3 assms(5,6))
  have w'f: "w' = w3\<lparr>spool := (spool w)\<lparr>reusable_indices := reusable_indices (spool w) @ [i],
          available_index_set := insert i (available_index_set (spool w))\<rparr>,
       heap := (heap w3)(a := set_active False (mark_released (session_cleanup (heap w3 a))))\<rparr>"
    unfolding w' pool_release_session_def rel by (simp add: f3)
  show "find_session (smgr w') = (find_session (smgr w))(sid := None)"
    using sm.find_fun_erase [OF assms(1)] by (simp add: w'f f3 w0_def)
  show "um_find (udp_endpoint_to_session w') ep \<noteq> Some a" if "udp_endpoint (heap w a) = Some ep"
    using that erase_endpoint_of_map(1) by (simp add: w'f f3 w1_def w0_def)
  show "um_find (sessions z) sid = None" if "-1 < zone_id (heap w a)" "um_find (zones w') (zone_id (heap w a)) = Some z"
  proof -
    have "zones w' = snd (zm_remove_session a (heap w2, zones w))"
      using that(1) z2 by (simp add: w'f w3_def split_beta Let_def)
    then show ?thesis using that z2
      by (auto simp: zm_remove_session_def get_zone_def zone_remove_session_def um_find_put um_find_erase Let_def
          split: option.splits)
  qed
  show "reusable_indices (spool w') = reusable_indices (spool w) @ [i]"
    and "available_index_set (spool w') = insert i (available_index_set (spool w))"
    and "tcp_out w' = tcp_out w"
    and "smgr w' = erase_session sid (smgr w) \<and> pool (spool w') = pool (spool w) \<and> pool_set w'
      \<and> data_handler_alive w' = data_handler_alive w" by (simp_all add: w'f f3 w0_def)
  show "heap w' b = heap w b" if "b \<noteq> a" using that h3 by (simp add: w'f)
  show "socket (heap w' a) = socket (heap w a) \<and> state (heap w' a) = state (heap w a) \<and> udp_token_issued (heap w' a) = 0"
    using s3 by (auto simp: w'f h2 set_active_def mark_released_def session_cleanup_def clear_udp_token_def)
qed

text \<open>The same for \<open>close_session\<close>.\<close>

lemma close_session_effect:
  assumes "manager_ok (smgr w)" "find_session (smgr w) sid = Some a" "sid = session_id (heap w a)"
    and "pool_set w" "pool_index (pool (spool w)) a = Some i" "i \<notin> available_index_set (spool w)"
    and "life_state (heap w a) = Idle \<or> life_state (heap w a) = Active" "data_handler_alive w"
  defines "w' \<equiv> close_session a w"
  shows "smgr w' = erase_session sid (smgr w)"
    and "udp_endpoint (heap w a) = Some ep \<Longrightarrow> um_find (udp_endpoint_to_session w') ep \<noteq> Some a"
    and "-1 < zone_id (heap w a) \<Longrightarrow> um_find (zones w') (zone_id (heap w a)) = Some z \<Longrightarrow> um_find (sessions z) sid = None"
    and "reusable_indices (spool w') = reusable_indices (spool w) @ [i]"
    and "available_index_set (spool w') = insert i (available_index_set (spool w))"
    and "b \<noteq> a \<Longrightarrow> heap w' b = heap w b"
    and "socket (heap w' a) = None \<and> state (heap w' a) = Closed \<and> udp_token_issued (heap w' a) = 0"
    and "\<exists>s. heap w' a = session_cleanup s"
    and "pool (spool w') = pool (spool w) \<and> pool_set w' \<and> data_handler_alive w'"
proof -
  define w1 where "w1 = upd a (\<lambda>s. s\<lparr>state := Closed, login_timer := None, socket := None, life_state := LifeClosed\<rparr>) w"
  have w': "w' = upd a session_cleanup (remove_session sid w1)"
  proof (cases rule: close_session_cases [of a w])
    case closes
    then show ?thesis using assms(3,8) by (simp add: w'_def w1_def)
  qed (use assms(7) in auto)
  have "manager_ok (smgr w1)" "find_session (smgr w1) sid = Some a" "sid = session_id (heap w1 a)"
    "pool_set w1" "pool_index (pool (spool w1)) a = Some i" "i \<notin> available_index_set (spool w1)"
    using assms by (simp_all add: w1_def)
  note e = remove_session_effect [OF this]
  show "smgr w' = erase_session sid (smgr w)"
    and "pool (spool w') = pool (spool w) \<and> pool_set w' \<and> data_handler_alive w'"
    using e(9) assms(8) by (simp_all add: w' w1_def)
  show "um_find (udp_endpoint_to_session w') ep \<noteq> Some a" if "udp_endpoint (heap w a) = Some ep"
    using e(2) [of ep] that by (simp add: w' w1_def)
  show "um_find (sessions z) sid = None" if "-1 < zone_id (heap w a)" "um_find (zones w') (zone_id (heap w a)) = Some z"
    using e(3) [of z] that by (simp add: w' w1_def)
  show "reusable_indices (spool w') = reusable_indices (spool w) @ [i]"
    and "available_index_set (spool w') = insert i (available_index_set (spool w))"
    using e(4,5) by (simp_all add: w' w1_def)
  show "heap w' b = heap w b" if "b \<noteq> a" using e(6) [of b] that by (simp add: w' w1_def)
  show "socket (heap w' a) = None \<and> state (heap w' a) = Closed \<and> udp_token_issued (heap w' a) = 0"
    using e(7) by (simp add: w' w1_def session_cleanup_def)
  show "\<exists>s. heap w' a = session_cleanup s" by (auto simp: w')
qed

subsection \<open>The order of outgoing messages\<close>

datatype write_event = Post string | Complete

text \<open>
  A session that is written to from its strand: messages are posted and writes complete
  without error, in any order; a completion needs a write, that is, a queue that is not
  empty.
\<close>

fun write_run :: "app_context \<Rightarrow> addr \<Rightarrow> write_event list \<Rightarrow> world \<Rightarrow> world" where
  "write_run c a [] w = w"
| "write_run c a (Post m # es) w = write_run c a es (write_job c a m w)"
| "write_run c a (Complete # es) w =
     (if write_queue (heap w a) = [] then write_run c a es w
      else write_run c a es (on_write_complete False a (generation (heap w a)) w))"

definition posts :: "write_event list \<Rightarrow> string list" where
  "posts es = List.map_filter (\<lambda>e. case e of Post m \<Rightarrow> Some m | Complete \<Rightarrow> None) es"

lemma posts_simps [simp]: "posts [] = []" "posts (Post m # es) = m # posts es" "posts (Complete # es) = posts es"
  by (simp_all add: posts_def map_filter_def)

lemma write_job_not_full:
  assumes "length (write_queue (heap w a)) < config_size c ''max_write_queue_size'' 100" "state (heap w a) \<noteq> Closed"
  shows "write_queue (heap (write_job c a m w) a) = write_queue (heap w a) @ [m]
    \<and> tcp_out (write_job c a m w) = tcp_out w @ (if write_queue (heap w a) = [] then [(socket (heap w a), frame_message m)] else [])
    \<and> state (heap (write_job c a m w) a) = state (heap w a) \<and> socket (heap (write_job c a m w) a) = socket (heap w a)"
  using assms by (auto simp: write_job_def enqueue_write_def do_write_queue_def Let_def)

lemma on_write_complete_next:
  assumes "write_queue (heap w a) = x # q" "state (heap w a) \<noteq> Closed"
  defines "w' \<equiv> on_write_complete False a (generation (heap w a)) w"
  shows "write_queue (heap w' a) = q
    \<and> tcp_out w' = tcp_out w @ (case q of [] \<Rightarrow> [] | y # _ \<Rightarrow> [(socket (heap w a), frame_message y)])
    \<and> state (heap w' a) = state (heap w a) \<and> socket (heap w' a) = socket (heap w a)"
  using assms by (auto simp: on_write_complete_def do_write_queue_def Let_def split: list.split)

lemma write_run_order:
  assumes "state (heap w a) \<noteq> Closed" "write_queue (heap w a) = q"
    and "length (q @ posts es) \<le> config_size c ''max_write_queue_size'' 100"
  shows "\<exists>n \<le> length (q @ posts es).
     write_queue (heap (write_run c a es w) a) = drop n (q @ posts es)
     \<and> tcp_out (write_run c a es w) = tcp_out w @ map (\<lambda>m. (socket (heap w a), frame_message m))
          (if q = [] then take (Suc n) (posts es) else take n (tl q @ posts es))"
  using assms
proof (induction es arbitrary: w q)
  case Nil
  then show ?case by (intro exI [of _ 0]) auto
next
  case (Cons e es)
  show ?case
  proof (cases e)
    case (Post m)
    let ?w = "write_job c a m w"
    have j: "write_queue (heap ?w a) = q @ [m]"
      "tcp_out ?w = tcp_out w @ (if q = [] then [(socket (heap w a), frame_message m)] else [])"
      "state (heap ?w a) = state (heap w a)" "socket (heap ?w a) = socket (heap w a)"
      using write_job_not_full [of w a c m] Cons.prems Post by auto
    obtain n where n: "n \<le> length (q @ m # posts es)"
      "write_queue (heap (write_run c a es ?w) a) = drop n (q @ m # posts es)"
      "tcp_out (write_run c a es ?w) = tcp_out ?w @ map (\<lambda>m. (socket (heap ?w a), frame_message m)) (take n (tl (q @ [m]) @ posts es))"
      using Cons.IH [of ?w "q @ [m]"] Cons.prems Post j by auto
    have "q \<noteq> [] \<Longrightarrow> tl (q @ [m]) @ posts es = tl q @ m # posts es" by (cases q) auto
    then show ?thesis using n j Post
      by (cases "q = []"; intro exI [of _ n]) (simp_all del: take_append drop_append)
  next
    case Complete
    show ?thesis
    proof (cases q)
      case Nil
      then show ?thesis using Cons.IH [of w "[]"] Cons.prems Complete by auto
    next
      case (Cons x q')
      let ?w = "on_write_complete False a (generation (heap w a)) w"
      have j: "write_queue (heap ?w a) = q'"
        "tcp_out ?w = tcp_out w @ (case q' of [] \<Rightarrow> [] | y # _ \<Rightarrow> [(socket (heap w a), frame_message y)])"
        "state (heap ?w a) = state (heap w a)" "socket (heap ?w a) = socket (heap w a)"
        using on_write_complete_next [of w a x q'] Cons.prems Cons by auto
      obtain n where n: "n \<le> length (q' @ posts es)"
        "write_queue (heap (write_run c a es ?w) a) = drop n (q' @ posts es)"
        "tcp_out (write_run c a es ?w) = tcp_out ?w @ map (\<lambda>m. (socket (heap ?w a), frame_message m))
           (if q' = [] then take (Suc n) (posts es) else take n (tl q' @ posts es))"
        using Cons.IH [of ?w q'] Cons.prems Complete Cons j by auto
      show ?thesis using n j Complete Cons Cons.prems
        by (intro exI [of _ "Suc n"]) (auto split: list.split)
    qed
  qed
qed

subsection \<open>Start-up\<close>

lemma pool_new_heap:
  "snd (pool_new now n m first st h) a = h a \<or> (\<exists>k. snd (pool_new now n m first st h) a = session_new now (-1) (SessStrand k))"
proof -
  have "fold (\<lambda>i h. h(first + i := session_new now (-1) (SessStrand (st + i)))) is h a = h a
      \<or> (\<exists>k. fold (\<lambda>i h. h(first + i := session_new now (-1) (SessStrand (st + i)))) is h a = session_new now (-1) (SessStrand k))" for "is"
  proof (induction "is" arbitrary: h)
    case (Cons i "is")
    from Cons.IH [of "h(first + i := session_new now (-1) (SessStrand (st + i)))"] show ?case
      by (cases "a = first + i") auto
  qed simp
  then show ?thesis by (simp add: pool_new_def)
qed

lemma server_new_ok:
  assumes "server_new c now hw sec = Some w" "0 < config_size c ''max_write_queue_size'' 100"
  shows "world_ok c w"
proof -
  let ?h = "snd (pool_new now (config_size c ''session_pool_size'' 1024) (config_size c ''max_session_pool_size'' 10000)
      0 0 (\<lambda>_. session_new now (-1) (SessStrand 0)))"
  have "session_ok c (?h a)" for a
    using pool_new_heap [of now "config_size c ''session_pool_size'' 1024" "config_size c ''max_session_pool_size'' 10000"
        0 0 "\<lambda>_. session_new now (-1) (SessStrand 0)" a] session_ok_new by metis
  moreover have "heap w = ?h" "smgr w = manager_new (max 4 (hw * 2))"
    "zones w = zone_manager_new c (config_value c ''max_zone_count'' 10)" "udp_endpoint_to_session w = []"
    using assms(1) by (auto simp: server_new_def split_beta Let_def split: if_splits)
  moreover have "pool_fits c (spool w) (next_addr w)"
    using assms(1) by (auto simp: server_new_def pool_new_def pool_fits_def split_beta Let_def split: if_splits)
  ultimately show ?thesis using assms(2)
    by (simp add: world_ok_def manager_new_ok zone_manager_new_ok)
qed

section \<open>Properties\<close>

text \<open>
  C5: Closing a session takes all of it down. For a session that the manager files under
  its id and that the pool has handed out, after \<open>close_session\<close> the manager does not know
  the id any more, the UDP endpoint it had does not lead to it, the zone it was in does not
  list it, the pool can hand it out again, its socket is closed, its queues, nickname and
  token are gone, and no other session was touched.
\<close>

theorem close_session_takes_down:
  assumes "manager_ok (smgr w)" "find_session (smgr w) sid = Some a" "sid = session_id (heap w a)"
    and "pool_set w" "pool_index (pool (spool w)) a = Some i" "i \<notin> available_index_set (spool w)"
    and "life_state (heap w a) = Idle \<or> life_state (heap w a) = Active" "data_handler_alive w"
    and "w' = close_session a w"
  shows "find_session (smgr w') = (find_session (smgr w))(sid := None)
    \<and> (\<forall>ep. udp_endpoint (heap w a) = Some ep \<longrightarrow> um_find (udp_endpoint_to_session w') ep \<noteq> Some a)
    \<and> (\<forall>z. -1 < zone_id (heap w a) \<and> um_find (zones w') (zone_id (heap w a)) = Some z \<longrightarrow> um_find (sessions z) sid = None)
    \<and> i \<in> set (reusable_indices (spool w')) \<and> i \<in> available_index_set (spool w')
    \<and> socket (heap w' a) = None \<and> state (heap w' a) = Closed \<and> life_state (heap w' a) = Idle
    \<and> nickname (heap w' a) = [] \<and> udp_token (heap w' a) = [] \<and> udp_token_issued (heap w' a) = 0
    \<and> udp_endpoint (heap w' a) = None
    \<and> write_queue (heap w' a) = [] \<and> task_queue (heap w' a) = [] \<and> login_timer (heap w' a) = None
    \<and> (\<forall>b. b \<noteq> a \<longrightarrow> heap w' b = heap w b)"
proof -
  note e = close_session_effect [OF assms(1-8)]
  obtain s where s: "heap w' a = session_cleanup s" using e(8) assms(9) by auto
  show ?thesis unfolding s assms(9)
    using e(2-7) sm.find_fun_erase [OF assms(1), of sid] s
    by (simp add: e(1) session_cleanup_def assms(9))
qed

text \<open>
  A client receives what is posted to its session, in order. Starting with an empty
  queue on an open session, whatever the interleaving of posts with completed writes, and
  as long as no more is posted than the queue may hold, the frames handed to the socket are
  those of the first posted messages, in order, each once, and the rest is still queued;
  when the queue has drained, every posted message was handed over.
\<close>

theorem posted_messages_in_order:
  assumes "state (heap w a) \<noteq> Closed" "write_queue (heap w a) = []"
    and "length (posts es) \<le> config_size c ''max_write_queue_size'' 100"
  shows "\<exists>n \<le> length (posts es).
     write_queue (heap (write_run c a es w) a) = drop n (posts es)
     \<and> tcp_out (write_run c a es w) =
         tcp_out w @ map (\<lambda>m. (socket (heap w a), frame_message m)) (take (Suc n) (posts es))"
  using write_run_order [OF assms(1,2)] assms(3) by auto

theorem posted_messages_in_order_witness:
  "\<exists>c w n. write_queue (heap (write_run c 0 [Post ''a'', Post ''b'', Complete, Post ''c''] w) 0)
        = drop n [''a'', ''b'', ''c'']
     \<and> tcp_out (write_run c 0 [Post ''a'', Post ''b'', Complete, Post ''c''] w)
        = tcp_out w @ map (\<lambda>m. (socket (heap w 0), frame_message m)) (take (Suc n) [''a'', ''b'', ''c''])"
proof -
  define c where "c = \<lparr>config = \<lambda>_. Some 3, config_text = \<lambda>_. None, json_parse = \<lambda>_. Inl Parse_error, json_dump = \<lambda>_. []\<rparr>"
  obtain w where w: "server_new c 0 2 ''key'' = Some w"
    by (simp add: server_new_def split_beta Let_def)
  have "heap w 0 = session_new 0 (-1) (SessStrand 0)"
    using w by (auto simp: server_new_def c_def pool_new_def config_size_def config_value_def size_t_of_int_def
        split_beta Let_def numeral_eq_Suc)
  then have "state (heap w 0) \<noteq> Closed" "write_queue (heap w 0) = []" by (simp_all add: session_new_def)
  moreover have "length (posts [Post ''a'', Post ''b'', Complete, Post ''c'']) \<le> config_size c ''max_write_queue_size'' 100"
    by (simp add: c_def config_size_def config_value_def size_t_of_int_def)
  ultimately show ?thesis using posted_messages_in_order [of w 0 "[Post ''a'', Post ''b'', Complete, Post ''c'']" c]
    by (simp del: write_run.simps) blast
qed

theorem close_session_takes_down_witness:
  "\<exists>w a. find_session (smgr w) 5 = Some a \<and> socket (heap w a) = Some 9
     \<and> find_session (smgr (close_session a w)) 5 = None \<and> socket (heap (close_session a w) a) = None
     \<and> 0 \<in> available_index_set (spool (close_session a w))"
proof -
  define c where "c = \<lparr>config = \<lambda>_. Some 1, config_text = \<lambda>_. None, json_parse = \<lambda>_. Inl Parse_error, json_dump = \<lambda>_. []\<rparr>"
  obtain w0 where w0: "server_new c 0 2 ''key'' = Some w0"
    by (simp add: server_new_def split_beta Let_def)
  define w where "w = (upd 0 (\<lambda>s. s\<lparr>session_id := 5, socket := Some 9\<rparr>) w0)\<lparr>smgr := put_session 5 0 (manager_new 4),
      spool := \<lparr>pool = [0], max_size = 1, reusable_indices = [], available_index_set = {}\<rparr>\<rparr>"
  have "heap w0 0 = session_new 0 (-1) (SessStrand 0)" "pool_set w0" "data_handler_alive w0"
    using w0 by (auto simp: server_new_def c_def pool_new_def config_size_def config_value_def size_t_of_int_def
        split_beta Let_def numeral_eq_Suc)
  then have a: "manager_ok (smgr w)" "find_session (smgr w) 5 = Some 0" "5 = session_id (heap w 0)"
    "pool_set w" "pool_index (pool (spool w)) 0 = Some 0" "0 \<notin> available_index_set (spool w)"
    "life_state (heap w 0) = Idle \<or> life_state (heap w 0) = Active" "data_handler_alive w" "socket (heap w 0) = Some 9"
    by (simp_all add: w_def put_session_ok manager_new_ok find_put_session session_new_def)
  from close_session_takes_down [OF a(1-8) refl] a(2,9) show ?thesis by (intro exI [of _ w] exI [of _ 0]) simp
qed

end
