(* ===== verification/Handler.thy ===== *)
theory Handler
  imports World
begin

text \<open>
  \<^verbatim>\<open>DataHandler\<close> and the closing operations of \<^verbatim>\<open>SessionManager\<close>: registration,
  broadcasts, the periodic checks that close idle, unauthenticated and inactive sessions,
  and the table of misbehaving UDP senders. The results say exactly whom a broadcast goes
  to and exactly which sessions each check closes.
\<close>

section \<open>Definitions\<close>

subsection \<open>Registration\<close>

definition add_session :: "addr \<Rightarrow> world \<Rightarrow> world" where
  "add_session a w =
     (let (replaced, m) = mgr_add_session (heap w) a (smgr w); w1 = w\<lparr>smgr := m\<rparr> in
      case replaced of
        Some prev \<Rightarrow> if closed_flag (heap w1 prev) then w1 else close_session prev w1
      | None \<Rightarrow> w1)"

definition other_login_msg :: string where
  "other_login_msg = ''{\"type\":\"error\",\"msg\":\"'' @
     utf8 [235, 139, 164, 235, 165, 184, 32, 234, 179, 179, 236, 151, 144, 236, 132, 156, 32, 235, 161, 156,
           234, 183, 184, 236, 157, 184, 235, 144, 152, 236, 150, 180, 32, 234, 184, 176, 236, 161, 180, 32,
           236, 151, 176, 234, 178, 176, 236, 157, 180, 32, 236, 162, 133, 235, 163, 140, 235, 144, 169, 235,
           139, 136, 235, 139, 164, 46] @ ''\"}'' @ newline"

definition register_nickname :: "app_context \<Rightarrow> string \<Rightarrow> addr \<Rightarrow> world \<Rightarrow> world" where
  "register_nickname c nick a w =
     (let w1 = (case find_session_by_nickname (alive w) (smgr w) nick of
                  Some prev \<Rightarrow> if prev \<noteq> a then close_session prev (post_write c prev other_login_msg w) else w
                | None \<Rightarrow> w)
      in w1\<lparr>smgr := set_nickname_owner nick a (smgr w1)\<rparr>)"

subsection \<open>Broadcasts\<close>

definition broadcast_targets :: "int \<Rightarrow> world \<Rightarrow> addr list" where
  "broadcast_targets sender w =
     filter (\<lambda>b. session_id (heap w b) \<noteq> sender \<and> nickname (heap w b) \<noteq> []) (all_sessions (smgr w))"

definition broadcast :: "app_context \<Rightarrow> string \<Rightarrow> int \<Rightarrow> world \<Rightarrow> world" where
  "broadcast c msg sender w = fold (\<lambda>b. post_write c b msg) (broadcast_targets sender w) w"

definition zone_targets :: "int \<Rightarrow> int \<Rightarrow> world \<Rightarrow> addr list" where
  "zone_targets zid sender w =
     filter (\<lambda>b. session_id (heap w b) \<noteq> sender \<and> nickname (heap w b) \<noteq> [] \<and> zone_id (heap w b) = zid)
       (all_sessions (smgr w))"

definition broadcast_zone_tcp :: "app_context \<Rightarrow> string \<Rightarrow> int \<Rightarrow> int \<Rightarrow> world \<Rightarrow> world" where
  "broadcast_zone_tcp c msg zid sender w = fold (\<lambda>b. post_write c b msg) (zone_targets zid sender w) w"

definition broadcast_strict :: "app_context \<Rightarrow> string \<Rightarrow> world \<Rightarrow> world" where
  "broadcast_strict c msg w = fold (\<lambda>b. post_write c b msg) (all_sessions (smgr w)) w"

subsection \<open>Periodic checks\<close>

definition keepalive_timeout :: time where
  "keepalive_timeout = seconds 60"

definition keepalive_expired :: "time \<Rightarrow> session \<Rightarrow> bool" where
  "keepalive_expired now s \<longleftrightarrow> nickname_registered s \<and> keepalive_timeout < now - last_alive_time s"

definition do_keepalive_check :: "time \<Rightarrow> world \<Rightarrow> world" where
  "do_keepalive_check now w =
     fold close_session (filter (\<lambda>a. keepalive_expired now (heap w a)) (all_sessions (smgr w))) w"

definition expire_endpoint :: "addr \<Rightarrow> world \<Rightarrow> world" where
  "expire_endpoint a w =
     (if closed_flag (heap w a)
      then let w1 = (case udp_endpoint (heap w a) of
                       Some ep \<Rightarrow> w\<lparr>udp_endpoint_to_session := um_erase ep (udp_endpoint_to_session w)\<rparr>
                     | None \<Rightarrow> w)
           in upd a (\<lambda>s. clear_udp_token (clear_udp_endpoint s)) w1
      else w)"

text \<open>For a session whose TCP side is open, an idle UDP endpoint is only logged.\<close>

definition expire_stale_udp_endpoints :: "world \<Rightarrow> world" where
  "expire_stale_udp_endpoints w = fold expire_endpoint (all_sessions (smgr w)) w"

text \<open>
  \<^verbatim>\<open>std::sort\<close> by the time of the last sign of life, oldest first; the order of equal
  times, which C++ leaves open, is that of the table.
\<close>

definition unauthenticated :: "session \<Rightarrow> bool" where
  "unauthenticated s \<longleftrightarrow> state s = Handshaking \<or> state s = LoginWait"

definition cleanup_unauth_sessions :: "nat \<Rightarrow> world \<Rightarrow> world" where
  "cleanup_unauth_sessions max_unauth w =
     (let unauth = filter (\<lambda>a. unauthenticated (heap w a)) (all_sessions (smgr w)) in
      if max_unauth < length unauth
      then fold close_session
             (take (length unauth - max_unauth) (sort_key (\<lambda>a. last_alive_time (heap w a)) unauth)) w
      else w)"

definition cleanup_inactive_sessions :: "time \<Rightarrow> time \<Rightarrow> world \<Rightarrow> world" where
  "cleanup_inactive_sessions now max_idle w =
     fold close_session (inactive_sessions (heap w) now max_idle (smgr w)) w"

text \<open>The handlers of the two periodic timers that act on sessions.\<close>

definition on_keepalive_timer :: "time \<Rightarrow> world \<Rightarrow> world" where
  "on_keepalive_timer now w = expire_stale_udp_endpoints (do_keepalive_check now w)"

definition on_cleanup_timer :: "time \<Rightarrow> world \<Rightarrow> world" where
  "on_cleanup_timer now w = cleanup_inactive_sessions now (seconds 300) w"

subsection \<open>Zones\<close>

definition assign_zone :: "addr \<Rightarrow> int \<Rightarrow> world \<Rightarrow> world" where
  "assign_zone a zid w =
     (let (h, zs) = assign_session_to_zone a zid (heap w, zones w) in w\<lparr>heap := h, zones := zs\<rparr>)"

definition udp_broadcast_zone :: "int \<Rightarrow> string \<Rightarrow> string \<Rightarrow> world \<Rightarrow> world" where
  "udp_broadcast_zone zid msg sender w =
     (case get_zone zid (zones w) of
        Some z \<Rightarrow> dispatch_job (ZoneStrand zid) (ZoneBroadcastJob zid msg sender)
                    (\<lambda>w. w\<lparr>udp_out := udp_out w @ zone_broadcast (heap w) (alive w) msg sender z\<rparr>) w
      | None \<Rightarrow> w)"

subsection \<open>Misbehaving senders\<close>

definition bad_udp_limit :: int where
  "bad_udp_limit = 10"

definition block_time :: time where
  "block_time = seconds 60"

definition endpoint_key :: "endpoint \<Rightarrow> string" where
  "endpoint_key ep = fst ep @ '':'' @ nat_str (snd ep)"

definition register_bad_udp_packet :: "time \<Rightarrow> endpoint \<Rightarrow> world \<Rightarrow> world" where
  "register_bad_udp_packet now ep w =
     (let key = endpoint_key ep; m = bad_udp_map w;
          info = (case um_find m key of
                    None \<Rightarrow> (1, now)
                  | Some (n, first) \<Rightarrow> if block_time < now - first then (1, now) else (n + 1, first))
      in w\<lparr>bad_udp_map := um_put key info m\<rparr>)"

definition is_blocked_udp :: "time \<Rightarrow> endpoint \<Rightarrow> world \<Rightarrow> bool \<times> world" where
  "is_blocked_udp now ep w =
     (let key = endpoint_key ep in
      case um_find (bad_udp_map w) key of
        None \<Rightarrow> (False, w)
      | Some (n, first) \<Rightarrow>
          if block_time < now - first then (False, w\<lparr>bad_udp_map := um_erase key (bad_udp_map w)\<rparr>)
          else (bad_udp_limit \<le> n, w))"

definition getSessionByEndpoint :: "endpoint \<Rightarrow> world \<Rightarrow> addr option" where
  "getSessionByEndpoint ep w =
     (case um_find (udp_endpoint_to_session w) ep of
        Some a \<Rightarrow> if alive w a then Some a else None
      | None \<Rightarrow> None)"

section \<open>Lemmas\<close>

subsection \<open>The invariant is kept\<close>

lemma fold_ok:
  assumes "\<And>x w. world_ok c w \<Longrightarrow> world_ok c (f x w)"
  shows "world_ok c w \<Longrightarrow> world_ok c (fold f xs w)"
  using assms by (induction xs arbitrary: w) auto

lemma world_ok_smgr: "world_ok c w \<Longrightarrow> manager_ok m \<Longrightarrow> world_ok c (w\<lparr>smgr := m\<rparr>)"
  by (simp add: world_ok_def)

lemma world_ok_manager: "world_ok c w \<Longrightarrow> manager_ok (smgr w)"
  by (simp add: world_ok_def)

lemma add_session_ok: "world_ok c w \<Longrightarrow> world_ok c (add_session a w)"
  by (auto simp: add_session_def split_beta Let_def split: option.split
      intro!: close_session_ok world_ok_smgr mgr_add_session_ok dest: world_ok_manager)

lemma register_nickname_ok:
  assumes "world_ok c w"
  shows "world_ok c (register_nickname c nick a w)"
proof -
  have "world_ok c w' \<Longrightarrow> world_ok c (w'\<lparr>smgr := set_nickname_owner nick a (smgr w')\<rparr>)" for w'
    by (auto intro!: world_ok_smgr set_nickname_owner_ok dest: world_ok_manager)
  then show ?thesis using assms
    by (auto simp: register_nickname_def Let_def split: option.split intro: close_session_ok post_write_ok)
qed

lemma broadcast_ok: "world_ok c w \<Longrightarrow> world_ok c (broadcast c msg sender w)"
  unfolding broadcast_def by (rule fold_ok) (auto intro: post_write_ok)

lemma broadcast_zone_tcp_ok: "world_ok c w \<Longrightarrow> world_ok c (broadcast_zone_tcp c msg zid sender w)"
  unfolding broadcast_zone_tcp_def by (rule fold_ok) (auto intro: post_write_ok)

lemma do_keepalive_check_ok: "world_ok c w \<Longrightarrow> world_ok c (do_keepalive_check now w)"
  unfolding do_keepalive_check_def by (rule fold_ok) (auto intro: close_session_ok)

lemma expire_endpoint_ok: "world_ok c w \<Longrightarrow> world_ok c (expire_endpoint a w)"
  by (auto simp: expire_endpoint_def Let_def split: option.split intro!: world_ok_upd_all)
     (auto simp: world_ok_def)

lemma on_keepalive_timer_ok: "world_ok c w \<Longrightarrow> world_ok c (on_keepalive_timer now w)"
  unfolding on_keepalive_timer_def expire_stale_udp_endpoints_def
  by (rule fold_ok) (auto intro: expire_endpoint_ok do_keepalive_check_ok)

lemma on_cleanup_timer_ok: "world_ok c w \<Longrightarrow> world_ok c (on_cleanup_timer now w)"
  unfolding on_cleanup_timer_def cleanup_inactive_sessions_def by (rule fold_ok) (auto intro: close_session_ok)

lemma cleanup_unauth_sessions_ok: "world_ok c w \<Longrightarrow> world_ok c (cleanup_unauth_sessions n w)"
  by (auto simp: cleanup_unauth_sessions_def Let_def intro!: fold_ok close_session_ok)

lemma assign_zone_ok:
  assumes "world_ok c w"
  shows "world_ok c (assign_zone a zid w)"
proof -
  have "session_ok c (fst (assign_session_to_zone a zid (heap w, zones w)) b)" for b
    using assms by (auto simp: assign_session_to_zone_def world_ok_def Let_def split: option.split prod.split)
  moreover have "zones_ok (snd (assign_session_to_zone a zid (heap w, zones w)))"
    using assms by (intro assign_session_to_zone_ok) (simp add: world_ok_def)
  ultimately show ?thesis using assms by (simp add: assign_zone_def world_ok_def split_beta Let_def)
qed

subsection \<open>Closing several sessions\<close>

text \<open>
  The regular state of the tables: every session the manager knows is filed under its own
  id, can be closed, and belongs to the pool, which has it in use.
\<close>

definition filed_ok :: "world \<Rightarrow> bool" where
  "filed_ok w \<longleftrightarrow> manager_ok (smgr w) \<and> pool_set w \<and> data_handler_alive w \<and> distinct (pool (spool w))
     \<and> (\<forall>sid a. find_session (smgr w) sid = Some a \<longrightarrow>
          session_id (heap w a) = sid \<and> life_state (heap w a) \<in> {Idle, Active}
          \<and> (\<exists>i. pool_index (pool (spool w)) a = Some i \<and> i \<notin> available_index_set (spool w)))"

lemma close_filed:
  assumes "filed_ok w" "find_session (smgr w) sid = Some a"
  shows "filed_ok (close_session a w)"
    and "find_session (smgr (close_session a w)) = (find_session (smgr w))(sid := None)"
    and "b \<noteq> a \<Longrightarrow> heap (close_session a w) b = heap w b"
proof -
  have m: "manager_ok (smgr w)" using assms(1) by (simp add: filed_ok_def)
  obtain i where f: "sid = session_id (heap w a)" "pool_set w" "pool_index (pool (spool w)) a = Some i"
    "i \<notin> available_index_set (spool w)" "life_state (heap w a) = Idle \<or> life_state (heap w a) = Active"
    "data_handler_alive w" using assms by (auto simp: filed_ok_def)
  note e = close_session_effect [OF m assms(2) f]
  let ?w = "close_session a w"
  show find: "find_session (smgr ?w) = (find_session (smgr w))(sid := None)"
    using sm.find_fun_erase [OF m] by (simp add: e(1))
  show heap: "heap ?w b = heap w b" if "b \<noteq> a" for b using that by (rule e(6))
  have "session_id (heap ?w b) = k \<and> life_state (heap ?w b) \<in> {Idle, Active}
      \<and> (\<exists>j. pool_index (pool (spool ?w)) b = Some j \<and> j \<notin> available_index_set (spool ?w))"
    if k: "find_session (smgr ?w) k = Some b" for k b
  proof -
    from k have kb: "k \<noteq> sid" "find_session (smgr w) k = Some b" unfolding find by (auto split: if_splits)
    have "session_id (heap w b) = k" using kb(2) assms(1) by (simp add: filed_ok_def)
    with kb(1) f(1) have ba: "b \<noteq> a" by blast
    from kb(2) assms(1) obtain j where j: "pool_index (pool (spool w)) b = Some j" "j \<notin> available_index_set (spool w)"
      and "session_id (heap w b) = k" "life_state (heap w b) \<in> {Idle, Active}"
      by (auto simp: filed_ok_def)
    moreover have "j \<noteq> i" using pool_index_Some [OF j(1)] pool_index_Some [OF f(3)] ba by auto
    ultimately show ?thesis unfolding e(5) heap [OF ba] using e(9) by simp
  qed
  moreover have "manager_ok (smgr ?w)" using erase_session_ok [OF m] e(1) by metis
  moreover have "distinct (pool (spool ?w)) \<and> pool_set ?w \<and> data_handler_alive ?w"
    using e(9) assms(1) by (metis filed_ok_def)
  ultimately show "filed_ok ?w" unfolding filed_ok_def by blast
qed

text \<open>Closing a list of different registered sessions unregisters these and no other.\<close>

lemma close_all_filed:
  assumes "filed_ok w" "distinct as" "set as \<subseteq> ran (find_session (smgr w))"
  shows "filed_ok (fold close_session as w)
    \<and> (\<forall>sid. find_session (smgr (fold close_session as w)) sid =
         (case find_session (smgr w) sid of Some a \<Rightarrow> if a \<in> set as then None else Some a | None \<Rightarrow> None))
    \<and> (\<forall>b. b \<notin> set as \<longrightarrow> heap (fold close_session as w) b = heap w b)"
  using assms
proof (induction as arbitrary: w)
  case Nil
  then show ?case by (auto split: option.split)
next
  case (Cons a as)
  obtain sid where sid: "find_session (smgr w) sid = Some a" using Cons.prems(3) by (auto simp: ran_def)
  note c = close_filed [OF Cons.prems(1) sid]
  have uniq: "k = sid" if "find_session (smgr w) k = Some a" for k
    using that sid Cons.prems(1) by (auto simp: filed_ok_def)
  have "set as \<subseteq> ran (find_session (smgr (close_session a w)))"
  proof
    fix b assume b: "b \<in> set as"
    then obtain k where k: "find_session (smgr w) k = Some b" using Cons.prems(3) by (auto simp: ran_def)
    have "k \<noteq> sid" using b k sid Cons.prems(2) by auto
    then show "b \<in> ran (find_session (smgr (close_session a w)))" using k by (auto simp: c(2) ran_def)
  qed
  with Cons.IH [OF c(1)] Cons.prems(2)
  have IH: "filed_ok (fold close_session as (close_session a w))"
    "\<And>k. find_session (smgr (fold close_session as (close_session a w))) k =
       (case find_session (smgr (close_session a w)) k of Some a \<Rightarrow> if a \<in> set as then None else Some a | None \<Rightarrow> None)"
    "\<And>b. b \<notin> set as \<Longrightarrow> heap (fold close_session as (close_session a w)) b = heap (close_session a w) b"
    by auto
  have "find_session (smgr (fold close_session (a # as) w)) k =
      (case find_session (smgr w) k of Some b \<Rightarrow> if b \<in> set (a # as) then None else Some b | None \<Rightarrow> None)" for k
  proof (cases "k = sid")
    case True
    then show ?thesis using sid by (simp add: IH(2) c(2))
  next
    case False
    then show ?thesis using uniq [of k] by (auto simp: IH(2) c(2) split: option.split)
  qed
  with IH(1,3) c(3) show ?case by simp
qed

lemma all_sessions_distinct:
  assumes "filed_ok w"
  shows "distinct (all_sessions (smgr w))"
proof -
  let ?m = "smgr w"
  have m: "manager_ok ?m" using assms by (simp add: filed_ok_def)
  have inj: "k = k'" if "find_session ?m k = Some a" "find_session ?m k' = Some a" for k k' a
    using that assms by (auto simp: filed_ok_def)
  have "card (set (all_sessions ?m)) = card (dom (find_session ?m))"
  proof -
    have "bij_betw (\<lambda>k. the (find_session ?m k)) (dom (find_session ?m)) (ran (find_session ?m))"
    proof (rule bij_betw_imageI)
      show "inj_on (\<lambda>k. the (find_session ?m k)) (dom (find_session ?m))"
        by (auto simp: inj_on_def intro: inj)
      show "(\<lambda>k. the (find_session ?m k)) ` dom (find_session ?m) = ran (find_session ?m)"
        by (force simp: ran_def dom_def)
    qed
    moreover have "set (all_sessions ?m) = ran (find_session ?m)"
      using all_sessions_iff [OF m] by (auto simp: ran_def)
    ultimately show ?thesis by (simp add: bij_betw_same_card)
  qed
  also have "card (dom (find_session ?m)) = length (all_sessions ?m)"
    by (simp add: length_all_sessions session_count_dom [OF m])
  finally show ?thesis by (rule card_distinct)
qed

lemma ran_all_sessions: "filed_ok w \<Longrightarrow> ran (find_session (smgr w)) = set (all_sessions (smgr w))"
  using all_sessions_iff [of "smgr w"] by (auto simp: filed_ok_def ran_def)

lemma close_filter_filed:
  assumes "filed_ok w"
  shows "find_session (smgr (fold close_session (filter P (all_sessions (smgr w))) w)) sid =
      (case find_session (smgr w) sid of Some a \<Rightarrow> if P a then None else Some a | None \<Rightarrow> None)"
proof -
  have "distinct (filter P (all_sessions (smgr w)))" "set (filter P (all_sessions (smgr w))) \<subseteq> ran (find_session (smgr w))"
    using all_sessions_distinct [OF assms] ran_all_sessions [OF assms] by auto
  note f = close_all_filed [OF assms this, THEN conjunct2, THEN conjunct1, THEN spec, of sid]
  show ?thesis
  proof (cases "find_session (smgr w) sid")
    case None
    then show ?thesis unfolding f by simp
  next
    case (Some a)
    then have "a \<in> set (all_sessions (smgr w))" unfolding ran_all_sessions [OF assms, symmetric] by (rule ranI)
    then show ?thesis unfolding f Some by simp
  qed
qed

lemma filed_ok_example:
  "\<exists>w. filed_ok w \<and> find_session (smgr w) 5 = Some 0 \<and> heap w 0 = s\<lparr>session_id := 5, life_state := Idle\<rparr>
     \<and> cur_strand w = None \<and> posted w = [] \<and> all_sessions (smgr w) = [0]
     \<and> context_ready w \<and> nickname_index (smgr w) = []"
proof -
  define c where "c = \<lparr>config = \<lambda>_. Some 1, config_text = \<lambda>_. None, json_parse = \<lambda>_. Inl Parse_error, json_dump = \<lambda>_. []\<rparr>"
  obtain w0 where w0: "server_new c 0 2 ''key'' = Some w0"
    by (simp add: server_new_def split_beta Let_def)
  define w where "w = (upd 0 (\<lambda>_. s\<lparr>session_id := 5, life_state := Idle\<rparr>) w0)\<lparr>smgr := put_session 5 0 (manager_new 1),
      spool := \<lparr>pool = [0], max_size = 1, reusable_indices = [], available_index_set = {}\<rparr>,
      posted := [], cur_strand := None\<rparr>"
  have w0': "pool_set w0" "data_handler_alive w0" "context_ready w0"
    using w0 by (auto simp: server_new_def split_beta Let_def)
  have "find_session (manager_new 1) k = None" for k
    by (simp add: find_session_def manager_new_def get_shard_def)
  with w0' have "filed_ok w"
    by (auto simp: filed_ok_def w_def put_session_ok manager_new_ok find_put_session split: if_splits)
  moreover have "all_sessions (put_session 5 0 (manager_new 1)) = [0]"
    by (simp add: all_sessions_def put_session_def manager_new_def get_shard_def size_t_of_int_def um_put_def Let_def)
  moreover have "nickname_index (put_session 5 0 (manager_new 1)) = []"
    by (simp add: put_session_def manager_new_def Let_def)
  ultimately show ?thesis
    using w0' by (intro exI [of _ w]) (simp add: w_def find_put_session manager_new_ok)
qed

subsection \<open>Broadcasts\<close>

lemma fold_post_write:
  assumes "\<forall>b \<in> set bs. cur_strand w \<noteq> Some (strand (heap w b))"
  shows "fold (\<lambda>b. post_write c b msg) bs w = w\<lparr>posted := posted w @ map (\<lambda>b. (strand (heap w b), WriteJob b msg)) bs\<rparr>"
  using assms
proof (induction bs arbitrary: w)
  case (Cons b bs)
  have "post_write c b msg w = w\<lparr>posted := posted w @ [(strand (heap w b), WriteJob b msg)]\<rparr>"
    using Cons.prems by (simp add: post_write_def dispatch_job_def post_job_def)
  with Cons show ?case by simp
qed simp

subsection \<open>Misbehaving senders\<close>

fun bad_packets :: "time list \<Rightarrow> endpoint \<Rightarrow> world \<Rightarrow> world" where
  "bad_packets [] ep w = w"
| "bad_packets (t # ts) ep w = bad_packets ts ep (register_bad_udp_packet t ep w)"

lemma bad_packets_count:
  assumes "um_find (bad_udp_map w) (endpoint_key ep) = Some (n, t0)" "\<forall>t \<in> set ts. t - t0 \<le> block_time"
  shows "um_find (bad_udp_map (bad_packets ts ep w)) (endpoint_key ep) = Some (n + int (length ts), t0)"
  using assms
proof (induction ts arbitrary: w n)
  case (Cons t ts)
  have "um_find (bad_udp_map (register_bad_udp_packet t ep w)) (endpoint_key ep) = Some (n + 1, t0)"
    using Cons.prems by (auto simp: register_bad_udp_packet_def um_find_put Let_def)
  from Cons.IH [OF this] Cons.prems(2) show ?case by (simp add: add.assoc add.commute)
qed simp

section \<open>Properties\<close>

text \<open>
  C28: The keepalive check and the inactivity sweep unregister exactly the sessions they
  are meant to: a session stays known under its id exactly when it is not expired (not
  registered, or heard from within 60 seconds; for the sweep, heard from within 300
  seconds).
\<close>

theorem idle_sessions_closed:
  assumes "filed_ok w"
  shows "find_session (smgr (do_keepalive_check now w)) sid =
      (case find_session (smgr w) sid of
         Some a \<Rightarrow> if nickname_registered (heap w a) \<and> seconds 60 < now - last_alive_time (heap w a) then None else Some a
       | None \<Rightarrow> None)
    \<and> find_session (smgr (on_cleanup_timer now w)) sid =
      (case find_session (smgr w) sid of
         Some a \<Rightarrow> if seconds 300 < now - last_alive_time (heap w a) then None else Some a
       | None \<Rightarrow> None)"
  using close_filter_filed [OF assms,
      of "\<lambda>a. nickname_registered (heap w a) \<and> seconds 60 < now - last_alive_time (heap w a)" sid]
    close_filter_filed [OF assms, of "\<lambda>a. seconds 300 < now - last_alive_time (heap w a)" sid]
  by (simp add: do_keepalive_check_def keepalive_expired_def keepalive_timeout_def on_cleanup_timer_def
      cleanup_inactive_sessions_def inactive_sessions_def)

theorem idle_sessions_closed_witness:
  "\<exists>w. find_session (smgr w) 5 = Some 0 \<and> find_session (smgr (do_keepalive_check 61000000000 w)) 5 = None"
proof -
  obtain w where w: "filed_ok w" "find_session (smgr w) 5 = Some 0"
    "heap w 0 = ((session_new 0 1 UdpSendStrand)\<lparr>nickname_registered := True\<rparr>)\<lparr>session_id := 5, life_state := Idle\<rparr>"
    using filed_ok_example by blast
  from idle_sessions_closed [OF w(1), of 61000000000 5] w(2,3) show ?thesis
    by (intro exI [of _ w]) (simp add: session_new_def seconds_def)
qed

text \<open>
  C29: The limit on unauthenticated sessions. After \<open>cleanup_unauth_sessions n\<close> at most \<open>n\<close>
  registered sessions are unauthenticated, no authenticated session was unregistered, and
  every session that was unregistered is at least as old, by its last sign of life, as
  every unauthenticated session that was kept.
\<close>

theorem unauth_sessions_limited:
  assumes "filed_ok w" "w' = cleanup_unauth_sessions n w"
  shows "card {a \<in> ran (find_session (smgr w')). unauthenticated (heap w' a)} \<le> n
    \<and> (\<forall>a \<in> ran (find_session (smgr w)). \<not> unauthenticated (heap w a) \<longrightarrow> a \<in> ran (find_session (smgr w')))
    \<and> (\<forall>a \<in> ran (find_session (smgr w)) - ran (find_session (smgr w')).
         \<forall>b \<in> ran (find_session (smgr w')). unauthenticated (heap w b) \<longrightarrow>
           last_alive_time (heap w a) \<le> last_alive_time (heap w b))"
proof -
  define us where "us = filter (\<lambda>a. unauthenticated (heap w a)) (all_sessions (smgr w))"
  define ss where "ss = sort_key (\<lambda>a. last_alive_time (heap w a)) us"
  define k where "k = length us - n"
  have w': "w' = fold close_session (take k ss) w"
    using assms(2) by (auto simp: cleanup_unauth_sessions_def us_def ss_def k_def Let_def)
  have ran: "ran (find_session (smgr w)) = set (all_sessions (smgr w))" by (rule ran_all_sessions [OF assms(1)])
  have d: "distinct ss" "set ss = set us" "length ss = length us"
    using all_sessions_distinct [OF assms(1)] by (simp_all add: ss_def us_def)
  have sub: "set (take k ss) \<subseteq> ran (find_session (smgr w))"
    using set_take_subset [of k ss] d(2) ran by (auto simp: us_def)
  from close_all_filed [OF assms(1) _ sub] d(1)
  have f: "find_session (smgr w') sid =
      (case find_session (smgr w) sid of Some a \<Rightarrow> if a \<in> set (take k ss) then None else Some a | None \<Rightarrow> None)"
    and h: "b \<notin> set (take k ss) \<Longrightarrow> heap w' b = heap w b" for sid b by (auto simp: w')
  have ran': "ran (find_session (smgr w')) = ran (find_session (smgr w)) - set (take k ss)"
    by (auto simp: ran_def f split: option.splits if_splits)
  have ss: "set (take k ss) \<union> set (drop k ss) = set ss" "set (take k ss) \<inter> set (drop k ss) = {}"
    using d(1) by (metis append_take_drop_id set_append, metis append_take_drop_id distinct_append)
  have "{a \<in> ran (find_session (smgr w')). unauthenticated (heap w' a)} \<subseteq> set (drop k ss)"
    using ss(1) d(2) ran ran' h by (auto simp: us_def)
  then have "card {a \<in> ran (find_session (smgr w')). unauthenticated (heap w' a)} \<le> length (drop k ss)"
    by (meson List.finite_set card_length card_mono order_trans)
  also have "\<dots> \<le> n" using d(3) by (simp add: k_def)
  finally have one: "card {a \<in> ran (find_session (smgr w')). unauthenticated (heap w' a)} \<le> n" .
  have two: "a \<in> ran (find_session (smgr w'))" if "a \<in> ran (find_session (smgr w))" "\<not> unauthenticated (heap w a)" for a
    using that ran' set_take_subset [of k ss] d(2) by (auto simp: us_def)
  have three: "last_alive_time (heap w a) \<le> last_alive_time (heap w b)"
    if "a \<in> set (take k ss)" "b \<in> set (drop k ss)" for a b
  proof -
    have "sorted (map (\<lambda>a. last_alive_time (heap w a)) (take k ss @ drop k ss))" by (simp add: ss_def)
    then show ?thesis using that unfolding map_append sorted_append by auto
  qed
  have "b \<in> set (drop k ss)" if "b \<in> ran (find_session (smgr w'))" "unauthenticated (heap w b)" for b
    using that ss(1) d(2) ran ran' by (auto simp: us_def)
  then show ?thesis using one two three ran' by blast
qed

theorem unauth_sessions_limited_witness:
  "\<exists>w. find_session (smgr w) 5 = Some 0
     \<and> card {a \<in> ran (find_session (smgr (cleanup_unauth_sessions 0 w))). unauthenticated (heap (cleanup_unauth_sessions 0 w) a)} \<le> 0"
proof -
  obtain w where w: "filed_ok w" "find_session (smgr w) 5 = Some 0" using filed_ok_example by blast
  from unauth_sessions_limited [OF w(1) refl, of 0] w(2) show ?thesis by blast
qed

text \<open>
  C30: A broadcast goes to exactly the logged-in sessions other than the sender. Sent from
  a handler that does not run on a target's strand, it queues the message once on the
  strand of every target, in the order of the table, and changes nothing else; the targets
  are the registered sessions with a nickname whose id is not the sender's.
\<close>

theorem broadcast_reaches_others:
  assumes "manager_ok (smgr w)" "\<forall>b \<in> set (broadcast_targets sender w). cur_strand w \<noteq> Some (strand (heap w b))"
  shows "broadcast c msg sender w =
      w\<lparr>posted := posted w @ map (\<lambda>b. (strand (heap w b), WriteJob b msg)) (broadcast_targets sender w)\<rparr>
    \<and> (b \<in> set (broadcast_targets sender w) \<longleftrightarrow>
         (\<exists>sid. find_session (smgr w) sid = Some b) \<and> nickname (heap w b) \<noteq> [] \<and> session_id (heap w b) \<noteq> sender)"
  using fold_post_write [OF assms(2)] all_sessions_iff [OF assms(1), of b]
  by (auto simp: broadcast_def broadcast_targets_def)

theorem broadcast_reaches_others_witness:
  "\<exists>c w. posted (broadcast c ''hi'' 7 w) = posted w @ [(strand (heap w 0), WriteJob 0 ''hi'')]"
proof -
  obtain w where w: "filed_ok w" "find_session (smgr w) 5 = Some 0" "cur_strand w = None" "all_sessions (smgr w) = [0]"
    "heap w 0 = ((session_new 0 1 UdpSendStrand)\<lparr>nickname := ''bob''\<rparr>)\<lparr>session_id := 5, life_state := Idle\<rparr>"
    using filed_ok_example by blast
  have m: "manager_ok (smgr w)" using w(1) by (simp add: filed_ok_def)
  have "broadcast_targets 7 w = [0]" using w(4,5) by (simp add: broadcast_targets_def session_new_def)
  with broadcast_reaches_others [OF m, of 7 undefined "''hi''" 0] w(3)
  show ?thesis by (intro exI [of _ undefined] exI [of _ w]) simp
qed

text \<open>
  The verdict on misbehaving senders. A sender with no record whose packets are all
  bad and within a minute of the first is blocked at a time within that minute exactly when
  there were ten of them or more, and the record is dropped when it is asked for later than
  that.
\<close>

theorem bad_udp_blocked_iff:
  assumes "um_find (bad_udp_map w) (endpoint_key ep) = None" "\<forall>t \<in> set ts. t - t0 \<le> seconds 60"
  shows "(now - t0 \<le> seconds 60 \<longrightarrow>
        (fst (is_blocked_udp now ep (bad_packets (t0 # ts) ep w)) \<longleftrightarrow> 10 \<le> Suc (length ts)))
    \<and> (seconds 60 < now - t0 \<longrightarrow> \<not> fst (is_blocked_udp now ep (bad_packets (t0 # ts) ep w))
        \<and> um_find (bad_udp_map (snd (is_blocked_udp now ep (bad_packets (t0 # ts) ep w)))) (endpoint_key ep) = None)"
proof -
  have "um_find (bad_udp_map (register_bad_udp_packet t0 ep w)) (endpoint_key ep) = Some (1, t0)"
    using assms(1) by (simp add: register_bad_udp_packet_def um_find_put Let_def)
  from bad_packets_count [OF this, of ts] assms(2)
  have "um_find (bad_udp_map (bad_packets (t0 # ts) ep w)) (endpoint_key ep) = Some (1 + int (length ts), t0)"
    by (simp add: block_time_def)
  then show ?thesis
    by (auto simp: is_blocked_udp_def um_find_erase block_time_def bad_udp_limit_def simp del: bad_packets.simps)
qed

theorem bad_udp_blocked_iff_witness:
  "\<exists>w. fst (is_blocked_udp 9 (''10.0.0.1'', 4000) (bad_packets (0 # replicate 9 5) (''10.0.0.1'', 4000) w))"
proof -
  define c where "c = \<lparr>config = \<lambda>_. Some 1, config_text = \<lambda>_. None, json_parse = \<lambda>_. Inl Parse_error, json_dump = \<lambda>_. []\<rparr>"
  obtain w where w: "server_new c 0 2 ''key'' = Some w" and "bad_udp_map w = []"
    by (simp add: server_new_def split_beta Let_def)
  with bad_udp_blocked_iff [of w "(''10.0.0.1'', 4000)" "replicate 9 5" 0 9] show ?thesis
    by (intro exI [of _ w]) (simp add: seconds_def del: bad_packets.simps)
qed

end
