(* ===== verification/Backend.thy ===== *)
theory Backend
  imports Handler
begin

text \<open>
  The DB middleware seen from the running server: \<^verbatim>\<open>LoginFlow\<close>, which logs a session
  in with or without an answer of the middleware, the router's jobs and timers and the
  client's messages acting on the world, and the two handlers of acknowledgements
  (\<^verbatim>\<open>Handlers/DBmw\<close>). The results are what a login establishes, that the nickname is
  owned by exactly the session that logged in last, and what an ill-typed answer of the
  middleware does.
\<close>

section \<open>Definitions\<close>

subsection \<open>LoginFlow\<close>

text \<open>
  A \<^verbatim>\<open>LoginFlow\<close> object is its session \<open>a\<close>, held weakly, and its nickname. An
  operation that may raise returns the exception beside the state it was raised in.
\<close>

definition complete_success :: "app_context \<Rightarrow> addr \<Rightarrow> string \<Rightarrow> world \<Rightarrow> world" where
  "complete_success c a nick w =
     (if alive w a
      then post_write c a (json_dump c (jobj [(''type'', JStr ''login_success''), (''nickname'', JStr nick)]) @ newline) w
      else w)"

definition complete_fail :: "app_context \<Rightarrow> addr \<Rightarrow> string \<Rightarrow> world \<Rightarrow> world" where
  "complete_fail c a reason w =
     (if alive w a
      then post_write c a (json_dump c (jobj [(''type'', JStr ''login_result''), (''ok'', JBool False),
             (''error'', JStr reason)]) @ newline) w
      else w)"

definition on_user_info_fail :: "app_context \<Rightarrow> addr \<Rightarrow> json \<Rightarrow> world \<Rightarrow> world" where
  "on_user_info_fail c a j w = complete_fail c a (case j of JStr s \<Rightarrow> s | _ \<Rightarrow> ''db_error'') w"

definition duplicate_login_msg :: string where
  "duplicate_login_msg = ''{\"type\":\"error\",\"msg\":\"Duplicate login ban\"}''"

definition evict_previous :: "app_context \<Rightarrow> string \<Rightarrow> string \<Rightarrow> addr \<Rightarrow> world \<Rightarrow> world" where
  "evict_previous c msg nick a w =
     (case find_session_by_nickname (alive w) (smgr w) nick of
        Some prev \<Rightarrow> if prev \<noteq> a then close_session prev (post_write c prev msg w) else w
      | None \<Rightarrow> w)"

definition on_user_info_ok :: "app_context \<Rightarrow> addr \<Rightarrow> string \<Rightarrow> json \<Rightarrow> world \<Rightarrow> exn option \<times> world" where
  "on_user_info_ok c a nick j w =
     (case value_int j ''code'' (-1) of
        Inl e \<Rightarrow> (Some e, w)
      | Inr code \<Rightarrow>
          if code \<noteq> 0 then (None, complete_fail c a ''user_not_found'' w)
          else if \<not> alive w a then (None, w)
          else if \<not> context_ready w then (None, complete_fail c a ''server_unavailable'' w)
          else let w1 = add_session a w;
                   w2 = evict_previous c duplicate_login_msg nick a w1;
                   w3 = register_nickname c nick a w2;
                   w4 = upd a (\<lambda>s. on_nickname_registered (s\<lparr>nickname := nick\<rparr>)) w3;
                   w5 = assign_zone a 1 w4;
                   notice = jobj [(''type'', JStr ''notice''), (''msg'', JStr (nick @ '' has entered.''))];
                   w6 = broadcast c (json_dump c notice @ newline) (session_id (heap w5 a)) w5
               in (None, complete_success c a nick w6))"

text \<open>The two lambdas handed to the router.\<close>

definition run_login_cb :: "app_context \<Rightarrow> login_cb \<Rightarrow> json \<Rightarrow> world \<Rightarrow> exn option \<times> world" where
  "run_login_cb c cb j w =
     (case cb of
        OnUserInfoOk a nick \<Rightarrow> on_user_info_ok c a nick j w
      | OnUserInfoError a nick \<Rightarrow>
          (case value_string j ''msg'' ''timeout'' of
             Inl e \<Rightarrow> (Some e, w)
           | Inr s \<Rightarrow> (None, on_user_info_fail c a (JStr s) w)))"

subsection \<open>The client and the router in the world\<close>

definition upd_client :: "(db_client \<Rightarrow> db_client) \<Rightarrow> world \<Rightarrow> world" where
  "upd_client f w = w\<lparr>client := map_option f (client w)\<rparr>"

text \<open>
  The client's \<^verbatim>\<open>send_framed\<close> is dispatched to its strand. Off that strand the frame
  waits there, and whether the client is connected is looked up when it runs.
\<close>

definition client_send_framed :: "string \<Rightarrow> world \<Rightarrow> world" where
  "client_send_framed body w = dispatch_job ClientStrand (ClientFrameJob body) (upd_client (send_framed body)) w"

text \<open>The two send functions \<^verbatim>\<open>main\<close> injects into the router.\<close>

definition client_send_secure_json :: "app_context \<Rightarrow> json \<Rightarrow> world \<Rightarrow> exn option \<times> world" where
  "client_send_secure_json c j w =
     (case client w of
        None \<Rightarrow> (None, w)
      | Some d \<Rightarrow>
          (case ensure_request_id j d of
             (Inl e, d') \<Rightarrow> (Some e, w\<lparr>client := Some d'\<rparr>)
           | (Inr (i, j'), d') \<Rightarrow>
               (None, upd_client (arm_request_timer i False)
                        (client_send_framed (secret d' @ json_dump c j') (w\<lparr>client := Some d'\<rparr>)))))"

definition client_send_json :: "app_context \<Rightarrow> json \<Rightarrow> world \<Rightarrow> world" where
  "client_send_json c j w =
     (case client w of
        None \<Rightarrow> w
      | Some d \<Rightarrow>
          (case ensure_request_id j d of
             (Inl e, d') \<Rightarrow> w\<lparr>client := Some (schedule_reconnect (close_socket
                 (client_alert ''[ALERT][DBMW][send_json] Unexpected exception: '' d')))\<rparr>
           | (Inr (i, j'), d') \<Rightarrow>
               upd_client (arm_request_timer i True)
                 (client_send_framed (json_dump c j') (w\<lparr>client := Some d'\<rparr>))))"

text \<open>Whether handing a request to the send function raises: only the secure one can.\<close>

definition send_raises :: "bool \<Rightarrow> json \<Rightarrow> world \<Rightarrow> bool" where
  "send_raises sec j w \<longleftrightarrow>
     (case client w of None \<Rightarrow> False | Some d \<Rightarrow> sec \<and> (case fst (ensure_request_id j d) of Inl _ \<Rightarrow> True | Inr _ \<Rightarrow> False))"

text \<open>\<^verbatim>\<open>Handlers/DBmw\<close>: the acknowledgements, in their JSON and in their Protobuf form.\<close>

definition OnServerKeepAliveAck :: "json \<Rightarrow> world \<Rightarrow> exn option \<times> world" where
  "OnServerKeepAliveAck j w = (None, upd_client note_heartbeat_ack w)"

definition OnServerLoginAck :: "app_context \<Rightarrow> json \<Rightarrow> world \<Rightarrow> exn option \<times> world" where
  "OnServerLoginAck c j w =
     (case value_string j ''result'' [] of
        Inl e \<Rightarrow> (Some e, w)
      | Inr result \<Rightarrow>
          (case value_string j ''nickname'' (config_string c ''dbmw_login_nickname'' []) of
             Inl e \<Rightarrow> (Some e, w)
           | Inr nick \<Rightarrow>
               if result = ''OK'' then (None, upd_client (mark_authed True) w)
               else if client w = None then (None, w)
               else let w1 = upd_client (mark_authed False) w;
                        w2 = dispatch_job ClientStrand ClientStopJob (upd_client client_stop) w1
                    in (None, dispatch_job ClientStrand ClientStartJob (upd_client (client_start c)) w2)))"

definition run_db_handler :: "app_context \<Rightarrow> string \<Rightarrow> json \<Rightarrow> world \<Rightarrow> exn option \<times> world" where
  "run_db_handler c ty j w =
     (if ty = ''server_login_ack'' then OnServerLoginAck c j w
      else if ty = ''keepalive_ack'' then OnServerKeepAliveAck j w
      else if ty = ''pb_server_login_ack'' then (None, upd_client (mark_authed True) w)
      else if ty = ''pb_keepalive_ack'' then (None, upd_client note_heartbeat_ack w)
      else (None, w))"

text \<open>The effects of a job of the router, in order; an exception ends the job.\<close>

definition run_effect :: "app_context \<Rightarrow> login_cb router_effect \<Rightarrow> world \<Rightarrow> exn option \<times> world" where
  "run_effect c e w =
     (case e of
        SendJson j \<Rightarrow> (None, client_send_json c j w)
      | SendSecureJson j \<Rightarrow> (None, snd (client_send_secure_json c j w))
      | Call cb j \<Rightarrow> run_login_cb c cb j w
      | SetPromise i j \<Rightarrow> (None, w)
      | RunHandler ty j \<Rightarrow> run_db_handler c ty j w
      | AdminAlert m \<Rightarrow> (None, w\<lparr>alerts := alerts w @ [m]\<rparr>))"

fun run_effects :: "app_context \<Rightarrow> login_cb router_effect list \<Rightarrow> world \<Rightarrow> exn option \<times> world" where
  "run_effects c [] w = (None, w)"
| "run_effects c (e # es) w =
     (case run_effect c e w of (Some x, w') \<Rightarrow> (Some x, w') | (None, w') \<Rightarrow> run_effects c es w')"

definition router_job ::
  "app_context \<Rightarrow> (login_cb router \<Rightarrow> login_cb router \<times> login_cb router_effect list) \<Rightarrow> world \<Rightarrow> exn option \<times> world" where
  "router_job c f w =
     (case router w of
        None \<Rightarrow> (None, w)
      | Some r \<Rightarrow> let (r', es) = f r in run_effects c es (w\<lparr>router := Some r'\<rparr>))"

text \<open>Whether the next send of a pending request raises.\<close>

definition pending_raises :: "string \<Rightarrow> login_cb router \<Rightarrow> world \<Rightarrow> bool" where
  "pending_raises req_id r w \<longleftrightarrow>
     (case um_find (pending r) req_id of Some p \<Rightarrow> send_raises (secure p) (request_json p) w | None \<Rightarrow> False)"

definition router_request_job ::
  "app_context \<Rightarrow> string \<Rightarrow> json \<Rightarrow> bool \<Rightarrow> int \<Rightarrow> int \<Rightarrow> int \<Rightarrow> login_cb \<Rightarrow> login_cb \<Rightarrow> world \<Rightarrow> exn option \<times> world" where
  "router_request_job c req_id req sec t maxr sid ok err w =
     router_job c (\<lambda>r. send_request_cb_job
       (if um_find (pending r) req_id = None then send_raises sec req w else pending_raises req_id r w)
       req_id req sec t maxr sid ok err r) w"

definition router_timeout :: "app_context \<Rightarrow> string \<Rightarrow> world \<Rightarrow> exn option \<times> world" where
  "router_timeout c req_id w = router_job c (\<lambda>r. on_timeout (pending_raises req_id r w) req_id r) w"

definition router_retry :: "app_context \<Rightarrow> string \<Rightarrow> world \<Rightarrow> exn option \<times> world" where
  "router_retry c req_id w = router_job c (\<lambda>r. on_retry (pending_raises req_id r w) req_id r) w"

definition router_response :: "app_context \<Rightarrow> string \<Rightarrow> json \<Rightarrow> bool \<Rightarrow> world \<Rightarrow> exn option \<times> world" where
  "router_response c req_id j ok w = router_job c (on_response req_id j ok) w"

definition router_metrics_timer :: "app_context \<Rightarrow> world \<Rightarrow> exn option \<times> world" where
  "router_metrics_timer c w =
     router_job c (on_metrics_timer (case client w of Some d \<Rightarrow> timeout_count d | None \<Rightarrow> 0)) w"

text \<open>
  \<open>DBmwRouter::handle\<close> on the client's strand: an answer to a request is passed to the
  router's strand, a registered handler runs at once.
\<close>

definition router_handle :: "app_context \<Rightarrow> json \<Rightarrow> world \<Rightarrow> exn option \<times> world" where
  "router_handle c j w =
     (case router w of
        None \<Rightarrow> (None, w)
      | Some r \<Rightarrow>
          (case route_json j r of
             Inl e \<Rightarrow> (Some e, w)
           | Inr (ToRequest req_id ok) \<Rightarrow>
               if cur_strand w = Some RouterStrand then router_response c req_id j ok w
               else (None, post_job RouterStrand (RouterResponseJob req_id j ok) w)
           | Inr (ToHandler ty) \<Rightarrow> run_db_handler c ty j w
           | Inr NoRoute \<Rightarrow> (None, w)))"

definition router_handle_pb :: "app_context \<Rightarrow> envelope \<Rightarrow> world \<Rightarrow> exn option \<times> world" where
  "router_handle_pb c env w =
     (case env of
        ServerLoginAck result nick \<Rightarrow>
          if result = ''ok'' then run_db_handler c ''pb_server_login_ack'' JNull w else (None, w)
      | KeepaliveAck \<Rightarrow> run_db_handler c ''pb_keepalive_ack'' JNull w
      | _ \<Rightarrow> (case envelope_json env of Some j \<Rightarrow> router_handle c j w | None \<Rightarrow> (None, w)))"

subsection \<open>Starting a login\<close>

text \<open>The answer that stands in for the middleware when it cannot be asked.\<close>

definition bypass_answer :: "string \<Rightarrow> json" where
  "bypass_answer nick =
     jobj [(''type'', JStr ''db_query_result''), (''api'', JStr ''request_user_info''), (''code'', JInt 0),
           (''data'', jobj [(''nickname'', JStr nick)])]"

definition db_connected :: "world \<Rightarrow> bool" where
  "db_connected w \<longleftrightarrow> (case client w of Some d \<Rightarrow> connected d | None \<Rightarrow> False)"

definition request_user_info :: "app_context \<Rightarrow> nat \<Rightarrow> addr \<Rightarrow> string \<Rightarrow> world \<Rightarrow> exn option \<times> world" where
  "request_user_info c pid a nick w =
     (if \<not> alive w a then (None, w)
      else case router w of
        None \<Rightarrow> on_user_info_ok c a nick (bypass_answer nick) w
      | Some r \<Rightarrow>
          if \<not> db_connected w then on_user_info_ok c a nick (bypass_answer nick) w
          else let sid = session_id (heap w a);
                   (req_id, r') = make_req_id pid sid r;
                   w1 = w\<lparr>router := Some r'\<rparr>;
                   ok = OnUserInfoOk a nick; err = OnUserInfoError a nick
               in case build_request ''request_user_info'' req_id (jobj [(''nickname'', JStr nick)]) of
                    Inl e \<Rightarrow> (None, on_user_info_fail c a
                                (jobj [(''type'', JStr ''error''), (''msg'', JStr ''exception'')]) w1)
                  | Inr req \<Rightarrow> (None, dispatch_job RouterStrand (RouterRequestJob req_id req True 2500 2 sid ok err)
                                (snd \<circ> router_request_job c req_id req True 2500 2 sid ok err) w1))"

definition login_begin :: "app_context \<Rightarrow> nat \<Rightarrow> addr \<Rightarrow> string \<Rightarrow> world \<Rightarrow> exn option \<times> world" where
  "login_begin c pid a nick w = request_user_info c pid a nick w"

section \<open>Lemmas\<close>

subsection \<open>The invariant is kept\<close>

lemma world_ok_client: "world_ok c w \<Longrightarrow> world_ok c (w\<lparr>client := d\<rparr>)"
  by (auto intro: world_ok_cong)

lemma world_ok_router: "world_ok c w \<Longrightarrow> world_ok c (w\<lparr>router := r\<rparr>)"
  by (auto intro: world_ok_cong)

lemma world_ok_alerts: "world_ok c w \<Longrightarrow> world_ok c (w\<lparr>alerts := l\<rparr>)"
  by (auto intro: world_ok_cong)

lemma world_ok_posted: "world_ok c w \<Longrightarrow> world_ok c (post_job st j w)"
  by (auto simp: post_job_def intro: world_ok_cong)

lemma upd_client_ok: "world_ok c w \<Longrightarrow> world_ok c (upd_client f w)"
  by (simp add: upd_client_def world_ok_client)

lemma client_send_framed_ok: "world_ok c w \<Longrightarrow> world_ok c (client_send_framed body w)"
  by (simp add: client_send_framed_def dispatch_job_ok upd_client_ok)

lemma client_send_secure_json_ok: "world_ok c w \<Longrightarrow> world_ok c (snd (client_send_secure_json c j w))"
  by (simp add: client_send_secure_json_def upd_client_ok client_send_framed_ok world_ok_client
      split: option.split prod.split sum.split)

lemma client_send_json_ok: "world_ok c w \<Longrightarrow> world_ok c (client_send_json c j w)"
  by (simp add: client_send_json_def upd_client_ok client_send_framed_ok world_ok_client
      split: option.split prod.split sum.split)

lemma complete_ok:
  "world_ok c w \<Longrightarrow> world_ok c (complete_success c a nick w)"
  "world_ok c w \<Longrightarrow> world_ok c (complete_fail c a reason w)"
  by (simp_all add: complete_success_def complete_fail_def post_write_ok)

lemma evict_previous_ok: "world_ok c w \<Longrightarrow> world_ok c (evict_previous c msg nick a w)"
  by (simp add: evict_previous_def close_session_ok post_write_ok split: option.split)

lemma session_ok_login: "session_ok c s \<Longrightarrow> session_ok c (on_nickname_registered (s\<lparr>nickname := nick\<rparr>))"
  by (simp add: session_ok_def on_nickname_registered_def)

lemma on_user_info_ok_ok:
  assumes "world_ok c w"
  shows "world_ok c (snd (on_user_info_ok c a nick j w))"
proof -
  define w3 where "w3 = register_nickname c nick a (evict_previous c duplicate_login_msg nick a (add_session a w))"
  define w5 where "w5 = assign_zone a 1 (upd a (\<lambda>s. on_nickname_registered (s\<lparr>nickname := nick\<rparr>)) w3)"
  have "world_ok c w3"
    unfolding w3_def by (intro register_nickname_ok evict_previous_ok add_session_ok assms)
  then have "world_ok c w5"
    unfolding w5_def by (intro assign_zone_ok world_ok_upd_all session_ok_login)
  then have "world_ok c (complete_success c a nick (broadcast c m sid w5))" for m sid
    by (intro complete_ok broadcast_ok)
  then show ?thesis
    using assms by (simp add: on_user_info_ok_def complete_ok Let_def w5_def w3_def split: sum.split)
qed

lemma run_login_cb_ok: "world_ok c w \<Longrightarrow> world_ok c (snd (run_login_cb c cb j w))"
  by (simp add: run_login_cb_def on_user_info_ok_ok on_user_info_fail_def complete_ok split: login_cb.split sum.split)

lemma run_db_handler_ok: "world_ok c w \<Longrightarrow> world_ok c (snd (run_db_handler c ty j w))"
  by (simp add: run_db_handler_def OnServerLoginAck_def OnServerKeepAliveAck_def upd_client_ok dispatch_job_ok Let_def
      split: sum.split)

lemma run_effect_ok: "world_ok c w \<Longrightarrow> world_ok c (snd (run_effect c e w))"
  by (simp add: run_effect_def client_send_json_ok client_send_secure_json_ok run_login_cb_ok run_db_handler_ok
      world_ok_alerts split: router_effect.split)

lemma run_effects_ok: "world_ok c w \<Longrightarrow> world_ok c (snd (run_effects c es w))"
proof (induction es arbitrary: w)
  case (Cons e es)
  then show ?case using run_effect_ok [of c w e] by (auto split: prod.split option.split)
qed simp

lemma router_job_ok: "world_ok c w \<Longrightarrow> world_ok c (snd (router_job c f w))"
  by (simp add: router_job_def run_effects_ok world_ok_router split: option.split prod.split)

lemma router_handle_ok: "world_ok c w \<Longrightarrow> world_ok c (snd (router_handle c j w))"
  by (simp add: router_handle_def router_response_def router_job_ok run_db_handler_ok world_ok_posted
      split: option.split sum.split route.split)

lemma router_handle_pb_ok: "world_ok c w \<Longrightarrow> world_ok c (snd (router_handle_pb c env w))"
  by (simp add: router_handle_pb_def run_db_handler_ok router_handle_ok split: envelope.split option.split)

lemma request_user_info_ok:
  assumes "world_ok c w"
  shows "world_ok c (snd (request_user_info c pid a nick w))"
  using assms
  by (simp add: request_user_info_def on_user_info_ok_ok on_user_info_fail_def complete_ok world_ok_router
      router_request_job_def router_job_ok dispatch_job_ok Let_def split_beta split: option.split sum.split)

lemmas backend_ok =
  on_user_info_ok_ok run_login_cb_ok run_effects_ok router_job_ok router_handle_ok router_handle_pb_ok
  request_user_info_ok upd_client_ok client_send_framed_ok

subsection \<open>Closing and the parts of the world it leaves alone\<close>

lemma pool_release_pool: "pool (fst (snd (pool_release a (p, h)))) = pool p"
  by (auto simp: pool_release_def split: option.split)

lemma pool_release_session_rest [simp]:
  "posted (pool_release_session a w) = posted w" "cur_strand (pool_release_session a w) = cur_strand w"
  "context_ready (pool_release_session a w) = context_ready w"
  "pool (spool (pool_release_session a w)) = pool (spool w)"
  using pool_release_pool [of a "spool w" "heap w"]
  by (simp_all add: pool_release_session_def split_beta Let_def)

lemma erase_endpoint_of_rest [simp]:
  "posted (erase_endpoint_of ep a w) = posted w" "cur_strand (erase_endpoint_of ep a w) = cur_strand w"
  "context_ready (erase_endpoint_of ep a w) = context_ready w"
  by (simp_all add: erase_endpoint_of_def split: option.split)

lemma remove_session_rest [simp]:
  "posted (remove_session sid w) = posted w" "cur_strand (remove_session sid w) = cur_strand w"
  "context_ready (remove_session sid w) = context_ready w" "pool (spool (remove_session sid w)) = pool (spool w)"
  by (simp_all add: remove_session_def split_beta Let_def split: option.split prod.split)

lemma close_session_rest [simp]:
  "posted (close_session a w) = posted w" "cur_strand (close_session a w) = cur_strand w"
  "context_ready (close_session a w) = context_ready w" "pool (spool (close_session a w)) = pool (spool w)"
  by (simp_all add: close_session_def split_beta Let_def)

lemma upd_upd: "upd a f (upd a g w) = upd a (\<lambda>s. f (g s)) w"
  by (simp add: upd_def)

lemma alive_close [simp]: "alive (close_session a w) = alive w"
  by (simp add: alive_def fun_eq_iff)

text \<open>Closing changes neither the id nor the strand of any session.\<close>

lemma session_ids_cleanup [simp]:
  "strand (session_cleanup s) = strand s" "session_id (session_cleanup s) = session_id s"
  "strand (set_active v s) = strand s" "session_id (set_active v s) = session_id s"
  "strand (mark_released s) = strand s" "session_id (mark_released s) = session_id s"
  "strand (clear_udp_token s) = strand s" "session_id (clear_udp_token s) = session_id s"
  by (simp_all add: session_cleanup_def set_active_def try_activate_def mark_released_def clear_udp_token_def)

lemma pool_release_session_ids:
  "strand (heap (pool_release_session a w) b) = strand (heap w b)
   \<and> session_id (heap (pool_release_session a w) b) = session_id (heap w b)"
  by (auto simp: pool_release_session_def pool_release_def Let_def split: option.split)

lemma zm_remove_session_ids:
  "strand (fst (zm_remove_session a (h, zs)) b) = strand (h b)
   \<and> session_id (fst (zm_remove_session a (h, zs)) b) = session_id (h b)"
  using zm_remove_session_heap(1) [of b a h zs] zm_remove_session_heap(2) [of a h zs] by (cases "b = a") auto

lemma remove_session_ids:
  "strand (heap (remove_session sid w) b) = strand (heap w b)
   \<and> session_id (heap (remove_session sid w) b) = session_id (heap w b)"
proof (cases "mgr_remove_session sid (smgr w)")
  case (Pair r m)
  show ?thesis
  proof (cases r)
    case None
    then show ?thesis using Pair by (simp add: remove_session_def)
  next
    case (Some a)
    then show ?thesis using Pair zm_remove_session_ids pool_release_session_ids
      by (simp add: remove_session_def split_beta Let_def split: option.split)
  qed
qed

lemma close_session_ids:
  "strand (heap (close_session a w) b) = strand (heap w b)
   \<and> session_id (heap (close_session a w) b) = session_id (heap w b)"
proof (cases rule: close_session_cases [of a w])
  case closes
  then show ?thesis using remove_session_ids by (simp add: Let_def)
qed simp

text \<open>
  A session object is quiet when its id is filed for itself or for nobody: closing it
  cannot hit another session.
\<close>

definition quiet :: "world \<Rightarrow> addr \<Rightarrow> bool" where
  "quiet w p \<longleftrightarrow> find_session (smgr w) (session_id (heap w p)) \<in> {None, Some p}"

lemma close_quiet:
  assumes "filed_ok w" "quiet w p"
  shows "filed_ok (close_session p w)"
    and "find_session (smgr (close_session p w)) = (find_session (smgr w))(session_id (heap w p) := None)"
    and "b \<noteq> p \<Longrightarrow> heap (close_session p w) b = heap w b"
    and "nickname_index (smgr (close_session p w)) = nickname_index (smgr w)"
proof -
  consider (filed) "find_session (smgr w) (session_id (heap w p)) = Some p"
    | (free) "find_session (smgr w) (session_id (heap w p)) = None"
    using assms(2) by (auto simp: quiet_def)
  then have "filed_ok (close_session p w)
      \<and> find_session (smgr (close_session p w)) = (find_session (smgr w))(session_id (heap w p) := None)
      \<and> (b \<noteq> p \<longrightarrow> heap (close_session p w) b = heap w b)
      \<and> nickname_index (smgr (close_session p w)) = nickname_index (smgr w)"
  proof cases
    case filed
    obtain i where i: "pool_index (pool (spool w)) p = Some i" "i \<notin> available_index_set (spool w)"
      and f: "manager_ok (smgr w)" "pool_set w" "data_handler_alive w" "life_state (heap w p) \<in> {Idle, Active}"
      using assms(1) filed unfolding filed_ok_def by blast
    have "smgr (close_session p w) = erase_session (session_id (heap w p)) (smgr w)"
      using close_session_effect(1) [OF f(1) filed refl f(2) i _ f(3)] f(4) by blast
    then show ?thesis using close_filed [OF assms(1) filed] by (simp add: erase_session_def Let_def)
  next
    case free
    define f where "f = (\<lambda>s. session_cleanup (s\<lparr>state := Closed, login_timer := None, socket := None, life_state := LifeClosed\<rparr>))"
    have "close_session p w = w \<or> close_session p w = upd p f w"
    proof (cases rule: close_session_cases [of p w])
      case closes
      have "remove_session (session_id (heap w p)) (upd p g w) = upd p g w" for g
        using free by (simp add: remove_session_def mgr_remove_session_def)
      then have "close_session p w = upd p f w"
        unfolding closes(2) Let_def f_def by (simp add: upd_upd)
      then show ?thesis by blast
    qed blast
    moreover have "filed_ok (upd p f w)"
      using assms(1) free unfolding filed_ok_def by (auto simp: f_def)
    moreover have "(find_session (smgr w))(session_id (heap w p) := None) = find_session (smgr w)"
      using free by (simp add: fun_upd_idem)
    ultimately show ?thesis using assms(1) by fastforce
  qed
  then show "filed_ok (close_session p w)"
    and "find_session (smgr (close_session p w)) = (find_session (smgr w))(session_id (heap w p) := None)"
    and "b \<noteq> p \<Longrightarrow> heap (close_session p w) b = heap w b"
    and "nickname_index (smgr (close_session p w)) = nickname_index (smgr w)" by blast+
qed

subsection \<open>What a login does\<close>

text \<open>The handler that runs is on no session's strand: a message posted to a session waits.\<close>

definition owner_quiet :: "string \<Rightarrow> world \<Rightarrow> bool" where
  "owner_quiet nick w \<longleftrightarrow> (\<forall>p. find_session_by_nickname (alive w) (smgr w) nick = Some p \<longrightarrow> quiet w p)"

definition off_strands :: "world \<Rightarrow> bool" where
  "off_strands w \<longleftrightarrow> (\<forall>b. cur_strand w \<noteq> Some (strand (heap w b)))"

lemma post_write_off:
  "cur_strand w \<noteq> Some (strand (heap w b)) \<Longrightarrow>
   post_write c b m w = w\<lparr>posted := posted w @ [(strand (heap w b), WriteJob b m)]\<rparr>"
  by (simp add: post_write_def dispatch_job_def post_job_def)

lemma filed_ok_cong:
  "smgr w' = smgr w \<Longrightarrow> pool_set w' = pool_set w \<Longrightarrow> data_handler_alive w' = data_handler_alive w \<Longrightarrow>
   spool w' = spool w \<Longrightarrow> heap w' = heap w \<Longrightarrow> filed_ok w' = filed_ok w"
  by (simp add: filed_ok_def)

lemma filed_alive: "filed_ok w \<Longrightarrow> find_session (smgr w) k = Some a \<Longrightarrow> alive w a"
  unfolding filed_ok_def alive_def by (metis nth_mem pool_index_Some)

lemma filed_ok_smgr:
  "filed_ok w \<Longrightarrow> manager_ok m \<Longrightarrow> find_session m = find_session (smgr w) \<Longrightarrow> filed_ok (w\<lparr>smgr := m\<rparr>)"
  by (simp add: filed_ok_def)

lemma find_set_nickname_owner [simp]: "find_session (set_nickname_owner nick a m) = find_session m"
  by (simp add: fun_eq_iff find_session_def set_nickname_owner_def)

text \<open>
  A step towards a login of the session \<open>a\<close>, registered under its id: the tables stay
  regular, the session is untouched and stays registered.
\<close>

definition login_step :: "string \<Rightarrow> addr \<Rightarrow> world \<Rightarrow> world \<Rightarrow> bool" where
  "login_step nick a w w' \<longleftrightarrow> filed_ok w' \<and> heap w' a = heap w a
     \<and> find_session (smgr w') (session_id (heap w a)) = Some a
     \<and> (\<forall>k b. find_session (smgr w') k = Some b \<longrightarrow> find_session (smgr w) k = Some b \<and> heap w' b = heap w b)
     \<and> (\<forall>k b. find_session (smgr w) k = Some b \<and> um_find (nickname_index (smgr w)) nick \<noteq> Some b \<longrightarrow>
           find_session (smgr w') k = Some b)
     \<and> pool (spool w') = pool (spool w) \<and> cur_strand w' = cur_strand w \<and> context_ready w' = context_ready w"

lemma login_step_refl:
  "filed_ok w \<Longrightarrow> find_session (smgr w) (session_id (heap w a)) = Some a \<Longrightarrow> login_step nick a w w"
  by (simp add: login_step_def)

lemma login_step_trans:
  assumes "login_step nick a w w'" "nickname_index (smgr w') = nickname_index (smgr w)" "login_step nick a w' w''"
  shows "login_step nick a w w''"
  unfolding login_step_def
proof (intro conjI allI impI)
  note one = assms(1) [unfolded login_step_def] and two = assms(3) [unfolded login_step_def]
  show "filed_ok w''" "heap w'' a = heap w a" "find_session (smgr w'') (session_id (heap w a)) = Some a"
    "pool (spool w'') = pool (spool w)" "cur_strand w'' = cur_strand w" "context_ready w'' = context_ready w"
    using one two by metis+
  show "find_session (smgr w) k = Some b" "heap w'' b = heap w b" if "find_session (smgr w'') k = Some b" for k b
    using one two that by metis+
  show "find_session (smgr w'') k = Some b"
    if "find_session (smgr w) k = Some b \<and> um_find (nickname_index (smgr w)) nick \<noteq> Some b" for k b
    using one two that assms(2) by metis
qed

lemma login_stepD:
  assumes "login_step nick a w w'"
  shows "filed_ok w'" "heap w' a = heap w a" "find_session (smgr w') (session_id (heap w' a)) = Some a"
    and "alive w' = alive w" "cur_strand w' = cur_strand w" "context_ready w' = context_ready w"
    and "find_session (smgr w') k = Some b \<Longrightarrow> find_session (smgr w) k = Some b \<and> heap w' b = heap w b"
    and "find_session (smgr w) k = Some b \<Longrightarrow> um_find (nickname_index (smgr w)) nick \<noteq> Some b \<Longrightarrow>
      find_session (smgr w') k = Some b"
  using assms unfolding login_step_def alive_def fun_eq_iff by metis+

lemma add_session_again:
  assumes "filed_ok w" "find_session (smgr w) (session_id (heap w a)) = Some a"
  shows "login_step nick a w (add_session a w)" "nickname_index (smgr (add_session a w)) = nickname_index (smgr w)"
    "heap (add_session a w) = heap w" "find_session (smgr (add_session a w)) = find_session (smgr w)"
    "cur_strand (add_session a w) = cur_strand w" "pool (spool (add_session a w)) = pool (spool w)"
proof -
  let ?sid = "session_id (heap w a)"
  have m: "manager_ok (smgr w)" using assms(1) by (simp add: filed_ok_def)
  have e: "add_session a w = w\<lparr>smgr := put_session ?sid a (smgr w)\<rparr>"
    using assms(2) by (simp add: add_session_def mgr_add_session_def)
  have f: "find_session (put_session ?sid a (smgr w)) = find_session (smgr w)"
    using assms(2) by (simp add: fun_eq_iff find_put_session [OF m])
  have "filed_ok (w\<lparr>smgr := put_session ?sid a (smgr w)\<rparr>)"
    using assms(1) put_session_ok [OF m, of ?sid a] f by (rule filed_ok_smgr)
  then show "login_step nick a w (add_session a w)" using assms(2) by (simp add: e f login_step_def)
  show "nickname_index (smgr (add_session a w)) = nickname_index (smgr w)"
    "heap (add_session a w) = heap w" "find_session (smgr (add_session a w)) = find_session (smgr w)"
    "cur_strand (add_session a w) = cur_strand w" "pool (spool (add_session a w)) = pool (spool w)"
    by (simp_all add: e f) (simp add: put_session_def Let_def)
qed

lemma evict_step:
  fixes c :: app_context and msg :: string
  assumes "filed_ok w" "find_session (smgr w) (session_id (heap w a)) = Some a" "off_strands w"
    and "owner_quiet nick w"
  defines "w' \<equiv> evict_previous c msg nick a w"
  shows "login_step nick a w w'" and "nickname_index (smgr w') = nickname_index (smgr w)"
    and "strand (heap w' b) = strand (heap w b)" and "session_id (heap w' b) = session_id (heap w b)"
    and "find_session_by_nickname (alive w) (smgr w) nick = Some p \<Longrightarrow> p \<noteq> a \<Longrightarrow>
      find_session (smgr w') (session_id (heap w p)) = None"
proof -
  have "login_step nick a w w' \<and> nickname_index (smgr w') = nickname_index (smgr w)
      \<and> (\<forall>b. strand (heap w' b) = strand (heap w b) \<and> session_id (heap w' b) = session_id (heap w b))
      \<and> (\<forall>p. find_session_by_nickname (alive w) (smgr w) nick = Some p \<longrightarrow> p \<noteq> a \<longrightarrow>
            find_session (smgr w') (session_id (heap w p)) = None)"
  proof (cases "\<exists>p. find_session_by_nickname (alive w) (smgr w) nick = Some p \<and> p \<noteq> a")
    case False
    then have "w' = w" unfolding w'_def evict_previous_def by (auto split: option.split)
    then show ?thesis using False assms(1,2) by (auto simp: login_step_refl)
  next
    case True
    then obtain p where p: "find_session_by_nickname (alive w) (smgr w) nick = Some p" "p \<noteq> a" by blast
    define u where "u = w\<lparr>posted := posted w @ [(strand (heap w p), WriteJob p msg)]\<rparr>"
    have w': "w' = close_session p u"
      using p assms(3) unfolding w'_def evict_previous_def u_def by (simp add: post_write_off off_strands_def)
    have qp: "quiet w p" using assms(4) p(1) by (simp add: owner_quiet_def)
    have u: "filed_ok u" "quiet u p" using assms(1) qp by (simp_all add: u_def filed_ok_def quiet_def)
    note q = close_quiet [OF u, folded w']
    have other: "session_id (heap w p) \<noteq> session_id (heap w a)"
      using assms(2) qp p(2) by (auto simp: quiet_def)
    have keep: "find_session (smgr w') k = Some b \<Longrightarrow> find_session (smgr w) k = Some b \<and> heap w' b = heap w b" for k b
    proof -
      assume k: "find_session (smgr w') k = Some b"
      then have f: "find_session (smgr w) k = Some b" "k \<noteq> session_id (heap w p)" by (auto simp: q(2) u_def split: if_splits)
      then have "b \<noteq> p" using assms(1) by (auto simp: filed_ok_def)
      then show ?thesis using f(1) q(3) [of b] by (simp add: u_def)
    qed
    have "login_step nick a w w'"
      unfolding login_step_def
    proof (intro conjI allI impI)
      show "heap w' a = heap w a" using q(3) [of a] p(2) by (simp add: u_def)
      show "find_session (smgr w') (session_id (heap w a)) = Some a" using other assms(2) by (simp add: q(2) u_def)
      show "find_session (smgr w') k = Some b"
        if "find_session (smgr w) k = Some b \<and> um_find (nickname_index (smgr w)) nick \<noteq> Some b" for k b
      proof -
        have "b \<noteq> p" using that p(1) by (auto simp: find_session_by_nickname_def split: option.splits if_splits)
        then have "k \<noteq> session_id (heap w p)"
          using that qp by (auto simp: quiet_def)
        then show ?thesis using that by (simp add: q(2) u_def)
      qed
    qed (use q(1) keep in \<open>simp_all add: w' u_def\<close>)
    moreover have "find_session (smgr w') (session_id (heap w p)) = None" by (simp add: q(2) u_def)
    ultimately show ?thesis using q(4) p close_session_ids [of p u] by (auto simp: w' u_def)
  qed
  then show "login_step nick a w w'" and "nickname_index (smgr w') = nickname_index (smgr w)"
    and "strand (heap w' b) = strand (heap w b)" and "session_id (heap w' b) = session_id (heap w b)"
    and "find_session_by_nickname (alive w) (smgr w) nick = Some p \<Longrightarrow> p \<noteq> a \<Longrightarrow>
      find_session (smgr w') (session_id (heap w p)) = None" by blast+
qed

lemma register_evicts:
  "register_nickname c nick a w =
     (let w' = evict_previous c other_login_msg nick a w in w'\<lparr>smgr := set_nickname_owner nick a (smgr w')\<rparr>)"
  by (simp add: register_nickname_def evict_previous_def)

text \<open>The part of a login up to the registration of the nickname.\<close>

lemma login_registers:
  fixes c :: app_context
  assumes w: "filed_ok w" "find_session (smgr w) (session_id (heap w a)) = Some a" "off_strands w"
    and "owner_quiet nick w"
  defines "w' \<equiv> register_nickname c nick a (evict_previous c duplicate_login_msg nick a (add_session a w))"
  shows "login_step nick a w w'" and "nickname_index (smgr w') = um_put nick a (nickname_index (smgr w))"
    and "strand (heap w' b) = strand (heap w b)"
    and "find_session_by_nickname (alive w) (smgr w) nick = Some p \<Longrightarrow> p \<noteq> a \<Longrightarrow>
      find_session (smgr w') (session_id (heap w p)) = None"
proof -
  define w1 where "w1 = add_session a w"
  define w2 where "w2 = evict_previous c duplicate_login_msg nick a w1"
  define w3 where "w3 = evict_previous c other_login_msg nick a w2"
  note one = add_session_again [OF w(1,2), folded w1_def]
  have w1: "filed_ok w1" "find_session (smgr w1) (session_id (heap w1 a)) = Some a" "off_strands w1"
    using one(1,3,5) w(3) by (auto simp: login_step_def off_strands_def)
  have alive1: "alive w1 = alive w" using one(6) by (simp add: alive_def fun_eq_iff)
  then have same: "find_session_by_nickname (alive w1) (smgr w1) nick = find_session_by_nickname (alive w) (smgr w) nick"
    using one(2) by (simp add: find_session_by_nickname_def)
  have "owner_quiet nick w1" using assms(4) one(3,4) same by (simp add: owner_quiet_def quiet_def)
  note two = evict_step [OF w1 this, where c = c and msg = duplicate_login_msg, folded w2_def]
  have w2: "filed_ok w2" "find_session (smgr w2) (session_id (heap w2 a)) = Some a" "off_strands w2"
    using two(3) w1(3) login_stepD(1,3,5) [OF two(1)] by (simp_all add: off_strands_def)
  have alive2: "alive w2 = alive w1" by (rule login_stepD(4) [OF two(1)])
  have "quiet w2 p" if "find_session_by_nickname (alive w2) (smgr w2) nick = Some p" for p
    using two(2,4,5) w2(2) that alive2 unfolding quiet_def find_session_by_nickname_def
    by (cases "p = a") (simp_all split: option.splits if_splits)
  then have "owner_quiet nick w2" by (simp add: owner_quiet_def)
  note three = evict_step [OF w2 this, where c = c and msg = other_login_msg, folded w3_def]
  have w': "w' = w3\<lparr>smgr := set_nickname_owner nick a (smgr w3)\<rparr>"
    by (simp add: w'_def register_evicts w1_def w2_def w3_def Let_def)
  have "manager_ok (set_nickname_owner nick a (smgr w3))"
    using three(1) unfolding login_step_def filed_ok_def by (metis set_nickname_owner_ok)
  moreover have "filed_ok w3" using three(1) unfolding login_step_def by metis
  ultimately have "filed_ok w'" unfolding w' by (intro filed_ok_smgr find_set_nickname_owner)
  moreover have "find_session (smgr w3) (session_id (heap w3 a)) = Some a" using three(1) unfolding login_step_def by metis
  ultimately have four: "login_step nick a w3 w'" by (simp add: login_step_def w')
  show "login_step nick a w w'"
    using login_step_trans [OF login_step_trans [OF login_step_trans [OF one(1,2) two(1)] _ three(1)] _ four] one(2) two(2) three(2)
    by simp
  show "nickname_index (smgr w') = um_put nick a (nickname_index (smgr w))"
    using one(2) two(2) three(2) by (simp add: w' set_nickname_owner_def)
  show "strand (heap w' b) = strand (heap w b)" using two(3) three(3) one(3) by (simp add: w')
  show "find_session (smgr w') (session_id (heap w p)) = None"
    if "find_session_by_nickname (alive w) (smgr w) nick = Some p" "p \<noteq> a"
  proof -
    have "find_session (smgr w2) (session_id (heap w p)) = None"
      using two(5) [of p] that one(3) same by simp
    then have "find_session (smgr w3) (session_id (heap w p)) \<noteq> Some b" for b
      using login_stepD(7) [OF three(1)] by fastforce
    then have "find_session (smgr w3) (session_id (heap w p)) = None" by (meson option.exhaust)
    then show ?thesis by (simp add: w')
  qed
qed

lemma assign_zone_frame:
  "smgr (assign_zone a z w) = smgr w" "spool (assign_zone a z w) = spool w" "pool_set (assign_zone a z w) = pool_set w"
  "data_handler_alive (assign_zone a z w) = data_handler_alive w" "cur_strand (assign_zone a z w) = cur_strand w"
  "posted (assign_zone a z w) = posted w" "context_ready (assign_zone a z w) = context_ready w"
  "heap (assign_zone a z w) = heap w \<or> heap (assign_zone a z w) = (heap w)(a := (heap w a)\<lparr>zone_id := z, zone := Some z\<rparr>)"
  by (auto simp: assign_zone_def assign_session_to_zone_def split_beta Let_def split: option.split)

text \<open>
  The whole login, run on the router's strand: everything after the registration touches
  the session's own fields, its zone, and the messages waiting on strands.
\<close>

lemma login_result:
  fixes c :: app_context
  assumes w: "filed_ok w" "find_session (smgr w) (session_id (heap w a)) = Some a" "off_strands w"
    and "owner_quiet nick w"
    and j: "value_int j ''code'' (-1) = Inr 0" "context_ready w"
  obtains w3 w6 where "login_step nick a w w3"
    and "nickname_index (smgr w3) = um_put nick a (nickname_index (smgr w))"
    and "\<And>p. find_session_by_nickname (alive w) (smgr w) nick = Some p \<Longrightarrow> p \<noteq> a \<Longrightarrow>
      find_session (smgr w3) (session_id (heap w p)) = None"
    and "on_user_info_ok c a nick j w = (None, w6\<lparr>posted := posted w6 @ [(strand (heap w a), WriteJob a
      (json_dump c (jobj [(''type'', JStr ''login_success''), (''nickname'', JStr nick)]) @ newline))]\<rparr>)"
    and "smgr w6 = smgr w3" "spool w6 = spool w3" "pool_set w6 = pool_set w3" "data_handler_alive w6 = data_handler_alive w3"
    and "cur_strand w6 = cur_strand w" "context_ready w6 = context_ready w" "\<And>b. strand (heap w6 b) = strand (heap w b)"
    and "\<And>b. b \<noteq> a \<Longrightarrow> heap w6 b = heap w3 b"
    and "\<exists>z zi. heap w6 a = (on_nickname_registered ((heap w a)\<lparr>nickname := nick\<rparr>))\<lparr>zone := z, zone_id := zi\<rparr>"
proof -
  define w3 where "w3 = register_nickname c nick a (evict_previous c duplicate_login_msg nick a (add_session a w))"
  define w5 where "w5 = assign_zone a 1 (upd a (\<lambda>s. on_nickname_registered (s\<lparr>nickname := nick\<rparr>)) w3)"
  define m where "m = json_dump c (jobj [(''type'', JStr ''notice''), (''msg'', JStr (nick @ '' has entered.''))]) @ newline"
  define w6 where "w6 = broadcast c m (session_id (heap w5 a)) w5"
  note r = login_registers [OF w assms(4), where c = c, folded w3_def]
  have ha: "heap w3 a = heap w a" using r(1) by (simp add: login_step_def)
  have h5: "heap w5 a = (on_nickname_registered ((heap w a)\<lparr>nickname := nick\<rparr>))\<lparr>zone := zone (heap w5 a), zone_id := zone_id (heap w5 a)\<rparr>"
    "\<And>b. b \<noteq> a \<Longrightarrow> heap w5 b = heap w3 b"
    using assign_zone_frame(8) [of a 1 "upd a (\<lambda>s. on_nickname_registered (s\<lparr>nickname := nick\<rparr>)) w3"]
    by (auto simp: w5_def ha)
  have strand5: "strand (heap w5 b) = strand (heap w b)" for b
  proof (cases "b = a")
    case True
    have "strand (heap w5 a) = strand (on_nickname_registered ((heap w a)\<lparr>nickname := nick\<rparr>))" by (subst h5(1)) simp
    then show ?thesis using True by (simp add: on_nickname_registered_def)
  qed (simp add: h5(2) r(3))
  have cur5: "cur_strand w5 = cur_strand w" using r(1) by (simp add: w5_def assign_zone_frame login_step_def)
  have off5: "cur_strand w5 \<noteq> Some (strand (heap w5 b))" for b using w(3) strand5 cur5 by (simp add: off_strands_def)
  have w6: "w6 = w5\<lparr>posted := posted w5 @ map (\<lambda>b. (strand (heap w5 b), WriteJob b m)) (broadcast_targets (session_id (heap w5 a)) w5)\<rparr>"
    unfolding w6_def broadcast_def using off5 by (intro fold_post_write) blast
  have alive: "alive w a" by (rule filed_alive [OF w(1,2)])
  have alive6: "alive w6 a" using alive r(1) by (simp add: w6 w5_def assign_zone_frame alive_def login_step_def)
  have "on_user_info_ok c a nick j w = (None, complete_success c a nick w6)"
    unfolding w6_def w5_def w3_def m_def using j alive by (simp add: on_user_info_ok_def Let_def)
  also have "\<dots> = (None, w6\<lparr>posted := posted w6 @ [(strand (heap w a), WriteJob a
      (json_dump c (jobj [(''type'', JStr ''login_success''), (''nickname'', JStr nick)]) @ newline))]\<rparr>)"
    using alive6 off5 strand5 by (simp add: complete_success_def w6 post_write_off)
  finally have run: "on_user_info_ok c a nick j w = (None, w6\<lparr>posted := posted w6 @ [(strand (heap w a), WriteJob a
      (json_dump c (jobj [(''type'', JStr ''login_success''), (''nickname'', JStr nick)]) @ newline))]\<rparr>)" .
  have f: "smgr w6 = smgr w3" "spool w6 = spool w3" "pool_set w6 = pool_set w3" "data_handler_alive w6 = data_handler_alive w3"
    by (simp_all add: w6 w5_def assign_zone_frame)
  have g: "cur_strand w6 = cur_strand w" "context_ready w6 = context_ready w" "heap w6 = heap w5"
    using cur5 login_stepD(6) [OF r(1)] by (simp_all add: w6 w5_def assign_zone_frame)
  show ?thesis by (rule that [OF r(1,2,4) run f g(1,2)]) (use g(3) strand5 h5 in \<open>simp_all, blast\<close>)
qed

text \<open>The same with the resulting state named.\<close>

lemma login_effect:
  fixes c :: app_context
  assumes w: "filed_ok w" "find_session (smgr w) (session_id (heap w a)) = Some a" "off_strands w"
    and q: "owner_quiet nick w"
    and j: "value_int j ''code'' (-1) = Inr 0" "context_ready w"
  defines "w' \<equiv> snd (on_user_info_ok c a nick j w)"
  shows "fst (on_user_info_ok c a nick j w) = None" "filed_ok w'" "off_strands w'" "context_ready w'"
    and "find_session_by_nickname (alive w') (smgr w') n =
      (if n = nick then Some a else find_session_by_nickname (alive w) (smgr w) n)"
    and "find_session (smgr w') (session_id (heap w a)) = Some a"
    and "\<exists>z zi. heap w' a = (on_nickname_registered ((heap w a)\<lparr>nickname := nick\<rparr>))\<lparr>zone := z, zone_id := zi\<rparr>"
    and "find_session_by_nickname (alive w) (smgr w) nick = Some p \<Longrightarrow> p \<noteq> a \<Longrightarrow>
      find_session (smgr w') (session_id (heap w p)) = None"
    and "find_session (smgr w') k = Some b \<Longrightarrow> find_session (smgr w) k = Some b \<and> (b \<noteq> a \<longrightarrow> heap w' b = heap w b)"
    and "find_session (smgr w) k = Some b \<Longrightarrow> um_find (nickname_index (smgr w)) nick \<noteq> Some b \<Longrightarrow>
      find_session (smgr w') k = Some b"
    and "last (posted w') = (strand (heap w a), WriteJob a
      (json_dump c (jobj [(''type'', JStr ''login_success''), (''nickname'', JStr nick)]) @ newline))"
proof -
  obtain w3 w6 where r: "login_step nick a w w3" "nickname_index (smgr w3) = um_put nick a (nickname_index (smgr w))"
    "\<And>p. find_session_by_nickname (alive w) (smgr w) nick = Some p \<Longrightarrow> p \<noteq> a \<Longrightarrow>
      find_session (smgr w3) (session_id (heap w p)) = None"
    and run: "on_user_info_ok c a nick j w = (None, w6\<lparr>posted := posted w6 @ [(strand (heap w a), WriteJob a
      (json_dump c (jobj [(''type'', JStr ''login_success''), (''nickname'', JStr nick)]) @ newline))]\<rparr>)"
    and f: "smgr w6 = smgr w3" "spool w6 = spool w3" "pool_set w6 = pool_set w3" "data_handler_alive w6 = data_handler_alive w3"
    and g: "cur_strand w6 = cur_strand w" "context_ready w6 = context_ready w" "\<And>b. strand (heap w6 b) = strand (heap w b)"
    and h: "\<And>b. b \<noteq> a \<Longrightarrow> heap w6 b = heap w3 b"
    and ha: "\<exists>z zi. heap w6 a = (on_nickname_registered ((heap w a)\<lparr>nickname := nick\<rparr>))\<lparr>zone := z, zone_id := zi\<rparr>"
    by (rule login_result [OF w q j, where c = c]) auto
  note d = login_stepD [OF r(1)]
  have w': "smgr w' = smgr w3" "heap w' = heap w6" "spool w' = spool w3" "pool_set w' = pool_set w3"
    "data_handler_alive w' = data_handler_alive w3" "cur_strand w' = cur_strand w" "context_ready w'"
    "alive w' = alive w" using f g(1,2) j(2) d(4) by (simp_all add: w'_def run alive_def fun_eq_iff)
  have "session_id (heap w6 a) = session_id (heap w a) \<and> life_state (heap w6 a) = life_state (heap w3 a)"
    using ha d(2) by (auto simp: on_nickname_registered_def)
  then have ids: "session_id (heap w6 b) = session_id (heap w3 b) \<and> life_state (heap w6 b) = life_state (heap w3 b)" for b
    using h [of b] d(2) by (cases "b = a") auto
  show "filed_ok w'" using d(1) unfolding filed_ok_def by (simp add: w' ids)
  show "fst (on_user_info_ok c a nick j w) = None" by (simp add: run)
  show "off_strands w'" using w(3) g(3) by (simp add: off_strands_def w')
  show "context_ready w'" by (rule w'(7))
  have "alive w a" by (rule filed_alive [OF w(1,2)])
  then show "find_session_by_nickname (alive w') (smgr w') n =
      (if n = nick then Some a else find_session_by_nickname (alive w) (smgr w) n)"
    using r(2) by (simp add: w' find_session_by_nickname_def um_find_put)
  show "find_session (smgr w') (session_id (heap w a)) = Some a" using d(2,3) by (simp add: w')
  show "\<exists>z zi. heap w' a = (on_nickname_registered ((heap w a)\<lparr>nickname := nick\<rparr>))\<lparr>zone := z, zone_id := zi\<rparr>"
    using ha by (simp add: w')
  show "find_session (smgr w') (session_id (heap w p)) = None"
    if "find_session_by_nickname (alive w) (smgr w) nick = Some p" "p \<noteq> a" using r(3) that by (simp add: w')
  show "find_session (smgr w) k = Some b \<and> (b \<noteq> a \<longrightarrow> heap w' b = heap w b)" if "find_session (smgr w') k = Some b"
    using that d(7) [of k b] h [of b] by (simp add: w')
  show "find_session (smgr w') k = Some b"
    if "find_session (smgr w) k = Some b" "um_find (nickname_index (smgr w)) nick \<noteq> Some b"
    using d(8) [OF that] by (simp add: w')
  show "last (posted w') = (strand (heap w a), WriteJob a
      (json_dump c (jobj [(''type'', JStr ''login_success''), (''nickname'', JStr nick)]) @ newline))"
    by (simp add: w'_def run)
qed

text \<open>Every registered session with a nickname is the one its nickname resolves to.\<close>

definition nick_owned :: "world \<Rightarrow> bool" where
  "nick_owned w \<longleftrightarrow> (\<forall>k b. find_session (smgr w) k = Some b \<and> nickname (heap w b) \<noteq> [] \<longrightarrow>
     find_session_by_nickname (alive w) (smgr w) (nickname (heap w b)) = Some b)"

text \<open>Two registered sessions, for examples.\<close>

lemma filed_ok_example2:
  "\<exists>w. filed_ok w \<and> find_session (smgr w) 5 = Some 0 \<and> find_session (smgr w) 6 = Some 1
     \<and> session_id (heap w 0) = 5 \<and> session_id (heap w 1) = 6
     \<and> cur_strand w = None \<and> context_ready w \<and> nickname_index (smgr w) = []
     \<and> (\<forall>k b. find_session (smgr w) k = Some b \<longrightarrow> nickname (heap w b) = [])
     \<and> strand (heap w 0) = SessStrand 0 \<and> strand (heap w 1) = SessStrand 1"
proof -
  obtain w0 where w0: "filed_ok w0" "find_session (smgr w0) 5 = Some 0" "cur_strand w0 = None" "all_sessions (smgr w0) = [0]"
    "context_ready w0" "nickname_index (smgr w0) = []"
    "heap w0 0 = (session_new 0 1 (SessStrand 0))\<lparr>session_id := 5, life_state := Idle\<rparr>"
    using filed_ok_example by blast
  have m: "manager_ok (smgr w0)" using w0(1) by (simp add: filed_ok_def)
  have only: "k = 5 \<and> a = 0" if "find_session (smgr w0) k = Some a" for k a
  proof -
    have "a = 0" using all_sessions_iff [OF m, of a] w0(4) that by auto
    moreover have "session_id (heap w0 a) = k" using that w0(1) unfolding filed_ok_def by blast
    ultimately show ?thesis using w0(7) by simp
  qed
  define w where "w = (upd 1 (\<lambda>s. s\<lparr>strand := SessStrand 1, session_id := 6, nickname := [], life_state := Idle\<rparr>) w0)\<lparr>smgr := put_session 6 1 (smgr w0),
      spool := \<lparr>pool = [0, 1], max_size = 2, reusable_indices = [], available_index_set = {}\<rparr>\<rparr>"
  have f: "find_session (smgr w) k = (if k = 6 then Some 1 else find_session (smgr w0) k)" for k
    by (simp add: w_def find_put_session [OF m])
  have "filed_ok w"
    unfolding filed_ok_def
  proof (intro conjI allI impI)
    fix sid a assume "find_session (smgr w) sid = Some a"
    then have "sid = 6 \<and> a = 1 \<or> sid = 5 \<and> a = 0" using only by (auto simp: f split: if_splits)
    then show "session_id (heap w a) = sid" "life_state (heap w a) \<in> {Idle, Active}"
      "\<exists>i. pool_index (pool (spool w)) a = Some i \<and> i \<notin> available_index_set (spool w)"
      using w0(7) by (auto simp: w_def)
  qed (use w0(1) put_session_ok [OF m] in \<open>auto simp: w_def filed_ok_def\<close>)
  moreover have "nickname (heap w b) = []" if "find_session (smgr w) k = Some b" for k b
  proof (cases "k = 6")
    case True
    then show ?thesis using that f by (simp add: w_def)
  next
    case False
    then have "b = 0" using that only [of k b] f by simp
    then show ?thesis using w0(7) by (simp add: w_def session_new_def)
  qed
  moreover have "find_session (smgr w) 5 = Some 0" "find_session (smgr w) 6 = Some 1" using w0(2) by (simp_all add: f)
  moreover have "session_id (heap w 0) = 5" "session_id (heap w 1) = 6" "cur_strand w = None" "context_ready w"
    "nickname_index (smgr w) = []" "strand (heap w 0) = SessStrand 0" "strand (heap w 1) = SessStrand 1"
    using w0(3,5,6,7) by (simp_all add: w_def put_session_def session_new_def Let_def)
  ultimately show ?thesis by blast
qed

section \<open>Properties\<close>

text \<open>
  C4: What a login establishes. When the answer for \<open>nick\<close> arrives with code 0 for a
  registered session, no exception is raised; the session stays registered, carries the
  nickname, is \<open>Ready\<close> and has no login timer left; the nickname now resolves to it and
  every other nickname resolves as before; whoever owned the nickname before is no longer
  registered; every other session stays registered; and the last message queued is the
  session's own \<open>login_success\<close>.
\<close>

theorem login_establishes:
  assumes "filed_ok w" "find_session (smgr w) (session_id (heap w a)) = Some a" "off_strands w"
    and "owner_quiet nick w"
    and "value_int j ''code'' (-1) = Inr 0" "context_ready w"
    and "on_user_info_ok c a nick j w = (e, w')"
  shows "e = None
    \<and> find_session (smgr w') (session_id (heap w a)) = Some a
    \<and> nickname (heap w' a) = nick \<and> state (heap w' a) = Ready \<and> nickname_registered (heap w' a)
    \<and> login_timer (heap w' a) = None
    \<and> (\<forall>n. find_session_by_nickname (alive w') (smgr w') n =
          (if n = nick then Some a else find_session_by_nickname (alive w) (smgr w) n))
    \<and> (\<forall>p. find_session_by_nickname (alive w) (smgr w) nick = Some p \<and> p \<noteq> a \<longrightarrow>
          find_session (smgr w') (session_id (heap w p)) = None)
    \<and> (\<forall>k b. find_session (smgr w) k = Some b \<and> um_find (nickname_index (smgr w)) nick \<noteq> Some b \<longrightarrow>
          find_session (smgr w') k = Some b)
    \<and> last (posted w') = (strand (heap w a), WriteJob a
        (json_dump c (jobj [(''type'', JStr ''login_success''), (''nickname'', JStr nick)]) @ newline))"
proof -
  note l = login_effect [OF assms(1-6), where c = c, unfolded assms(7) fst_conv snd_conv]
  have "nickname (heap w' a) = nick \<and> state (heap w' a) = Ready \<and> nickname_registered (heap w' a)
    \<and> login_timer (heap w' a) = None" using l(7) by (auto simp: on_nickname_registered_def)
  then show ?thesis using l(1,5,6,8,10,11) by blast
qed

theorem login_establishes_witness:
  "\<exists>w w' c. find_session (smgr w) 5 = Some 0 \<and> nickname_index (smgr w) = []
     \<and> w' = snd (on_user_info_ok c 0 ''bob'' (bypass_answer ''bob'') w)
     \<and> find_session (smgr w') 5 = Some 0 \<and> nickname (heap w' 0) = ''bob''
     \<and> find_session_by_nickname (alive w') (smgr w') ''bob'' = Some 0"
proof -
  obtain w where w: "filed_ok w" "find_session (smgr w) 5 = Some 0" "cur_strand w = None" "session_id (heap w 0) = 5"
    "context_ready w" "nickname_index (smgr w) = []"
    using filed_ok_example2 by blast
  have h: "find_session (smgr w) (session_id (heap w 0)) = Some 0" "off_strands w"
    "owner_quiet ''bob'' w"
    "value_int (bypass_answer ''bob'') ''code'' (-1) = Inr 0"
    using w by (simp_all add: off_strands_def owner_quiet_def find_session_by_nickname_def um_find_def bypass_answer_def jobj_def int32_wrap_def)
  obtain e w' where run: "on_user_info_ok undefined 0 ''bob'' (bypass_answer ''bob'') w = (e, w')" by (metis surj_pair)
  have "find_session (smgr w') 5 = Some 0 \<and> nickname (heap w' 0) = ''bob''
      \<and> find_session_by_nickname (alive w') (smgr w') ''bob'' = Some 0"
    using login_establishes [OF w(1) h w(5) run] unfolding w(4) by metis
  with w(2,6) show ?thesis by (metis run snd_conv)
qed

text \<open>
  Nothing ties a login request to the client that made it: the callback keeps the session
  object. When the client disconnects before the answer arrives, its session is back in the
  pool; the answer then registers this free object once more, under the old id and with the
  nickname, and announces it, while the pool hands it to the next client.
\<close>

theorem late_answer_registers_free_session:
  assumes "filed_ok w" "find_session (smgr w) (session_id (heap w a)) = Some a" "off_strands w"
    and "um_find (nickname_index (smgr w)) nick = None"
    and "value_int j ''code'' (-1) = Inr 0" "context_ready w"
    and "pool_index (pool (spool w)) a = Some i"
    and "u = close_session a w" "w' = snd (on_user_info_ok c a nick j u)"
  shows "find_session (smgr u) (session_id (heap w a)) = None \<and> i \<in> set (reusable_indices (spool u))
    \<and> find_session (smgr w') (session_id (heap w a)) = Some a \<and> i \<in> set (reusable_indices (spool w'))
    \<and> nickname (heap w' a) = nick \<and> state (heap w' a) = Ready"
proof -
  let ?sid = "session_id (heap w a)"
  obtain i' where f: "manager_ok (smgr w)" "pool_set w" "data_handler_alive w" "life_state (heap w a) = Idle \<or> life_state (heap w a) = Active"
    and i': "pool_index (pool (spool w)) a = Some i'" "i' \<notin> available_index_set (spool w)"
    using assms(1,2) unfolding filed_ok_def by blast
  have i: "i \<notin> available_index_set (spool w)" using i' assms(7) by simp
  note ce = close_session_effect [OF f(1) assms(2) refl f(2) assms(7) i f(4,3), folded assms(8)]
  have q: "quiet w a" using assms(2) by (simp add: quiet_def)
  note cq = close_quiet [OF assms(1) q, folded assms(8)]
  have none: "find_session (smgr u) ?sid = None" by (simp add: cq(2))
  have free: "i \<in> set (reusable_indices (spool u))" by (simp add: ce(4))
  have ids: "strand (heap u b) = strand (heap w b)" "session_id (heap u b) = session_id (heap w b)" for b
    using close_session_ids [of a w b] by (simp_all add: assms(8))
  have fr: "cur_strand u = cur_strand w" "context_ready u = context_ready w" "pool (spool u) = pool (spool w)"
    by (simp_all add: assms(8))
  have al: "alive u a" using filed_alive [OF assms(1,2)] by (simp add: alive_def fr)
  have mu: "manager_ok (smgr u)" using cq(1) by (simp add: filed_ok_def)
  define u1 where "u1 = u\<lparr>smgr := put_session ?sid a (smgr u)\<rparr>"
  have u1: "add_session a u = u1" using none by (simp add: add_session_def mgr_add_session_def ids u1_def)
  have idx: "um_find (nickname_index (smgr u1)) nick = None"
    using cq(4) assms(4) by (simp add: u1_def put_session_def Let_def)
  define u3 where "u3 = u1\<lparr>smgr := set_nickname_owner nick a (smgr u1)\<rparr>"
  have u3: "register_nickname c nick a (evict_previous c duplicate_login_msg nick a u1) = u3"
    using idx by (simp add: register_nickname_def evict_previous_def find_session_by_nickname_def u3_def)
  define u5 where "u5 = assign_zone a 1 (upd a (\<lambda>s. on_nickname_registered (s\<lparr>nickname := nick\<rparr>)) u3)"
  have h5: "heap u5 b = (if b = a then (on_nickname_registered ((heap u a)\<lparr>nickname := nick\<rparr>))\<lparr>zone := zone (heap u5 a), zone_id := zone_id (heap u5 a)\<rparr>
      else heap u b)" for b
    using assign_zone_frame(8) [of a 1 "upd a (\<lambda>s. on_nickname_registered (s\<lparr>nickname := nick\<rparr>)) u3"]
    by (auto simp: u5_def u3_def u1_def)
  have s5: "strand (heap u5 b) = strand (heap w b)" for b
    by (subst h5) (simp add: on_nickname_registered_def ids)
  have f5: "smgr u5 = smgr u3" "spool u5 = spool u" "cur_strand u5 = cur_strand w"
    by (simp_all add: u5_def assign_zone_frame u3_def u1_def fr)
  have off5: "cur_strand u5 \<noteq> Some (strand (heap u5 b))" for b
    using assms(3) by (simp add: f5 s5 off_strands_def)
  have "\<exists>ps. w' = u5\<lparr>posted := ps\<rparr>"
  proof -
    define m where "m = json_dump c (jobj [(''type'', JStr ''notice''), (''msg'', JStr (nick @ '' has entered.''))]) @ newline"
    define u6 where "u6 = broadcast c m (session_id (heap u5 a)) u5"
    have u6: "u6 = u5\<lparr>posted := posted u5 @ map (\<lambda>b. (strand (heap u5 b), WriteJob b m)) (broadcast_targets (session_id (heap u5 a)) u5)\<rparr>"
      unfolding u6_def broadcast_def using off5 by (intro fold_post_write) blast
    have "w' = complete_success c a nick u6"
      unfolding u6_def u5_def m_def assms(9)
      using assms(5,6) al by (simp add: on_user_info_ok_def Let_def fr u1 u3)
    then show ?thesis using off5 by (auto simp: complete_success_def u6 post_write_off)
  qed
  then obtain ps where w': "w' = u5\<lparr>posted := ps\<rparr>" ..
  have "find_session (smgr w') ?sid = Some a"
    by (simp add: w' f5 u3_def u1_def find_put_session [OF mu])
  moreover have "nickname (heap u5 a) = nick" "state (heap u5 a) = Ready"
    by (subst h5, simp add: on_nickname_registered_def)+
  ultimately show ?thesis using none free by (simp add: w' f5)
qed

theorem late_answer_registers_free_session_witness:
  "\<exists>w c i. let u = close_session 0 w; w' = snd (on_user_info_ok c 0 ''bob'' (bypass_answer ''bob'') u) in
     find_session (smgr u) 5 = None \<and> find_session (smgr w') 5 = Some 0
     \<and> i \<in> set (reusable_indices (spool w')) \<and> pool_index (pool (spool w)) 0 = Some i"
proof -
  obtain w where w: "filed_ok w" "find_session (smgr w) 5 = Some 0" "cur_strand w = None" "session_id (heap w 0) = 5"
    "context_ready w" "nickname_index (smgr w) = []"
    using filed_ok_example2 by blast
  obtain i where i: "pool_index (pool (spool w)) 0 = Some i" using w(1,2) unfolding filed_ok_def by blast
  have h: "find_session (smgr w) (session_id (heap w 0)) = Some 0" "off_strands w"
    "um_find (nickname_index (smgr w)) ''bob'' = None" "value_int (bypass_answer ''bob'') ''code'' (-1) = Inr 0"
    using w by (simp_all add: off_strands_def um_find_def bypass_answer_def jobj_def int32_wrap_def)
  from late_answer_registers_free_session [OF w(1) h w(5) i refl refl, of undefined] i w(4)
  show ?thesis by (intro exI [of _ w] exI [of _ undefined] exI [of _ i]) (simp add: Let_def)
qed

text \<open>
  C23: Nicknames stay unique. If every registered session that has a nickname is the one
  its nickname resolves to, this holds after a login too, so no two registered sessions
  have the same nickname.
\<close>

theorem nicknames_unique:
  assumes "filed_ok w" "find_session (smgr w) (session_id (heap w a)) = Some a" "off_strands w"
    and "owner_quiet nick w"
    and "value_int j ''code'' (-1) = Inr 0" "context_ready w" "nick_owned w"
    and "w' = snd (on_user_info_ok c a nick j w)"
  shows "nick_owned w'
    \<and> (\<forall>k b k' b'. find_session (smgr w') k = Some b \<and> find_session (smgr w') k' = Some b'
         \<and> nickname (heap w' b) = nickname (heap w' b') \<and> nickname (heap w' b) \<noteq> [] \<longrightarrow> b = b')"
proof -
  note l = login_effect [OF assms(1-6), where c = c, folded assms(8)]
  have "find_session_by_nickname (alive w') (smgr w') (nickname (heap w' b)) = Some b"
    if b: "find_session (smgr w') k = Some b" "nickname (heap w' b) \<noteq> []" for k b
  proof (cases "b = a")
    case True
    have "nickname (heap w' a) = nick" using l(7) by (auto simp: on_nickname_registered_def)
    then show ?thesis using True by (simp add: l(5))
  next
    case False
    have w: "find_session (smgr w) k = Some b" "heap w' b = heap w b" using l(9) [OF b(1)] False by auto
    then have own: "find_session_by_nickname (alive w) (smgr w) (nickname (heap w b)) = Some b"
      using assms(7) b(2) unfolding nick_owned_def by metis
    have "session_id (heap w b) = k" using w(1) assms(1) unfolding filed_ok_def by blast
    then have "nickname (heap w b) \<noteq> nick" using l(8) [of b] own False b(1) by auto
    then show ?thesis using own by (simp add: l(5) w(2))
  qed
  then show ?thesis unfolding nick_owned_def by (metis option.inject)
qed

theorem nicknames_unique_witness:
  "\<exists>w c. find_session (smgr w) 5 = Some 0 \<and> find_session (smgr w) 6 = Some 1
     \<and> nick_owned (snd (on_user_info_ok c 0 ''bob'' (bypass_answer ''bob'') w))"
proof -
  obtain w where w: "filed_ok w" "find_session (smgr w) 5 = Some 0" "find_session (smgr w) 6 = Some 1" "cur_strand w = None"
    "session_id (heap w 0) = 5" "context_ready w" "nickname_index (smgr w) = []"
    and n: "\<And>k b. find_session (smgr w) k = Some b \<Longrightarrow> nickname (heap w b) = []"
    using filed_ok_example2 by blast
  have h: "find_session (smgr w) (session_id (heap w 0)) = Some 0" "off_strands w"
    "owner_quiet ''bob'' w"
    "value_int (bypass_answer ''bob'') ''code'' (-1) = Inr 0"
    using w by (simp_all add: off_strands_def owner_quiet_def find_session_by_nickname_def um_find_def bypass_answer_def jobj_def int32_wrap_def)
  have "nick_owned w" unfolding nick_owned_def using n by blast
  from nicknames_unique [OF w(1) h w(6) this refl] w(2,3) show ?thesis by blast
qed

text \<open>
  A session is evicted for a name it no longer uses. The index keeps the entry of a
  session's earlier nickname: when \<open>p\<close> logs in as \<open>n\<close> and then as \<open>n'\<close>, and \<open>a\<close> logs in as
  the free name \<open>n\<close>, the session \<open>p\<close>, known as \<open>n'\<close>, is closed.
\<close>

theorem renamed_session_evicted:
  assumes "filed_ok w" "off_strands w" "context_ready w" "a \<noteq> p" "n \<noteq> n'"
    and "find_session (smgr w) (session_id (heap w a)) = Some a" "find_session (smgr w) (session_id (heap w p)) = Some p"
    and "um_find (nickname_index (smgr w)) n = None" "um_find (nickname_index (smgr w)) n' = None"
    and "value_int j ''code'' (-1) = Inr 0"
    and "w1 = snd (on_user_info_ok c p n j w)" "w2 = snd (on_user_info_ok c p n' j w1)"
    and "w3 = snd (on_user_info_ok c a n j w2)"
  shows "find_session (smgr w2) (session_id (heap w p)) = Some p \<and> nickname (heap w2 p) = n'
    \<and> find_session (smgr w3) (session_id (heap w p)) = None"
proof -
  have none: "find_session_by_nickname (alive w) (smgr w) n = None" "find_session_by_nickname (alive w) (smgr w) n' = None"
    using assms(8,9) by (simp_all add: find_session_by_nickname_def)
  then have q0: "owner_quiet n w" by (simp add: owner_quiet_def)
  note l1 = login_effect [OF assms(1,7,2) q0 assms(10,3), where c = c, folded assms(11)]
  have id1: "session_id (heap w1 p) = session_id (heap w p)" using l1(7) by (auto simp: on_nickname_registered_def)
  have a1: "find_session (smgr w1) (session_id (heap w a)) = Some a" using l1(10) [OF assms(6)] assms(8) by simp
  have p1: "find_session (smgr w1) (session_id (heap w1 p)) = Some p" using l1(6) id1 by simp
  have q1: "owner_quiet n' w1" using none(2) assms(5) by (simp add: owner_quiet_def l1(5))
  note l2 = login_effect [OF l1(2) p1 l1(3) q1 assms(10) l1(4), where c = c, folded assms(12)]
  have id2: "session_id (heap w2 p) = session_id (heap w p)" using l2(7) id1 by (auto simp: on_nickname_registered_def)
  have own: "find_session_by_nickname (alive w2) (smgr w2) n = Some p" using l2(5) l1(5) assms(5) by simp
  have p2: "find_session (smgr w2) (session_id (heap w p)) = Some p" using l2(6) id1 by simp
  have "find_session_by_nickname (alive w1) (smgr w1) n' = None" using none(2) assms(5) by (simp add: l1(5))
  then have "um_find (nickname_index (smgr w1)) n' \<noteq> Some a"
    using filed_alive [OF l1(2) a1] by (auto simp: find_session_by_nickname_def)
  then have a2': "find_session (smgr w2) (session_id (heap w a)) = Some a" using l2(10) [OF a1] by blast
  moreover have "heap w2 a = heap w a" using l2(9) [OF a2'] l1(9) [OF a1] assms(4) by simp
  ultimately have a2: "find_session (smgr w2) (session_id (heap w2 a)) = Some a" by simp
  have q2: "owner_quiet n w2" using own p2 id2 by (simp add: owner_quiet_def quiet_def)
  note l3 = login_effect [OF l2(2) a2 l2(3) q2 assms(10) l2(4), where c = c, folded assms(13)]
  have "find_session (smgr w3) (session_id (heap w p)) = None" using l3(8) [OF own] assms(4) id2 by auto
  moreover have "nickname (heap w2 p) = n'" using l2(7) by (auto simp: on_nickname_registered_def)
  ultimately show ?thesis using p2 by blast
qed

theorem renamed_session_evicted_witness:
  "\<exists>w w2 w3 c. w2 = snd (on_user_info_ok c 1 ''alice'' (bypass_answer ''x'') (snd (on_user_info_ok c 1 ''bob'' (bypass_answer ''x'') w)))
     \<and> w3 = snd (on_user_info_ok c 0 ''bob'' (bypass_answer ''x'') w2)
     \<and> find_session (smgr w2) 6 = Some 1 \<and> nickname (heap w2 1) = ''alice'' \<and> find_session (smgr w3) 6 = None"
proof -
  obtain w where w: "filed_ok w" "find_session (smgr w) 5 = Some 0" "find_session (smgr w) 6 = Some 1" "cur_strand w = None"
    "session_id (heap w 0) = 5" "session_id (heap w 1) = 6" "context_ready w" "nickname_index (smgr w) = []"
    using filed_ok_example2 by blast
  have h: "off_strands w" "find_session (smgr w) (session_id (heap w 0)) = Some 0" "find_session (smgr w) (session_id (heap w 1)) = Some 1"
    "um_find (nickname_index (smgr w)) ''bob'' = None" "um_find (nickname_index (smgr w)) ''alice'' = None"
    "value_int (bypass_answer ''x'') ''code'' (-1) = Inr 0"
    using w by (simp_all add: off_strands_def um_find_def bypass_answer_def jobj_def int32_wrap_def)
  have "(0::addr) \<noteq> 1" "''bob'' \<noteq> ''alice''" by simp_all
  from renamed_session_evicted [OF w(1) h(1) w(7) this h(2-6) refl refl refl, where c = undefined] w(6)
  show ?thesis by metis
qed

end
