(* ===== verification/TcpHandlers.thy ===== *)
theory TcpHandlers
  imports Backend
begin

text \<open>
  The TCP side of \<^verbatim>\<open>MessageDispatcher\<close> and its handlers (\<^verbatim>\<open>MessageHandlers\<close>): login,
  logout, chat, zone chat and keepalive, and the dispatch of a parsed message, which turns
  every error into an answer or into the end of the session. The results say who receives
  a chat message, what a logout leaves behind, and how each kind of wrong message ends.
\<close>

section \<open>Definitions\<close>

subsection \<open>Handlers\<close>

text \<open>A handler returns the exception it raises, if any, and the state it leaves. \<open>pid\<close> is
  the process id, which request ids may contain.\<close>

definition not_logged_in_msg :: string where
  "not_logged_in_msg = ''{\"type\":\"logout\",\"msg\":\"You are not logged in.\"}'' @ newline"

definition login_handler :: "app_context \<Rightarrow> nat \<Rightarrow> addr \<Rightarrow> json \<Rightarrow> world \<Rightarrow> exn option \<times> world" where
  "login_handler c pid a msg w =
     (case value_string msg ''nickname'' ''anonymity'' of
        Inl e \<Rightarrow> (Some e, w)
      | Inr nick \<Rightarrow>
          if nick = [] then (None, post_write c a ''{\"type\":\"error\",\"msg\":\"nickname required\"}'' w)
          else if nick = ''quit'' then (None, close_session a (post_write c a not_logged_in_msg w))
          else login_begin c pid a nick (evict_previous c (duplicate_login_msg @ newline) nick a w))"

definition left_notice :: "app_context \<Rightarrow> string \<Rightarrow> string" where
  "left_notice c nick =
     json_dump c (jobj [(''type'', JStr ''notice''), (''msg'', JStr (nick @ '' has left.''))]) @ newline"

definition logout_handler :: "app_context \<Rightarrow> addr \<Rightarrow> world \<Rightarrow> exn option \<times> world" where
  "logout_handler c a w =
     (let nick = nickname (heap w a) in
      if nick = [] then (None, close_session a (post_write c a not_logged_in_msg w))
      else (None, close_session a (broadcast c (left_notice c nick) (session_id (heap w a)) w)))"

text \<open>What is sent to the others and to the sender.\<close>

definition chat_line :: "app_context \<Rightarrow> string \<Rightarrow> string \<Rightarrow> string \<Rightarrow> string" where
  "chat_line c ty nick text =
     json_dump c (jobj [(''type'', JStr ty), (''from'', JStr nick), (''msg'', JStr text)]) @ newline"

definition sent_notice :: "app_context \<Rightarrow> string \<Rightarrow> string" where
  "sent_notice c text = json_dump c (jobj [(''type'', JStr ''notice''), (''msg'', JStr text)]) @ newline"

definition chat_handler :: "app_context \<Rightarrow> addr \<Rightarrow> json \<Rightarrow> world \<Rightarrow> exn option \<times> world" where
  "chat_handler c a msg w =
     (case value_string msg ''msg'' [] of
        Inl e \<Rightarrow> (Some e, w)
      | Inr text \<Rightarrow>
          let w1 = broadcast c (chat_line c ''chat'' (nickname (heap w a)) text) (session_id (heap w a)) w
          in (None, post_write c a (sent_notice c (text @ '' 'Message sent completed.' '')) w1))"

definition error_line :: "app_context \<Rightarrow> string \<Rightarrow> string" where
  "error_line c text = json_dump c (jobj [(''type'', JStr ''error''), (''msg'', JStr text)]) @ newline"

definition chatzone_handler :: "app_context \<Rightarrow> addr \<Rightarrow> json \<Rightarrow> world \<Rightarrow> exn option \<times> world" where
  "chatzone_handler c a msg w =
     (let zid = zone_id (heap w a) in
      if zid \<le> 0 then (None, post_write c a (error_line c ''not in any zone'') w)
      else case value_string msg ''msg'' [] of
        Inl e \<Rightarrow> (Some e, w)
      | Inr text \<Rightarrow>
          if text = [] then (None, post_write c a (error_line c ''empty message'') w)
          else let w1 = broadcast_zone_tcp c (chat_line c ''chat_zone'' (nickname (heap w a)) text) zid
                          (session_id (heap w a)) w
               in (None, post_write c a (sent_notice c (text @ '' 'Message tcp_zone_sent completed.' '')) w1))"

definition keepalive_handler :: "time \<Rightarrow> addr \<Rightarrow> world \<Rightarrow> exn option \<times> world" where
  "keepalive_handler now a w = (None, upd a (update_alive_time now) w)"

subsection \<open>Dispatch\<close>

text \<open>The table the constructor fills: the type of a message and its handler.\<close>

definition tcp_handlers ::
  "app_context \<Rightarrow> nat \<Rightarrow> time \<Rightarrow> (string \<times> (addr \<Rightarrow> json \<Rightarrow> world \<Rightarrow> exn option \<times> world)) list" where
  "tcp_handlers c pid now =
     [(''login'', login_handler c pid),
      (''logout'', \<lambda>a msg. logout_handler c a),
      (''chat'', chat_handler c),
      (''chat_zone'', chatzone_handler c),
      (''keepalive'', \<lambda>a msg. keepalive_handler now a)]"

definition missing_type_msg :: string where
  "missing_type_msg = ''{\"type\":\"error\",\"msg\":\"Missing message type field\"}'' @ newline"

definition field_type_msg :: string where
  "field_type_msg = ''{\"type\":\"error\",\"msg\":\"Invalid JSON field type\"}'' @ newline"

definition unknown_type_msg :: string where
  "unknown_type_msg = ''{\"type\":\"error\",\"msg\":\"Unknown message type\"}'' @ newline"

definition dispatch :: "app_context \<Rightarrow> nat \<Rightarrow> time \<Rightarrow> addr \<Rightarrow> json \<Rightarrow> world \<Rightarrow> world" where
  "dispatch c pid now a msg w =
     (case value_string msg ''type'' [] of
        Inl e \<Rightarrow> close_session a w
      | Inr ty \<Rightarrow>
          if ty = [] then post_write c a missing_type_msg w
          else case map_of (tcp_handlers c pid now) ty of
                 Some h \<Rightarrow>
                   (case h a msg w of
                      (None, w') \<Rightarrow> w'
                    | (Some Type_error, w') \<Rightarrow> post_write c a field_type_msg w'
                    | (Some _, w') \<Rightarrow> close_session a w')
               | None \<Rightarrow> close_session a (post_write c a unknown_type_msg w))"

section \<open>Lemmas\<close>

subsection \<open>The invariant is kept\<close>

lemma login_handler_ok: "world_ok c w \<Longrightarrow> world_ok c (snd (login_handler c pid a msg w))"
  by (simp add: login_handler_def login_begin_def world_ok_intros evict_previous_ok request_user_info_ok split: sum.split)

lemma logout_handler_ok: "world_ok c w \<Longrightarrow> world_ok c (snd (logout_handler c a w))"
  by (simp add: logout_handler_def Let_def world_ok_intros broadcast_ok)

lemma chat_handler_ok: "world_ok c w \<Longrightarrow> world_ok c (snd (chat_handler c a msg w))"
  by (simp add: chat_handler_def Let_def world_ok_intros broadcast_ok split: sum.split)

lemma chatzone_handler_ok: "world_ok c w \<Longrightarrow> world_ok c (snd (chatzone_handler c a msg w))"
  by (simp add: chatzone_handler_def Let_def world_ok_intros broadcast_zone_tcp_ok split: sum.split)

lemma keepalive_handler_ok: "world_ok c w \<Longrightarrow> world_ok c (snd (keepalive_handler now a w))"
  by (auto simp: keepalive_handler_def update_alive_time_def session_ok_def intro!: world_ok_upd_all)

lemma tcp_handlers_ok:
  assumes "map_of (tcp_handlers c pid now) ty = Some h" "world_ok c w"
  shows "world_ok c (snd (h a msg w))"
proof -
  have "h \<in> {login_handler c pid, \<lambda>a msg. logout_handler c a, chat_handler c, chatzone_handler c,
      \<lambda>a msg. keepalive_handler now a}"
    using map_of_SomeD [OF assms(1)] by (auto simp: tcp_handlers_def)
  with assms(2) show ?thesis
    by (auto simp: login_handler_ok logout_handler_ok chat_handler_ok chatzone_handler_ok keepalive_handler_ok)
qed

lemma dispatch_ok:
  assumes "world_ok c w"
  shows "world_ok c (dispatch c pid now a msg w)"
proof -
  have "world_ok c (case h a msg w of (None, w') \<Rightarrow> w' | (Some Type_error, w') \<Rightarrow> post_write c a field_type_msg w'
      | (Some _, w') \<Rightarrow> close_session a w')" if "map_of (tcp_handlers c pid now) ty = Some h" for ty h
    using tcp_handlers_ok [OF that assms, of a msg] by (auto simp: world_ok_intros split: prod.split option.split exn.split)
  then show ?thesis using assms
    by (auto simp: dispatch_def world_ok_intros split: sum.split option.split)
qed

subsection \<open>Messages to a session and the tables\<close>

lemma filed_ok_upd:
  assumes "\<And>s. session_id (f s) = session_id s" "\<And>s. life_state (f s) = life_state s"
  shows "filed_ok (upd a f w) = filed_ok w"
proof -
  have "session_id (heap (upd a f w) b) = session_id (heap w b)" "life_state (heap (upd a f w) b) = life_state (heap w b)" for b
    by (simp_all add: assms)
  then show ?thesis by (simp only: filed_ok_def upd_frame)
qed

lemma do_write_queue_filed:
  "filed_ok (do_write_queue a w) = filed_ok w" "smgr (do_write_queue a w) = smgr w"
  "session_id (heap (do_write_queue a w) b) = session_id (heap w b)"
proof -
  have "filed_ok (w\<lparr>writes := ws, tcp_out := ts\<rparr>) = filed_ok w" for ws ts by (rule filed_ok_cong) simp_all
  then show "filed_ok (do_write_queue a w) = filed_ok w"
    by (simp add: do_write_queue_def Let_def filed_ok_upd split: list.split)
qed (simp_all add: do_write_queue_def Let_def split: list.split)

lemma enqueue_write_ids:
  "session_id (fst (enqueue_write c m s)) = session_id s" "life_state (fst (enqueue_write c m s)) = life_state s"
  by (simp_all add: enqueue_write_def Let_def)

text \<open>
  Posting a message to a session whose id is its own keeps the tables regular; at most the
  session itself, when its queue overflows, is unregistered.
\<close>

lemma write_job_filed:
  fixes c :: app_context and m :: string
  assumes "filed_ok w" "quiet w a"
  defines "w' \<equiv> write_job c a m w"
  shows "filed_ok w'" "session_id (heap w' a) = session_id (heap w a)"
    and "find_session (smgr w') = find_session (smgr w)
      \<or> find_session (smgr w') = (find_session (smgr w))(session_id (heap w a) := None)"
    and "\<not> snd (enqueue_write c m (heap w a)) \<Longrightarrow> smgr w' = smgr w"
proof -
  define w1 where "w1 = upd a (\<lambda>_. fst (enqueue_write c m (heap w a))) w"
  define w2 where "w2 = (if snd (enqueue_write c m (heap w a)) then close_session a w1 else w1)"
  have w': "w' = (if write_queue (heap w a) = [] then do_write_queue a (upd a (\<lambda>s. s\<lparr>write_in_progress := True\<rparr>) w2) else w2)"
    by (simp add: w'_def write_job_def split_beta Let_def w1_def w2_def)
  have w1: "filed_ok w1" "quiet w1 a" "smgr w1 = smgr w" "session_id (heap w1 a) = session_id (heap w a)"
    using assms(1,2) unfolding filed_ok_def quiet_def by (auto simp: w1_def enqueue_write_ids)
  have w2: "filed_ok w2" "session_id (heap w2 a) = session_id (heap w a)"
    "find_session (smgr w2) = find_session (smgr w)
      \<or> find_session (smgr w2) = (find_session (smgr w))(session_id (heap w a) := None)"
    "\<not> snd (enqueue_write c m (heap w a)) \<Longrightarrow> smgr w2 = smgr w"
    using close_quiet(1,2) [OF w1(1,2)] w1 close_session_ids [of a w1 a] by (auto simp: w2_def)
  show "filed_ok w'" "session_id (heap w' a) = session_id (heap w a)"
    using w2(1,2) by (auto simp: w' do_write_queue_filed filed_ok_upd)
  have "smgr w' = smgr w2" by (simp add: w' do_write_queue_filed)
  then show "find_session (smgr w') = find_session (smgr w)
      \<or> find_session (smgr w') = (find_session (smgr w))(session_id (heap w a) := None)"
    and "\<not> snd (enqueue_write c m (heap w a)) \<Longrightarrow> smgr w' = smgr w"
    using w2(3,4) by simp_all
qed

lemma post_write_filed:
  fixes c :: app_context and m :: string
  assumes "filed_ok w" "quiet w a"
  defines "w' \<equiv> post_write c a m w"
  shows "filed_ok w'" "session_id (heap w' a) = session_id (heap w a)" "quiet w' a"
    and "find_session (smgr w') (session_id (heap w a)) \<in> {find_session (smgr w) (session_id (heap w a)), None}"
proof -
  have "filed_ok w' \<and> session_id (heap w' a) = session_id (heap w a)
      \<and> find_session (smgr w') (session_id (heap w a)) \<in> {find_session (smgr w) (session_id (heap w a)), None}"
  proof (cases "cur_strand w = Some (strand (heap w a))")
    case True
    then have "w' = write_job c a m w" by (simp add: w'_def post_write_def dispatch_job_def)
    then show ?thesis using write_job_filed(1-3) [OF assms(1,2), of c m] by auto
  next
    case False
    then show ?thesis using assms(1) by (simp add: w'_def post_write_off filed_ok_def)
  qed
  then show "filed_ok w'" "session_id (heap w' a) = session_id (heap w a)" "quiet w' a"
    and "find_session (smgr w') (session_id (heap w a)) \<in> {find_session (smgr w) (session_id (heap w a)), None}"
    using assms(2) unfolding quiet_def by auto
qed

lemma close_after_post:
  assumes "filed_ok w" "quiet w a"
  shows "find_session (smgr (close_session a (post_write c a m w))) (session_id (heap w a)) = None"
  using close_quiet(2) [OF post_write_filed(1,3) [OF assms]] post_write_filed(2) [OF assms] by simp

section \<open>Properties\<close>

lemma targets_iff:
  assumes "filed_ok w"
  shows "distinct (broadcast_targets sender w)" "distinct (zone_targets zid sender w)"
    and "b \<in> set (broadcast_targets sender w) \<longleftrightarrow>
      (\<exists>sid. find_session (smgr w) sid = Some b) \<and> nickname (heap w b) \<noteq> [] \<and> session_id (heap w b) \<noteq> sender"
    and "b \<in> set (zone_targets zid sender w) \<longleftrightarrow>
      (\<exists>sid. find_session (smgr w) sid = Some b) \<and> nickname (heap w b) \<noteq> [] \<and> session_id (heap w b) \<noteq> sender
        \<and> zone_id (heap w b) = zid"
proof -
  have m: "manager_ok (smgr w)" using assms by (simp add: filed_ok_def)
  show "distinct (broadcast_targets sender w)" "distinct (zone_targets zid sender w)"
    using all_sessions_distinct [OF assms] by (simp_all add: broadcast_targets_def zone_targets_def)
  show "b \<in> set (broadcast_targets sender w) \<longleftrightarrow>
      (\<exists>sid. find_session (smgr w) sid = Some b) \<and> nickname (heap w b) \<noteq> [] \<and> session_id (heap w b) \<noteq> sender"
    "b \<in> set (zone_targets zid sender w) \<longleftrightarrow>
      (\<exists>sid. find_session (smgr w) sid = Some b) \<and> nickname (heap w b) \<noteq> [] \<and> session_id (heap w b) \<noteq> sender
        \<and> zone_id (heap w b) = zid"
    using all_sessions_iff [OF m, of b] by (auto simp: broadcast_targets_def zone_targets_def)
qed

text \<open>
  C12: A chat message reaches exactly the right sessions. Dispatched on the sender's
  strand, a message of type \<open>chat\<close> is queued exactly once on the strand of every registered
  session with a nickname other than the sender, and for no other; one of type
  \<open>chat_zone\<close> with a text, from a sender in a zone, exactly once for every such session
  whose zone is the sender's, and for no other. Then the confirmation is written to the
  sender, and nothing else happens. Without a zone or a text, a zone message is only
  answered with an error. Nothing asks that the sender has logged in.
\<close>

theorem chat_delivery:
  assumes "filed_ok w" "cur_strand w = Some (strand (heap w a))"
    and "\<forall>sid b. find_session (smgr w) sid = Some b \<longrightarrow> session_id (heap w b) \<noteq> session_id (heap w a) \<longrightarrow>
      strand (heap w b) \<noteq> strand (heap w a)"
    and "value_string msg ''type'' [] = Inr ty" "value_string msg ''msg'' [] = Inr text"
  shows "(ty = ''chat'' \<longrightarrow> (\<exists>ts. distinct ts
      \<and> (\<forall>b. b \<in> set ts \<longleftrightarrow> (\<exists>sid. find_session (smgr w) sid = Some b)
            \<and> nickname (heap w b) \<noteq> [] \<and> session_id (heap w b) \<noteq> session_id (heap w a))
      \<and> dispatch c pid now a msg w = write_job c a (sent_notice c (text @ '' 'Message sent completed.' ''))
        (w\<lparr>posted := posted w @ map (\<lambda>b. (strand (heap w b), WriteJob b (chat_line c ''chat'' (nickname (heap w a)) text))) ts\<rparr>)))
    \<and> (ty = ''chat_zone'' \<and> 0 < zone_id (heap w a) \<and> text \<noteq> [] \<longrightarrow> (\<exists>ts. distinct ts
      \<and> (\<forall>b. b \<in> set ts \<longleftrightarrow> (\<exists>sid. find_session (smgr w) sid = Some b)
            \<and> nickname (heap w b) \<noteq> [] \<and> session_id (heap w b) \<noteq> session_id (heap w a)
            \<and> zone_id (heap w b) = zone_id (heap w a))
      \<and> dispatch c pid now a msg w = write_job c a (sent_notice c (text @ '' 'Message tcp_zone_sent completed.' ''))
        (w\<lparr>posted := posted w @ map (\<lambda>b. (strand (heap w b), WriteJob b (chat_line c ''chat_zone'' (nickname (heap w a)) text))) ts\<rparr>)))
    \<and> (ty = ''chat_zone'' \<and> zone_id (heap w a) \<le> 0 \<longrightarrow>
        dispatch c pid now a msg w = write_job c a (error_line c ''not in any zone'') w)
    \<and> (ty = ''chat_zone'' \<and> 0 < zone_id (heap w a) \<and> text = [] \<longrightarrow>
        dispatch c pid now a msg w = write_job c a (error_line c ''empty message'') w)"
proof -
  let ?sid = "session_id (heap w a)"
  let ?line = "\<lambda>ty. chat_line c ty (nickname (heap w a)) text"
  let ?post = "\<lambda>ty ts. w\<lparr>posted := posted w @ map (\<lambda>b. (strand (heap w b), WriteJob b (?line ty))) ts\<rparr>"
  have "\<forall>b \<in> set (broadcast_targets ?sid w). cur_strand w \<noteq> Some (strand (heap w b))"
    "\<forall>b \<in> set (zone_targets (zone_id (heap w a)) ?sid w). cur_strand w \<noteq> Some (strand (heap w b))"
    using assms(2,3) targets_iff(3,4) [OF assms(1)] by fastforce+
  note f = this [THEN fold_post_write]
  have "dispatch c pid now a msg w = write_job c a (sent_notice c (text @ '' 'Message sent completed.' ''))
      (?post ''chat'' (broadcast_targets ?sid w))" if "ty = ''chat''"
    using assms(2,4,5) f(1) that
    by (simp add: dispatch_def tcp_handlers_def chat_handler_def broadcast_def post_write_def dispatch_job_def Let_def)
  moreover have "dispatch c pid now a msg w = write_job c a (sent_notice c (text @ '' 'Message tcp_zone_sent completed.' ''))
      (?post ''chat_zone'' (zone_targets (zone_id (heap w a)) ?sid w))"
    if "ty = ''chat_zone''" "0 < zone_id (heap w a)" "text \<noteq> []"
    using assms(2,4,5) f(2) that
    by (simp add: dispatch_def tcp_handlers_def chatzone_handler_def broadcast_zone_tcp_def post_write_def dispatch_job_def Let_def)
  moreover have "dispatch c pid now a msg w = write_job c a (error_line c ''not in any zone'') w"
    if "ty = ''chat_zone''" "zone_id (heap w a) \<le> 0"
    using assms(2,4) that by (simp add: dispatch_def tcp_handlers_def chatzone_handler_def post_write_def dispatch_job_def Let_def)
  moreover have "dispatch c pid now a msg w = write_job c a (error_line c ''empty message'') w"
    if "ty = ''chat_zone''" "0 < zone_id (heap w a)" "text = []"
    using assms(2,4,5) that
    by (simp add: dispatch_def tcp_handlers_def chatzone_handler_def post_write_def dispatch_job_def Let_def)
  ultimately show ?thesis using targets_iff [OF assms(1)] by blast
qed

theorem chat_delivery_witness:
  "\<exists>c w ts. find_session (smgr w) 5 = Some 0 \<and> find_session (smgr w) 6 = Some 1 \<and> set ts = {1}
     \<and> dispatch c 1 0 0 (jobj [(''type'', JStr ''chat_zone''), (''msg'', JStr ''hi'')]) w =
     write_job c 0 (sent_notice c ''hi 'Message tcp_zone_sent completed.' '')
       (w\<lparr>posted := posted w @ map (\<lambda>b. (strand (heap w b), WriteJob b (chat_line c ''chat_zone'' [] ''hi''))) ts\<rparr>)"
proof -
  obtain w0 where w0: "filed_ok w0" "find_session (smgr w0) 5 = Some 0" "find_session (smgr w0) 6 = Some 1"
    "session_id (heap w0 0) = 5" "session_id (heap w0 1) = 6"
    using filed_ok_example2 by blast
  define w where "w = w0\<lparr>cur_strand := Some (SessStrand 0),
      heap := \<lambda>b. (heap w0 b)\<lparr>strand := SessStrand b, nickname := if b = 1 then ''bob'' else [],
        zone_id := if b \<le> 1 then 2 else 3\<rparr>\<rparr>"
  let ?m = "jobj [(''type'', JStr ''chat_zone''), (''msg'', JStr ''hi'')]"
  have w: "filed_ok w" "cur_strand w = Some (strand (heap w 0))"
    using w0(1) by (simp_all add: w_def filed_ok_def)
  have st: "\<forall>sid b. find_session (smgr w) sid = Some b \<longrightarrow> session_id (heap w b) \<noteq> session_id (heap w 0) \<longrightarrow>
      strand (heap w b) \<noteq> strand (heap w 0)"
    by (simp add: w_def) (metis gr0I)
  have v: "value_string ?m ''type'' [] = Inr ''chat_zone''" "value_string ?m ''msg'' [] = Inr ''hi''"
    by (simp_all add: jobj_def)
  have h: "zone_id (heap w 0) = 2" "nickname (heap w 0) = []" "session_id (heap w 0) = 5" "session_id (heap w 1) = 6"
    "nickname (heap w b) = (if b = 1 then ''bob'' else [])" "zone_id (heap w 1) = 2"
    "find_session (smgr w) = find_session (smgr w0)" for b
    using w0 by (simp_all add: w_def)
  from chat_delivery [OF w st v, of undefined 1 0] h(1,2)
  obtain ts where ts: "\<forall>b. b \<in> set ts \<longleftrightarrow> (\<exists>sid. find_session (smgr w) sid = Some b)
        \<and> nickname (heap w b) \<noteq> [] \<and> session_id (heap w b) \<noteq> session_id (heap w 0) \<and> zone_id (heap w b) = 2"
    and d: "dispatch undefined 1 0 0 ?m w = write_job undefined 0 (sent_notice undefined ''hi 'Message tcp_zone_sent completed.' '')
      (w\<lparr>posted := posted w @ map (\<lambda>b. (strand (heap w b), WriteJob b (chat_line undefined ''chat_zone'' [] ''hi''))) ts\<rparr>)"
    by auto
  have "set ts = {1}" using ts h w0(3) by (auto split: if_splits)
  with d h(7) w0(2,3) show ?thesis by (intro exI [of _ undefined] exI [of _ w] exI [of _ ts]) simp
qed

text \<open>
  C27: How a wrong message ends. A message that is no object or whose \<open>type\<close> is no string,
  and a message of an unknown type, end the session: it is no longer registered. A message
  without a type, and one of a known type with a field of the wrong type (the nickname of a
  login, the text of a chat message or, from a sender in a zone, of a zone message; the
  other known types read no field) are answered and leave the session registered, unless its
  queue of answers overflows.
\<close>

theorem wrong_message_effect:
  assumes "filed_ok w" "find_session (smgr w) (session_id (heap w a)) = Some a"
    and "w' = dispatch c pid now a msg w"
  shows "(value_string msg ''type'' [] = Inl e \<longrightarrow> find_session (smgr w') (session_id (heap w a)) = None)
    \<and> (value_string msg ''type'' [] = Inr ty \<and> ty \<notin> {[], ''login'', ''logout'', ''chat'', ''chat_zone'', ''keepalive''} \<longrightarrow>
         find_session (smgr w') (session_id (heap w a)) = None)
    \<and> (value_string msg ''type'' [] = Inr [] \<and> cur_strand w = Some (strand (heap w a))
         \<and> \<not> snd (enqueue_write c missing_type_msg (heap w a)) \<longrightarrow>
         w' = write_job c a missing_type_msg w \<and> find_session (smgr w') (session_id (heap w a)) = Some a)
    \<and> ((value_string msg ''type'' [] = Inr ''login'' \<and> value_string msg ''nickname'' ''anonymity'' = Inl e
          \<or> value_string msg ''type'' [] = Inr ''chat'' \<and> value_string msg ''msg'' [] = Inl e
          \<or> value_string msg ''type'' [] = Inr ''chat_zone'' \<and> 0 < zone_id (heap w a) \<and> value_string msg ''msg'' [] = Inl e)
         \<and> cur_strand w = Some (strand (heap w a)) \<and> \<not> snd (enqueue_write c field_type_msg (heap w a)) \<longrightarrow>
         w' = write_job c a field_type_msg w \<and> find_session (smgr w') (session_id (heap w a)) = Some a)"
proof -
  have q: "quiet w a" using assms(2) by (simp add: quiet_def)
  have "find_session (smgr (close_session a w)) (session_id (heap w a)) = None"
    using close_quiet(2) [OF assms(1) q] by simp
  moreover note close_after_post [OF assms(1) q, of c unknown_type_msg]
  moreover note kept = write_job_filed(4) [OF assms(1) q, of c missing_type_msg] write_job_filed(4) [OF assms(1) q, of c field_type_msg]
  moreover have "w' = write_job c a field_type_msg w"
    if f: "value_string msg ''type'' [] = Inr ''login'' \<and> value_string msg ''nickname'' ''anonymity'' = Inl e
          \<or> value_string msg ''type'' [] = Inr ''chat'' \<and> value_string msg ''msg'' [] = Inl e
          \<or> value_string msg ''type'' [] = Inr ''chat_zone'' \<and> 0 < zone_id (heap w a) \<and> value_string msg ''msg'' [] = Inl e"
      and st: "cur_strand w = Some (strand (heap w a))"
  proof -
    have "e = Type_error" using f value_string_Inl by blast
    then show ?thesis using f st assms(3)
      by (auto simp: dispatch_def tcp_handlers_def login_handler_def chat_handler_def chatzone_handler_def Let_def
          post_write_def dispatch_job_def)
  qed
  ultimately show ?thesis using assms(2,3)
    by (auto simp: dispatch_def tcp_handlers_def post_write_def dispatch_job_def)
qed

theorem wrong_message_effect_witness:
  "\<exists>c w. find_session (smgr w) 5 = Some 0 \<and> find_session (smgr (dispatch c 1 0 0 (JInt 3) w)) 5 = None
     \<and> find_session (smgr (dispatch c 1 0 0 (jobj [(''type'', JStr ''fly'')]) w)) 5 = None
     \<and> find_session (smgr (dispatch c 1 0 0 (jobj [(''type'', JStr ''login''), (''nickname'', JInt 7)]) w)) 5 = Some 0"
proof -
  define c where "c = \<lparr>config = \<lambda>_. None, config_text = \<lambda>_. None, json_parse = \<lambda>_. Inl Parse_error, json_dump = \<lambda>_. []\<rparr>"
  let ?bad = "jobj [(''type'', JStr ''login''), (''nickname'', JInt 7)]"
  obtain w0 where w0: "filed_ok w0" "find_session (smgr w0) 5 = Some 0" "session_id (heap w0 0) = 5"
    using filed_ok_example2 by blast
  define w where "w = w0\<lparr>heap := (heap w0)(0 := (heap w0 0)\<lparr>strand := SessStrand 0, write_queue := []\<rparr>),
      cur_strand := Some (SessStrand 0)\<rparr>"
  have w: "filed_ok w" "find_session (smgr w) 5 = Some 0" "session_id (heap w 0) = 5"
    "cur_strand w = Some (strand (heap w 0))" "write_queue (heap w 0) = []"
    using w0 by (auto simp: w_def filed_ok_def)
  have f: "find_session (smgr w) (session_id (heap w 0)) = Some 0" using w(2,3) by simp
  have v: "value_string (JInt 3) ''type'' [] = Inl Type_error"
    "value_string (jobj [(''type'', JStr ''fly'')]) ''type'' [] = Inr ''fly''"
    "value_string ?bad ''type'' [] = Inr ''login''" "value_string ?bad ''nickname'' ''anonymity'' = Inl Type_error"
    by (simp_all add: jobj_def)
  have room: "\<not> snd (enqueue_write c field_type_msg (heap w 0))"
    using w(5) by (simp add: enqueue_write_def c_def config_size_def config_value_def size_t_of_int_def)
  note all = wrong_message_effect [OF w(1) f refl, where c = c and pid = 1 and now = 0]
  have "find_session (smgr (dispatch c 1 0 0 (JInt 3) w)) 5 = None"
    using all [where msg = "JInt 3" and e = Type_error] w(3) by simp
  moreover have "find_session (smgr (dispatch c 1 0 0 (jobj [(''type'', JStr ''fly'')]) w)) 5 = None"
    using all [where msg = "jobj [(''type'', JStr ''fly'')]" and ty = "''fly''"] v(2) w(3) by simp
  moreover have "find_session (smgr (dispatch c 1 0 0 ?bad w)) (session_id (heap w 0)) = Some 0"
    using all [where msg = ?bad and e = Type_error] v(3,4) room w(4) by blast
  ultimately show ?thesis using w(2,3) by (intro exI [of _ c] exI [of _ w]) simp
qed

text \<open>
  C26: A logout is announced and complete. When a logged-in session logs out, every other
  logged-in session is queued the notice that it has left, and the session is no longer
  registered, while every other session still is.
\<close>

theorem logout_effect:
  assumes "filed_ok w" "find_session (smgr w) (session_id (heap w a)) = Some a" "nickname (heap w a) \<noteq> []"
    and "\<forall>b \<in> set (broadcast_targets (session_id (heap w a)) w). cur_strand w \<noteq> Some (strand (heap w b))"
    and "value_string msg ''type'' [] = Inr ''logout''"
    and "w' = dispatch c pid now a msg w"
  shows "find_session (smgr w') = (find_session (smgr w))(session_id (heap w a) := None)
    \<and> posted w' = posted w @ map (\<lambda>b. (strand (heap w b), WriteJob b (left_notice c (nickname (heap w a)))))
        (broadcast_targets (session_id (heap w a)) w)"
proof -
  define u where "u = w\<lparr>posted := posted w @ map (\<lambda>b. (strand (heap w b), WriteJob b (left_notice c (nickname (heap w a)))))
        (broadcast_targets (session_id (heap w a)) w)\<rparr>"
  have b: "broadcast c (left_notice c (nickname (heap w a))) (session_id (heap w a)) w = u"
    unfolding broadcast_def u_def by (rule fold_post_write [OF assms(4)])
  have w': "w' = close_session a u"
    unfolding assms(6) using assms(3,5) b by (simp add: dispatch_def tcp_handlers_def logout_handler_def Let_def)
  have "filed_ok u" using assms(1) by (subst filed_ok_cong [of u w]) (simp_all add: u_def)
  moreover have "quiet u a" using assms(2) by (simp add: u_def quiet_def)
  ultimately have "find_session (smgr (close_session a u)) = (find_session (smgr u))(session_id (heap u a) := None)"
    by (rule close_quiet(2))
  then show ?thesis by (simp add: w' u_def)
qed

theorem logout_effect_witness:
  "\<exists>c w. find_session (smgr w) 5 = Some 0 \<and> nickname (heap w 0) = ''bob''
     \<and> find_session (smgr (dispatch c 1 0 0 (jobj [(''type'', JStr ''logout'')]) w)) 5 = None"
proof -
  obtain w where w: "filed_ok w" "find_session (smgr w) 5 = Some 0" "cur_strand w = None"
    "heap w 0 = ((session_new 0 1 (SessStrand 0))\<lparr>nickname := ''bob''\<rparr>)\<lparr>session_id := 5, life_state := Idle\<rparr>"
    using filed_ok_example by blast
  have h: "find_session (smgr w) (session_id (heap w 0)) = Some 0" "nickname (heap w 0) \<noteq> []"
    "\<forall>b \<in> set (broadcast_targets (session_id (heap w 0)) w). cur_strand w \<noteq> Some (strand (heap w b))"
    "value_string (jobj [(''type'', JStr ''logout'')]) ''type'' [] = Inr ''logout''"
    using w(2-4) by (simp_all add: jobj_def)
  from logout_effect [OF w(1) h refl, of undefined 1 0] w(2,4)
  show ?thesis by (intro exI [of _ undefined] exI [of _ w]) simp
qed

end
