(* ===== verification/Udp.thy ===== *)
theory Udp
  imports Backend
begin

text \<open>
  The UDP side: the reception of a datagram (\<^verbatim>\<open>UDPManager\<close>), the checks of
  \<^verbatim>\<open>DataHandler::on_udp_receive\<close>, the UDP part of \<^verbatim>\<open>MessageDispatcher\<close> and its
  handlers (\<^verbatim>\<open>UDPMessageHandlers\<close>), and the job that sends a broadcast. The results are
  that a packet without the session's valid token from its bound endpoint has no effect
  beyond an error answer, that registering gives a token the next packets are accepted
  with, what registering does not check, and how many bucket tokens a packet costs.
\<close>

section \<open>Definitions\<close>

subsection \<open>Handlers\<close>

definition udp_answer :: "app_context \<Rightarrow> endpoint \<Rightarrow> (string \<times> json) list \<Rightarrow> world \<Rightarrow> world" where
  "udp_answer c ep kvs w = send_udp ep (json_dump c (jobj kvs)) w"

definition Udp_handler :: "app_context \<Rightarrow> json \<Rightarrow> endpoint \<Rightarrow> world \<Rightarrow> exn option \<times> world" where
  "Udp_handler c msg from w =
     (case value_string msg ''msg'' [] of
        Inl e \<Rightarrow> (Some e, w)
      | Inr text \<Rightarrow>
          (case value_string msg ''nickname'' ''anonymity'' of
             Inl e \<Rightarrow> (Some e, w)
           | Inr nick \<Rightarrow>
               (None, udp_answer c from [(''type'', JStr ''udp_reply''), (''msg'', JStr (''Echo(UDP): '' @ text)),
                                         (''nickname'', JStr nick)] w)))"

text \<open>\<open>udp_broadcast\<close> always posts its job.\<close>

definition udp_broadcast :: "string \<Rightarrow> string \<Rightarrow> world \<Rightarrow> world" where
  "udp_broadcast msg sender w = post_job UdpSendStrand (UdpBroadcastJob msg sender) w"

definition Udpbroadcast_handler :: "app_context \<Rightarrow> json \<Rightarrow> world \<Rightarrow> exn option \<times> world" where
  "Udpbroadcast_handler c msg w =
     (case value_string msg ''nickname'' [] of
        Inl e \<Rightarrow> (Some e, w)
      | Inr sender \<Rightarrow> (None, udp_broadcast (json_dump c msg) sender w))"

definition register_text :: string where
  "register_text = ''UDP '' @
     utf8 [236, 157, 184, 236, 166, 157, 32, 237, 134, 160, 237, 129, 176, 32, 235, 176, 156, 234, 184, 137, 32,
           235, 176, 143] @ '' endpoint registered''"

text \<open>\<open>draws\<close> are the 32 draws of the random token.\<close>

definition Udpregister_handler ::
  "app_context \<Rightarrow> time \<Rightarrow> nat list \<Rightarrow> addr \<Rightarrow> json \<Rightarrow> endpoint \<Rightarrow> world \<Rightarrow> exn option \<times> world" where
  "Udpregister_handler c now draws a msg from w =
     (let token = generate_random_token draws;
          w1 = upd a (\<lambda>s. set_udp_token c now token (set_udp_token_ttl (config_value c ''udp_token_ttl_seconds'' 300)
                 (update_udp_alive_time now (set_udp_endpoint now from s)))) w
      in case value_string msg ''nickname'' ''anonymity'' of
           Inl e \<Rightarrow> (Some e, w1)
         | Inr nick \<Rightarrow>
             (None, udp_answer c from [(''type'', JStr ''udp_register_ack''), (''msg'', JStr register_text),
                                       (''token'', JStr token), (''nickname'', JStr nick)] w1))"

definition Udpbroadcastzone_handler :: "app_context \<Rightarrow> addr \<Rightarrow> json \<Rightarrow> world \<Rightarrow> exn option \<times> world" where
  "Udpbroadcastzone_handler c a msg w =
     (let zid = zone_id (heap w a) in
      case get_zone zid (zones w) of
        None \<Rightarrow> (None, w)
      | Some z \<Rightarrow>
          (case value_string msg ''msg'' [] of
             Inl e \<Rightarrow> (Some e, w)
           | Inr text \<Rightarrow>
               let out = json_dump c (jobj [(''type'', JStr ''broadcast_udp_zone''),
                           (''nickname'', JStr (nickname (heap w a))), (''msg'', JStr text)]);
                   (members, z') = zone_for_each_session (alive w) z;
                   eps = List.map_filter (\<lambda>b. if nickname (heap w b) = nickname (heap w a) then None
                                              else udp_endpoint (heap w b)) members
               in (None, w\<lparr>zones := um_put zid z' (zones w), udp_out := udp_out w @ map (\<lambda>ep. (ep, out)) eps\<rparr>)))"

subsection \<open>Dispatch\<close>

definition udp_handlers ::
  "app_context \<Rightarrow> time \<Rightarrow> nat list \<Rightarrow> (string \<times> (addr \<Rightarrow> json \<Rightarrow> endpoint \<Rightarrow> world \<Rightarrow> exn option \<times> world)) list" where
  "udp_handlers c now draws =
     [(''udp'', \<lambda>a. Udp_handler c),
      (''broadcast_udp'', \<lambda>a msg ep. Udpbroadcast_handler c msg),
      (''udp_register'', Udpregister_handler c now draws),
      (''broadcast_udp_zone'', \<lambda>a msg ep. Udpbroadcastzone_handler c a msg)]"

text \<open>Every exception ends here and is only logged.\<close>

definition dispatch_udp_parsed ::
  "app_context \<Rightarrow> time \<Rightarrow> nat list \<Rightarrow> addr \<Rightarrow> json \<Rightarrow> endpoint \<Rightarrow> world \<Rightarrow> world" where
  "dispatch_udp_parsed c now draws a msg from w =
     (case value_string msg ''type'' [] of
        Inl e \<Rightarrow> w
      | Inr ty \<Rightarrow>
          (case map_of (udp_handlers c now draws) ty of
             Some h \<Rightarrow> snd (h a msg from w)
           | None \<Rightarrow> send_udp from ''{\"type\":\"error\",\"msg\":\"Unknown UDP type\"}'' w))"

text \<open>The older entry point, which parses the text itself and lets exceptions through.\<close>

definition dispatch_udp ::
  "app_context \<Rightarrow> time \<Rightarrow> nat list \<Rightarrow> addr \<Rightarrow> string \<Rightarrow> endpoint \<Rightarrow> world \<Rightarrow> exn option \<times> world" where
  "dispatch_udp c now draws a raw from w =
     (case json_parse c raw of
        Inl e \<Rightarrow> (None, send_udp from ''{\"type\":\"udp_error\",\"code\":\"INVALID_JSON\",\"msg\":\"Invalid JSON\"}'' w)
      | Inr msg \<Rightarrow>
          (case value_string msg ''type'' [] of
             Inl e \<Rightarrow> (Some e, w)
           | Inr ty \<Rightarrow>
               (case map_of (udp_handlers c now draws) ty of
                  Some h \<Rightarrow> h a msg from w
                | None \<Rightarrow> (None, send_udp from (''Echo(UDP): '' @ raw) w))))"

subsection \<open>The checks of a packet\<close>

definition udp_error :: "app_context \<Rightarrow> endpoint \<Rightarrow> string \<Rightarrow> string \<Rightarrow> world \<Rightarrow> world" where
  "udp_error c ep code text w =
     udp_answer c ep [(''type'', JStr ''udp_error''), (''code'', JStr code), (''msg'', JStr text)] w"

text \<open>Step 5: the token, its age and the bound endpoint; \<open>udp_register\<close> skips them.\<close>

definition udp_gate :: "app_context \<Rightarrow> time \<Rightarrow> addr \<Rightarrow> string \<Rightarrow> string \<Rightarrow> endpoint \<Rightarrow> world \<Rightarrow> bool \<times> world" where
  "udp_gate c now a ty token from w =
     (if ty = ''udp_register'' then (True, w)
      else if token = [] then (False, udp_error c from ''TOKEN_REQUIRED'' ''UDP token is required'' w)
      else if udp_token (heap w a) \<noteq> token then (False, udp_error c from ''INVALID_TOKEN'' ''Invalid UDP token'' w)
      else if \<not> is_udp_token_valid now (heap w a)
      then (False, upd a clear_udp_token
              (udp_error c from ''UDP_TOKEN_EXPIRED'' ''UDP token expired, please udp_register again'' w))
      else if udp_endpoint (heap w a) \<noteq> Some from
      then (False, udp_error c from ''ENDPOINT_MISMATCH'' ''Endpoint mismatch; please udp_register again'' w)
      else (True, w))"

text \<open>Step 7: the endpoint of a \<open>udp_register\<close> packet replaces the session's.\<close>

definition bind_endpoint :: "time \<Rightarrow> addr \<Rightarrow> endpoint \<Rightarrow> world \<Rightarrow> world" where
  "bind_endpoint now a from w =
     (if udp_endpoint (heap w a) = Some from then w
      else let w1 = (case udp_endpoint (heap w a) of Some old \<Rightarrow> erase_endpoint_of old a w | None \<Rightarrow> w);
               m = udp_endpoint_to_session w1;
               m1 = (case um_find m from of
                       Some b \<Rightarrow> if alive w1 b \<and> b = a then m else um_erase from m
                     | None \<Rightarrow> m)
           in upd a (set_udp_endpoint now from) (w1\<lparr>udp_endpoint_to_session := um_put from a m1\<rparr>))"

text \<open>The statistics of step 1.\<close>

definition count_packet :: "time \<Rightarrow> world \<Rightarrow> world" where
  "count_packet now w =
     (let w1 = (if udp_total_packet_window w = 0 \<or> 1 \<le> to_seconds (now - udp_total_packet_window w)
                then w\<lparr>udp_total_packet_window := now, udp_total_packet_count := 0\<rparr> else w)
      in w1\<lparr>udp_total_packet_count := udp_total_packet_count w1 + 1\<rparr>)"

text \<open>Steps 6 to 8, for a packet that passed the checks.\<close>

definition udp_accept ::
  "app_context \<Rightarrow> time \<Rightarrow> nat list \<Rightarrow> addr \<Rightarrow> string \<Rightarrow> json \<Rightarrow> endpoint \<Rightarrow> world \<Rightarrow> world" where
  "udp_accept c now draws a ty msg from w =
     (let (ok, s) = checkUdpRateLimit now (heap w a); w1 = upd a (\<lambda>_. s) w in
      if \<not> ok then udp_error c from ''RATE_LIMIT'' ''UDP rate limit exceeded'' w1
      else let w2 = (if ty = ''udp_register'' then bind_endpoint now a from w1 else w1);
               w3 = upd a (update_udp_alive_time now) w2
           in dispatch_udp_parsed c now draws a msg from w3)"

text \<open>\<open>tid\<close> is the hash of the thread that handles the packet.\<close>

definition on_udp_receive ::
  "app_context \<Rightarrow> time \<Rightarrow> nat \<Rightarrow> nat list \<Rightarrow> string \<Rightarrow> endpoint \<Rightarrow> world \<Rightarrow> exn option \<times> world" where
  "on_udp_receive c now tid draws raw from w0 =
     (let (ok, l) = sharded_udp_rate_limit tid now (config_size c ''total_limit_per_sec'' 1000) (udp_global_limiter w0);
          w1 = w0\<lparr>udp_global_limiter := l\<rparr>
      in if \<not> ok then (None, w1)
         else let w = count_packet now w1 in
           case try_parse_json c raw of
             None \<Rightarrow> (None, udp_answer c from [(''type'', JStr ''error''), (''msg'', JStr ''Invalid JSON'')] w)
           | Some msg \<Rightarrow>
               (case value_string msg ''nickname'' [] of
                  Inl e \<Rightarrow> (Some e, w)
                | Inr nick \<Rightarrow>
                    (case value_string msg ''type'' [] of
                       Inl e \<Rightarrow> (Some e, w)
                     | Inr ty \<Rightarrow>
                         (case value_string msg ''token'' [] of
                            Inl e \<Rightarrow> (Some e, w)
                          | Inr token \<Rightarrow>
                              if nick = [] then (None, w)
                              else case find_session_by_nickname (alive w) (smgr w) nick of
                                     None \<Rightarrow> (None, w)
                                   | Some a \<Rightarrow>
                                       let (pass, w2) = udp_gate c now a ty token from w in
                                       if pass then (None, udp_accept c now draws a ty msg from w2) else (None, w2)))))"

subsection \<open>UDPManager\<close>

definition rate_text :: string where
  "rate_text = utf8 [235, 132, 136, 235, 172, 180, 32, 235, 185, 160, 235, 165, 180, 234, 178, 140, 32, 85, 68, 80, 32,
     235, 169, 148, 236, 139, 156, 236, 167, 128, 235, 165, 188, 32, 235, 179, 180, 235, 130, 180, 234, 179, 160, 32,
     236, 158, 136, 236, 138, 181, 235, 139, 136, 235, 139, 164, 46]"

text \<open>
  The completion of a receive: \<open>ec\<close> is an error, \<open>data\<close> the bytes received. Every path
  starts the next receive, and an exception of \<open>on_udp_receive\<close> ends here.
\<close>

definition on_udp_packet ::
  "app_context \<Rightarrow> time \<Rightarrow> nat \<Rightarrow> nat list \<Rightarrow> bool \<Rightarrow> string \<Rightarrow> endpoint \<Rightarrow> world \<Rightarrow> world" where
  "on_udp_packet c now tid draws ec data from w =
     (if \<not> ec \<and> data \<noteq> [] \<and> length data \<le> config_size c ''max_udp_packet_size'' 1024
      then if \<not> data_handler_alive w then w
           else case try_parse_json c data of
             None \<Rightarrow>
               let w1 = udp_answer c from [(''type'', JStr ''udp_error''), (''error'', JStr ''Invalid JSON format'')] w;
                   w2 = register_bad_udp_packet now from w1
               in snd (is_blocked_udp now from w2)
           | Some msg \<Rightarrow>
               (case getSessionByEndpoint from w of
                  Some a \<Rightarrow>
                    let (ok, s) = checkUdpRateLimit now (heap w a); w1 = upd a (\<lambda>_. s) w in
                    if \<not> ok then udp_answer c from [(''type'', JStr ''udp_error''), (''error'', JStr rate_text)] w1
                    else snd (on_udp_receive c now tid draws data from w1)
                | None \<Rightarrow> snd (on_udp_receive c now tid draws data from w))
      else w)"

subsection \<open>The broadcast job\<close>

text \<open>
  The datagram for one session: the text is parsed again for every receiver, and a member
  that is no string raises.
\<close>

definition broadcast_datagram :: "app_context \<Rightarrow> string \<Rightarrow> exn + string" where
  "broadcast_datagram c msg =
     (case json_parse c msg of
        Inl e \<Rightarrow> Inl e
      | Inr j \<Rightarrow>
          (case value_string j ''type'' [] of Inl e \<Rightarrow> Inl e
           | Inr ty \<Rightarrow> (case value_string j ''nickname'' [] of Inl e \<Rightarrow> Inl e
             | Inr nick \<Rightarrow> (case value_string j ''msg'' [] of Inl e \<Rightarrow> Inl e
               | Inr text \<Rightarrow> Inr (json_dump c (jobj [(''type'', JStr ty), (''nickname'', JStr nick), (''msg'', JStr text)]))))))"

fun udp_broadcast_to :: "app_context \<Rightarrow> string \<Rightarrow> string \<Rightarrow> addr list \<Rightarrow> world \<Rightarrow> exn option \<times> world" where
  "udp_broadcast_to c msg sender [] w = (None, w)"
| "udp_broadcast_to c msg sender (b # bs) w =
     (if nickname (heap w b) = [] \<or> nickname (heap w b) = sender then udp_broadcast_to c msg sender bs w
      else case udp_endpoint (heap w b) of
             None \<Rightarrow> udp_broadcast_to c msg sender bs w
           | Some ep \<Rightarrow>
               (case broadcast_datagram c msg of
                  Inl e \<Rightarrow> (Some e, w)
                | Inr d \<Rightarrow> udp_broadcast_to c msg sender bs (send_udp ep d w)))"

definition udp_broadcast_job :: "app_context \<Rightarrow> string \<Rightarrow> string \<Rightarrow> world \<Rightarrow> exn option \<times> world" where
  "udp_broadcast_job c msg sender w = udp_broadcast_to c msg sender (all_sessions (smgr w)) w"

section \<open>Lemmas\<close>

subsection \<open>The invariant is kept\<close>

lemma send_udp_ok: "world_ok c w \<Longrightarrow> world_ok c (send_udp ep d w)"
  by (auto simp: send_udp_def intro: world_ok_cong)

lemma udp_answer_ok: "world_ok c w \<Longrightarrow> world_ok c (udp_answer c ep kvs w)"
  by (simp add: udp_answer_def send_udp_ok)

lemma session_ok_bucket:
  assumes "session_ok c s"
  shows "session_ok c (snd (checkUdpRateLimit now s))"
  using assms by (auto simp: session_ok_def checkUdpRateLimit_def Let_def maxTokens_def min_def)

lemma register_ok: "world_ok c w \<Longrightarrow> world_ok c (snd (Udpregister_handler c now draws a msg ep w))"
  by (auto simp: Udpregister_handler_def Let_def split: sum.split intro!: udp_answer_ok world_ok_upd_all)

lemma zone_handler_ok:
  assumes "world_ok c w"
  shows "world_ok c (snd (Udpbroadcastzone_handler c a msg w))"
proof -
  have z: "zones_ok (zones w)" using assms by (simp add: world_ok_def)
  have "zones_ok (um_put zid (snd (zone_for_each_session (alive w) z)) (zones w))"
    if "get_zone zid (zones w) = Some z" for zid z
    using zones_ok_find [OF z] that
    by (intro zones_ok_put z zone_for_each_session_ok) (simp_all add: get_zone_def zone_for_each_session_def Let_def)
  then show ?thesis using assms
    by (simp add: Udpbroadcastzone_handler_def world_ok_def split_beta Let_def split: option.split sum.split)
qed

lemma udp_handlers_ok:
  assumes "map_of (udp_handlers c now draws) ty = Some h" "world_ok c w"
  shows "world_ok c (snd (h a msg ep w))"
proof -
  have "h \<in> {\<lambda>a. Udp_handler c, \<lambda>a msg ep. Udpbroadcast_handler c msg, Udpregister_handler c now draws,
      \<lambda>a msg ep. Udpbroadcastzone_handler c a msg}"
    using map_of_SomeD [OF assms(1)] by (auto simp: udp_handlers_def)
  then show ?thesis using assms(2)
    by (auto simp: Udp_handler_def Udpbroadcast_handler_def udp_broadcast_def split: sum.split
        intro!: udp_answer_ok world_ok_posted register_ok zone_handler_ok)
qed

lemma dispatch_udp_parsed_ok: "world_ok c w \<Longrightarrow> world_ok c (dispatch_udp_parsed c now draws a msg ep w)"
  by (auto simp: dispatch_udp_parsed_def split: sum.split option.split intro: send_udp_ok udp_handlers_ok)

lemma bind_endpoint_ok:
  assumes "world_ok c w"
  shows "world_ok c (bind_endpoint now a ep w)"
proof -
  define w1 where "w1 = (case udp_endpoint (heap w a) of Some old \<Rightarrow> erase_endpoint_of old a w | None \<Rightarrow> w)"
  have w1: "world_ok c w1" using assms by (simp add: w1_def erase_endpoint_of_ok split: option.split)
  have "world_ok c (w1\<lparr>udp_endpoint_to_session := m\<rparr>)" if "um_ok m" for m
    using w1 that by (simp add: world_ok_def)
  moreover have "um_ok (um_put ep a (case um_find (udp_endpoint_to_session w1) ep of
      Some b \<Rightarrow> if alive w1 b \<and> b = a then udp_endpoint_to_session w1 else um_erase ep (udp_endpoint_to_session w1)
    | None \<Rightarrow> udp_endpoint_to_session w1))"
    using w1 by (auto simp: world_ok_def split: option.split)
  ultimately show ?thesis using assms
    unfolding bind_endpoint_def w1_def [symmetric] by (auto simp: Let_def intro!: world_ok_upd_all)
qed

lemma count_packet_ok: "world_ok c w \<Longrightarrow> world_ok c (count_packet now w)"
  by (auto simp: count_packet_def Let_def intro: world_ok_cong)

lemma bucket_ok: "world_ok c w \<Longrightarrow> world_ok c (upd a (\<lambda>_. snd (checkUdpRateLimit now (heap w a))) w)"
  by (intro world_ok_upd session_ok_bucket) (auto dest: world_ok_session)

lemma udp_accept_ok: "world_ok c w \<Longrightarrow> world_ok c (udp_accept c now draws a ty msg ep w)"
  by (auto simp: udp_accept_def split_beta Let_def udp_error_def
      intro!: udp_answer_ok dispatch_udp_parsed_ok world_ok_upd_all bind_endpoint_ok bucket_ok)

lemma udp_gate_ok: "world_ok c w \<Longrightarrow> world_ok c (snd (udp_gate c now a ty tok ep w))"
  by (auto simp: udp_gate_def udp_error_def intro!: udp_answer_ok world_ok_upd_all)

lemma world_ok_limiter: "world_ok c w \<Longrightarrow> world_ok c (w\<lparr>udp_global_limiter := l\<rparr>)"
  by (auto intro: world_ok_cong)

lemma on_udp_receive_ok: "world_ok c w \<Longrightarrow> world_ok c (snd (on_udp_receive c now tid draws raw ep w))"
  by (simp add: on_udp_receive_def split_beta Let_def udp_answer_ok count_packet_ok world_ok_limiter udp_accept_ok
      udp_gate_ok split: option.split sum.split)

lemma register_bad_ok: "world_ok c w \<Longrightarrow> world_ok c (register_bad_udp_packet now ep w)"
  by (auto simp: register_bad_udp_packet_def Let_def intro: world_ok_cong)

lemma is_blocked_ok: "world_ok c w \<Longrightarrow> world_ok c (snd (is_blocked_udp now ep w))"
  by (auto simp: is_blocked_udp_def Let_def split: option.split intro: world_ok_cong)

lemma on_udp_packet_ok: "world_ok c w \<Longrightarrow> world_ok c (on_udp_packet c now tid draws ec data ep w)"
  by (auto simp: on_udp_packet_def split_beta Let_def split: option.split
      intro!: udp_answer_ok on_udp_receive_ok is_blocked_ok register_bad_ok bucket_ok)

lemma udp_broadcast_to_ok: "world_ok c w \<Longrightarrow> world_ok c (snd (udp_broadcast_to c msg sender bs w))"
  by (induction bs arbitrary: w) (auto simp: send_udp_ok split: option.split sum.split)

subsection \<open>The path of a packet\<close>

definition admitted :: "app_context \<Rightarrow> time \<Rightarrow> nat \<Rightarrow> world \<Rightarrow> bool" where
  "admitted c now tid w \<longleftrightarrow>
     fst (sharded_udp_rate_limit tid now (config_size c ''total_limit_per_sec'' 1000) (udp_global_limiter w))"

definition counted :: "app_context \<Rightarrow> time \<Rightarrow> nat \<Rightarrow> world \<Rightarrow> world" where
  "counted c now tid w = count_packet now (w\<lparr>udp_global_limiter :=
     snd (sharded_udp_rate_limit tid now (config_size c ''total_limit_per_sec'' 1000) (udp_global_limiter w))\<rparr>)"

lemma counted_frame [simp]:
  "heap (counted c now tid w) = heap w" "smgr (counted c now tid w) = smgr w" "posted (counted c now tid w) = posted w"
  "udp_out (counted c now tid w) = udp_out w" "alive (counted c now tid w) = alive w"
  "udp_endpoint_to_session (counted c now tid w) = udp_endpoint_to_session w" "zones (counted c now tid w) = zones w"
  "tcp_out (counted c now tid w) = tcp_out w" "io_threads (counted c now tid w) = io_threads w"
  "udp_global_limiter (counted c now tid w) =
     snd (sharded_udp_rate_limit tid now (config_size c ''total_limit_per_sec'' 1000) (udp_global_limiter w))"
  by (simp_all add: counted_def count_packet_def alive_def fun_eq_iff Let_def)

lemma counted_changes:
  obtains l n t where "counted c now tid w =
    w\<lparr>udp_global_limiter := l, udp_total_packet_count := n, udp_total_packet_window := t\<rparr>"
proof -
  let ?new = "udp_total_packet_window w = 0 \<or> 1 \<le> to_seconds (now - udp_total_packet_window w)"
  have "counted c now tid w = w\<lparr>udp_global_limiter :=
        snd (sharded_udp_rate_limit tid now (config_size c ''total_limit_per_sec'' 1000) (udp_global_limiter w)),
      udp_total_packet_count := (if ?new then 0 else udp_total_packet_count w) + 1,
      udp_total_packet_window := if ?new then now else udp_total_packet_window w\<rparr>"
    by (simp add: counted_def count_packet_def Let_def)
  then show ?thesis by (rule that)
qed

lemma send_udp_frame [simp]:
  "heap (send_udp ep d w) = heap w" "smgr (send_udp ep d w) = smgr w" "posted (send_udp ep d w) = posted w"
  "udp_out (send_udp ep d w) = udp_out w @ [(ep, d)]" "alive (send_udp ep d w) = alive w"
  "udp_endpoint_to_session (send_udp ep d w) = udp_endpoint_to_session w" "zones (send_udp ep d w) = zones w"
  "tcp_out (send_udp ep d w) = tcp_out w" "udp_global_limiter (send_udp ep d w) = udp_global_limiter w"
  by (simp_all add: send_udp_def alive_def fun_eq_iff)

text \<open>A packet of the named fields that the server-wide limiter lets through.\<close>

definition packet_fields :: "app_context \<Rightarrow> string \<Rightarrow> json \<Rightarrow> string \<Rightarrow> string \<Rightarrow> string \<Rightarrow> bool" where
  "packet_fields c raw msg nick ty token \<longleftrightarrow> json_parse c raw = Inr msg
     \<and> value_string msg ''nickname'' [] = Inr nick \<and> value_string msg ''type'' [] = Inr ty
     \<and> value_string msg ''token'' [] = Inr token \<and> nick \<noteq> []"

lemma on_udp_receive_known:
  assumes "packet_fields c raw msg nick ty token" "admitted c now tid w"
    and "find_session_by_nickname (alive w) (smgr w) nick = Some a"
  shows "on_udp_receive c now tid draws raw from w =
     (None, let (pass, w2) = udp_gate c now a ty token from (counted c now tid w)
            in if pass then udp_accept c now draws a ty msg from w2 else w2)"
  using assms unfolding on_udp_receive_def admitted_def packet_fields_def try_parse_json_def
  by (simp add: split_beta Let_def flip: counted_def)

lemma on_udp_receive_refused:
  "\<not> admitted c now tid w \<Longrightarrow> on_udp_receive c now tid draws raw from w = (None, w\<lparr>udp_global_limiter :=
     snd (sharded_udp_rate_limit tid now (config_size c ''total_limit_per_sec'' 1000) (udp_global_limiter w))\<rparr>)"
  unfolding on_udp_receive_def admitted_def by (simp add: split_beta Let_def)

lemma udp_gate_changes:
  "\<exists>h out. snd (udp_gate c now a ty token from u) = u\<lparr>heap := h, udp_out := out\<rparr>"
proof -
  have same: "\<exists>h out. u = u\<lparr>heap := h, udp_out := out\<rparr>"
    by (rule exI [of _ "heap u"], rule exI [of _ "udp_out u"]) simp
  have err: "\<exists>h out. udp_error c from cd tx u = u\<lparr>heap := h, udp_out := out\<rparr>" for cd tx
    by (rule exI [of _ "heap u"], rule exI [of _ "udp_out (udp_error c from cd tx u)"])
       (simp add: udp_error_def udp_answer_def send_udp_def)
  have "\<exists>h out. upd a f (udp_error c from cd tx u) = u\<lparr>heap := h, udp_out := out\<rparr>" for f cd tx
    by (rule exI [of _ "heap (upd a f (udp_error c from cd tx u))"], rule exI [of _ "udp_out (udp_error c from cd tx u)"])
       (simp add: udp_error_def udp_answer_def send_udp_def upd_def)
  with same err show ?thesis by (simp add: udp_gate_def)
qed

text \<open>The fields of a session the bucket leaves alone.\<close>

lemma bucket_frame [simp]:
  "udp_token (snd (checkUdpRateLimit now s)) = udp_token s" "udp_endpoint (snd (checkUdpRateLimit now s)) = udp_endpoint s"
  "udp_token_issued (snd (checkUdpRateLimit now s)) = udp_token_issued s"
  "udp_token_ttl_sec (snd (checkUdpRateLimit now s)) = udp_token_ttl_sec s" "nickname (snd (checkUdpRateLimit now s)) = nickname s"
  by (simp_all add: checkUdpRateLimit_def Let_def)

lemma bucket_pays:
  "1 \<le> udpTokens s \<Longrightarrow> fst (checkUdpRateLimit now s)"
  "2 \<le> udpTokens s \<Longrightarrow> 1 \<le> udpTokens (snd (checkUdpRateLimit now s))"
  by (auto simp: checkUdpRateLimit_def Let_def maxTokens_def)

lemma bind_endpoint_frame:
  "smgr (bind_endpoint now a ep w) = smgr w" "alive (bind_endpoint now a ep w) = alive w"
  "udp_out (bind_endpoint now a ep w) = udp_out w"
  "udp_global_limiter (bind_endpoint now a ep w) = udp_global_limiter w"
  "b \<noteq> a \<Longrightarrow> heap (bind_endpoint now a ep w) b = heap w b"
  "udp_endpoint (heap (bind_endpoint now a ep w) a) = Some ep"
  "udpTokens (heap (bind_endpoint now a ep w) a) = udpTokens (heap w a)"
  "lastUdpTokenRefill (heap (bind_endpoint now a ep w) a) = lastUdpTokenRefill (heap w a)"
  by (auto simp: bind_endpoint_def erase_endpoint_of_def alive_def fun_eq_iff set_udp_endpoint_def Let_def split: option.split)

text \<open>
  A \<open>udp_register\<close> packet that the limits let through: the session is bound to the sender
  and has the new token, which is sent there.
\<close>

lemma register_effect:
  fixes draws :: "nat list" and "from" :: endpoint
  assumes "packet_fields c raw msg nick ''udp_register'' token" "admitted c now tid w"
    and "find_session_by_nickname (alive w) (smgr w) nick = Some a" "fst (checkUdpRateLimit now (heap w a))"
  defines "w' \<equiv> snd (on_udp_receive c now tid draws raw from w)"
  shows "udp_token (heap w' a) = generate_random_token draws" "udp_endpoint (heap w' a) = Some from"
    and "udp_token_issued (heap w' a) = now" "udp_token_ttl_sec (heap w' a) = config_value c ''udp_token_ttl_seconds'' 300"
    and "udp_out w' = udp_out w @ [(from, json_dump c (jobj [(''type'', JStr ''udp_register_ack''), (''msg'', JStr register_text),
          (''token'', JStr (generate_random_token draws)), (''nickname'', JStr nick)]))]"
    and "smgr w' = smgr w" "alive w' = alive w" "b \<noteq> a \<Longrightarrow> heap w' b = heap w b"
    and "udp_global_limiter w' =
      snd (sharded_udp_rate_limit tid now (config_size c ''total_limit_per_sec'' 1000) (udp_global_limiter w))"
    and "udpTokens (heap w' a) = udpTokens (snd (checkUdpRateLimit now (heap w a)))
      \<and> lastUdpTokenRefill (heap w' a) = lastUdpTokenRefill (snd (checkUdpRateLimit now (heap w a)))"
proof -
  define w1 where "w1 = upd a (\<lambda>_. snd (checkUdpRateLimit now (heap w a))) (counted c now tid w)"
  define w3 where "w3 = upd a (update_udp_alive_time now) (bind_endpoint now a from w1)"
  have ty: "value_string msg ''type'' [] = Inr ''udp_register''" "value_string msg ''nickname'' ''anonymity'' = Inr nick"
    using assms(1) unfolding packet_fields_def by (auto elim!: value_string.elims split: option.splits)
  have "w' = udp_accept c now draws a ''udp_register'' msg from (counted c now tid w)"
    unfolding w'_def on_udp_receive_known [OF assms(1-3)] by (simp add: udp_gate_def)
  also have "\<dots> = dispatch_udp_parsed c now draws a msg from w3"
    using assms(4) by (simp add: udp_accept_def split_beta Let_def w3_def w1_def)
  also have "\<dots> = snd (Udpregister_handler c now draws a msg from w3)"
    using ty(1) by (simp add: dispatch_udp_parsed_def udp_handlers_def)
  finally have w': "w' = snd (Udpregister_handler c now draws a msg from w3)" .
  note d = Udpregister_handler_def udp_answer_def set_udp_token_def set_udp_token_ttl_def update_udp_alive_time_def
    set_udp_endpoint_def
  show "udp_token (heap w' a) = generate_random_token draws" "udp_endpoint (heap w' a) = Some from"
    "udp_token_issued (heap w' a) = now" "udp_token_ttl_sec (heap w' a) = config_value c ''udp_token_ttl_seconds'' 300"
    unfolding w' by (simp_all add: d ty(2) Let_def)
  show "udp_out w' = udp_out w @ [(from, json_dump c (jobj [(''type'', JStr ''udp_register_ack''), (''msg'', JStr register_text),
          (''token'', JStr (generate_random_token draws)), (''nickname'', JStr nick)]))]"
    "smgr w' = smgr w" "alive w' = alive w"
    "udp_global_limiter w' = snd (sharded_udp_rate_limit tid now (config_size c ''total_limit_per_sec'' 1000) (udp_global_limiter w))"
    "udpTokens (heap w' a) = udpTokens (snd (checkUdpRateLimit now (heap w a)))
      \<and> lastUdpTokenRefill (heap w' a) = lastUdpTokenRefill (snd (checkUdpRateLimit now (heap w a)))"
    unfolding w' by (simp_all add: d ty(2) Let_def w3_def w1_def bind_endpoint_frame)
  show "heap w' b = heap w b" if "b \<noteq> a"
    unfolding w' using that by (simp add: d ty(2) Let_def w3_def w1_def bind_endpoint_frame)
qed

text \<open>
  The way of a packet with a valid token through both rate checks: the first is the
  receiver's, the second is part of \<open>udp_accept\<close>.
\<close>

lemma on_udp_packet_accepted:
  assumes "packet_fields c raw msg nick ty token"
    and "raw \<noteq> []" "length raw \<le> config_size c ''max_udp_packet_size'' 1024" "data_handler_alive w"
    and "getSessionByEndpoint from w = Some a" "find_session_by_nickname (alive w) (smgr w) nick = Some a"
    and "token \<noteq> []" "udp_token (heap w a) = token" "is_udp_token_valid now (heap w a)" "udp_endpoint (heap w a) = Some from"
    and "checkUdpRateLimit now (heap w a) = (True, s1)" "admitted c now tid w"
  shows "on_udp_packet c now tid draws False raw from w =
    udp_accept c now draws a ty msg from (counted c now tid (upd a (\<lambda>_. s1) w))"
proof -
  define w1 where "w1 = upd a (\<lambda>_. s1) w"
  have w1: "admitted c now tid w1" "find_session_by_nickname (alive w1) (smgr w1) nick = Some a"
    using assms(6,12) by (simp_all add: w1_def admitted_def)
  have s1: "s1 = snd (checkUdpRateLimit now (heap w a))" by (simp add: assms(11))
  have gate: "udp_gate c now a ty token from (counted c now tid w1) = (True, counted c now tid w1)"
    using assms(7-10) by (simp add: udp_gate_def w1_def s1 is_udp_token_valid_def split: if_splits)
  have "on_udp_packet c now tid draws False raw from w = snd (on_udp_receive c now tid draws raw from w1)"
    using assms(1-5,11) unfolding on_udp_packet_def packet_fields_def try_parse_json_def w1_def by simp
  then show ?thesis by (simp add: on_udp_receive_known [OF assms(1) w1] gate flip: w1_def)
qed

text \<open>
  An example: one logged-in session whose limiter has no shards and so admits everything,
  and a parser that knows three messages.
\<close>

lemma udp_example:
  "\<exists>w. find_session_by_nickname (alive w) (smgr w) ''bob'' = Some 0 \<and> heap w 0 = s\<lparr>session_id := 5, life_state := Idle\<rparr>
     \<and> data_handler_alive w \<and> udp_endpoint_to_session w = m \<and> counts (udp_global_limiter w) = []"
proof -
  obtain w0 where w0: "filed_ok w0" "find_session (smgr w0) 5 = Some 0" "heap w0 0 = s\<lparr>session_id := 5, life_state := Idle\<rparr>"
    using filed_ok_example [of s] by blast
  define w where "w = w0\<lparr>smgr := set_nickname_owner ''bob'' 0 (smgr w0), udp_endpoint_to_session := m,
      udp_global_limiter := new_limiter 0\<rparr>"
  have "alive w0 0" by (rule filed_alive [OF w0(1,2)])
  then have "alive w 0" by (simp add: w_def alive_def)
  moreover have "data_handler_alive w0" using w0(1) by (simp add: filed_ok_def)
  ultimately show ?thesis using w0(3)
    by (intro exI [of _ w]) (simp add: w_def find_session_by_nickname_def set_nickname_owner_def um_find_put new_limiter_def)
qed

lemma no_shards_admit: "counts (udp_global_limiter w) = [] \<Longrightarrow> admitted c now tid w"
  by (simp add: admitted_def sharded_udp_rate_limit_def)

lemma no_shards_kept: "counts l = [] \<Longrightarrow> snd (sharded_udp_rate_limit tid now n l) = l"
  by (simp add: sharded_udp_rate_limit_def)

definition example_context :: app_context where
  "example_context = \<lparr>config = \<lambda>_. None, config_text = \<lambda>_. None,
     json_parse = (\<lambda>raw.
       if raw = ''r'' then Inr (jobj [(''type'', JStr ''udp_register''), (''nickname'', JStr ''bob'')])
       else if raw = ''u'' then Inr (jobj [(''type'', JStr ''udp''), (''nickname'', JStr ''bob''),
              (''token'', JStr ''7''), (''msg'', JStr ''hi'')])
       else Inl Parse_error),
     json_dump = \<lambda>_. []\<rparr>"

lemma example_fields:
  "packet_fields example_context ''r'' (jobj [(''type'', JStr ''udp_register''), (''nickname'', JStr ''bob'')]) ''bob'' ''udp_register'' []"
  "packet_fields example_context ''u'' (jobj [(''type'', JStr ''udp''), (''nickname'', JStr ''bob''),
     (''token'', JStr ''7''), (''msg'', JStr ''hi'')]) ''bob'' ''udp'' ''7''"
  "value_string (jobj [(''type'', JStr ''udp''), (''nickname'', JStr ''bob''), (''token'', JStr ''7''), (''msg'', JStr ''hi'')]) ''msg'' []
     = Inr ''hi''"
  by (simp_all add: packet_fields_def example_context_def jobj_def)

lemma example_token: "generate_random_token [7] = ''7''"
  by (simp add: generate_random_token_def hex_chars_def)

lemma refill_none: "refill_amount (to_milliseconds 0) \<le> 0"
  using refill_amount_bounds(1) [of 0] by (simp add: to_milliseconds_def trunc_quot_def)

section \<open>Properties\<close>

text \<open>
  C13: UDP messages need the token. A packet that is no \<open>udp_register\<close> and does not carry
  the unexpired token of the named session, or does not come from the endpoint bound to
  it, reaches no handler. When it passes the limiter and names a known session, exactly one
  datagram is sent, to the sender: the error for the first check that failed (no token, a
  wrong one, an expired one, another endpoint); an expired token is cleared, and nothing
  else of that session changes. Otherwise nothing is sent. Apart from that only the limiter
  and the packet statistics change.
\<close>

theorem udp_needs_token:
  assumes "packet_fields c raw msg nick ty token" "ty \<noteq> ''udp_register''"
    and "\<forall>a. find_session_by_nickname (alive w) (smgr w) nick = Some a \<longrightarrow>
      \<not> (token \<noteq> [] \<and> udp_token (heap w a) = token \<and> is_udp_token_valid now (heap w a) \<and> udp_endpoint (heap w a) = Some from)"
    and "on_udp_receive c now tid draws raw from w = (e, w')"
  shows "e = None
    \<and> w' = w\<lparr>heap := heap w', udp_out := udp_out w', udp_global_limiter := udp_global_limiter w',
        udp_total_packet_count := udp_total_packet_count w', udp_total_packet_window := udp_total_packet_window w'\<rparr>
    \<and> (\<forall>b. find_session_by_nickname (alive w) (smgr w) nick \<noteq> Some b \<longrightarrow> heap w' b = heap w b)
    \<and> (\<not> admitted c now tid w \<or> find_session_by_nickname (alive w) (smgr w) nick = None \<longrightarrow>
         udp_out w' = udp_out w \<and> heap w' = heap w)
    \<and> (\<forall>a. admitted c now tid w \<longrightarrow> find_session_by_nickname (alive w) (smgr w) nick = Some a \<longrightarrow>
         (if token = [] then heap w' a = heap w a
            \<and> udp_out w' = udp_out w @ [(from, json_dump c (jobj [(''type'', JStr ''udp_error''),
                (''code'', JStr ''TOKEN_REQUIRED''), (''msg'', JStr ''UDP token is required'')]))]
          else if udp_token (heap w a) \<noteq> token then heap w' a = heap w a
            \<and> udp_out w' = udp_out w @ [(from, json_dump c (jobj [(''type'', JStr ''udp_error''),
                (''code'', JStr ''INVALID_TOKEN''), (''msg'', JStr ''Invalid UDP token'')]))]
          else if \<not> is_udp_token_valid now (heap w a)
          then heap w' a = (heap w a)\<lparr>udp_token := [], udp_token_issued := 0\<rparr>
            \<and> udp_out w' = udp_out w @ [(from, json_dump c (jobj [(''type'', JStr ''udp_error''),
                (''code'', JStr ''UDP_TOKEN_EXPIRED''), (''msg'', JStr ''UDP token expired, please udp_register again'')]))]
          else heap w' a = heap w a
            \<and> udp_out w' = udp_out w @ [(from, json_dump c (jobj [(''type'', JStr ''udp_error''),
                (''code'', JStr ''ENDPOINT_MISMATCH''), (''msg'', JStr ''Endpoint mismatch; please udp_register again'')]))]))"
proof (cases "admitted c now tid w")
  case False
  then show ?thesis using assms(4) by (auto simp: on_udp_receive_refused)
next
  case adm: True
  obtain l n t where cnt: "counted c now tid w =
      w\<lparr>udp_global_limiter := l, udp_total_packet_count := n, udp_total_packet_window := t\<rparr>"
    by (rule counted_changes)
  show ?thesis
  proof (cases "find_session_by_nickname (alive w) (smgr w) nick")
    case None
    then have "(e, w') = (None, counted c now tid w)"
      using assms(1,4) adm unfolding on_udp_receive_def admitted_def packet_fields_def try_parse_json_def
      by (auto simp: split_beta Let_def simp flip: counted_def)
    then show ?thesis using None by (simp add: cnt)
  next
    case (Some a)
    have fail: "\<not> (token \<noteq> [] \<and> udp_token (heap w a) = token \<and> is_udp_token_valid now (heap w a)
        \<and> udp_endpoint (heap w a) = Some from)" using assms(3) Some by blast
    have run: "e = None \<and> w' = snd (udp_gate c now a ty token from (counted c now tid w))"
      using on_udp_receive_known [OF assms(1) adm Some, of draws "from"] assms(2,4) fail
      by (auto simp: udp_gate_def split: if_splits)
    have gate: "snd (udp_gate c now a ty token from u) = (if token = [] then
          udp_error c from ''TOKEN_REQUIRED'' ''UDP token is required'' u
        else if udp_token (heap w a) \<noteq> token then udp_error c from ''INVALID_TOKEN'' ''Invalid UDP token'' u
        else if \<not> is_udp_token_valid now (heap w a) then upd a clear_udp_token
          (udp_error c from ''UDP_TOKEN_EXPIRED'' ''UDP token expired, please udp_register again'' u)
        else udp_error c from ''ENDPOINT_MISMATCH'' ''Endpoint mismatch; please udp_register again'' u)"
      if "heap u = heap w" for u
      using assms(2) fail that by (auto simp: udp_gate_def)
    have h: "heap (counted c now tid w) = heap w" "udp_out (counted c now tid w) = udp_out w" by simp_all
    note w' = run [unfolded gate [OF h(1)]]
    have err: "heap (udp_error c from cd tx u) = heap u"
      "udp_out (udp_error c from cd tx u) = udp_out u @ [(from, json_dump c (jobj [(''type'', JStr ''udp_error''),
          (''code'', JStr cd), (''msg'', JStr tx)]))]" for cd tx u
      by (simp_all add: udp_error_def udp_answer_def send_udp_def)
    have frame: "w' = w\<lparr>heap := heap w', udp_out := udp_out w', udp_global_limiter := udp_global_limiter w',
        udp_total_packet_count := udp_total_packet_count w', udp_total_packet_window := udp_total_packet_window w'\<rparr>"
    proof -
      have "\<exists>h out. snd (udp_gate c now a ty token from u) = u\<lparr>heap := h, udp_out := out\<rparr>" for u
        by (rule udp_gate_changes)
      then obtain h out where "w' = (counted c now tid w)\<lparr>heap := h, udp_out := out\<rparr>" using run by blast
      then show ?thesis by (simp add: cnt)
    qed
    have other: "heap w' b = heap w b" if "b \<noteq> a" for b using w' that h by (auto simp: err split: if_splits)
    have named: "if token = [] then heap w' a = heap w a
            \<and> udp_out w' = udp_out w @ [(from, json_dump c (jobj [(''type'', JStr ''udp_error''),
                (''code'', JStr ''TOKEN_REQUIRED''), (''msg'', JStr ''UDP token is required'')]))]
          else if udp_token (heap w a) \<noteq> token then heap w' a = heap w a
            \<and> udp_out w' = udp_out w @ [(from, json_dump c (jobj [(''type'', JStr ''udp_error''),
                (''code'', JStr ''INVALID_TOKEN''), (''msg'', JStr ''Invalid UDP token'')]))]
          else if \<not> is_udp_token_valid now (heap w a)
          then heap w' a = (heap w a)\<lparr>udp_token := [], udp_token_issued := 0\<rparr>
            \<and> udp_out w' = udp_out w @ [(from, json_dump c (jobj [(''type'', JStr ''udp_error''),
                (''code'', JStr ''UDP_TOKEN_EXPIRED''), (''msg'', JStr ''UDP token expired, please udp_register again'')]))]
          else heap w' a = heap w a
            \<and> udp_out w' = udp_out w @ [(from, json_dump c (jobj [(''type'', JStr ''udp_error''),
                (''code'', JStr ''ENDPOINT_MISMATCH''), (''msg'', JStr ''Endpoint mismatch; please udp_register again'')]))]"
      using w' h by (simp add: err clear_udp_token_def)
    have e: "e = None" using run by blast
    show ?thesis
    proof (intro conjI frame e)
      show "\<forall>b. find_session_by_nickname (alive w) (smgr w) nick \<noteq> Some b \<longrightarrow> heap w' b = heap w b"
        using other by (simp add: Some)
    qed (use adm Some named in \<open>auto simp only: option.inject option.distinct not_True_eq_False\<close>)
  qed
qed

theorem udp_needs_token_witness:
  "\<exists>w w'. on_udp_receive example_context 5 0 [] ''u'' (''10.0.0.1'', 4000) w = (None, w')
     \<and> udp_out w' = udp_out w @ [((''10.0.0.1'', 4000), json_dump example_context
         (jobj [(''type'', JStr ''udp_error''), (''code'', JStr ''INVALID_TOKEN''), (''msg'', JStr ''Invalid UDP token'')]))]
     \<and> posted w' = posted w"
proof -
  let ?ep = "(''10.0.0.1'', 4000 :: nat)"
  obtain w where w: "find_session_by_nickname (alive w) (smgr w) ''bob'' = Some 0"
    "heap w 0 = (session_new 0 1 UdpSendStrand)\<lparr>session_id := 5, life_state := Idle\<rparr>"
    "counts (udp_global_limiter w) = []"
    using udp_example by blast
  have t: "udp_token (heap w 0) = []" using w(2) by (simp add: session_new_def)
  have h: "\<forall>a. find_session_by_nickname (alive w) (smgr w) ''bob'' = Some a \<longrightarrow>
      \<not> (''7'' \<noteq> [] \<and> udp_token (heap w a) = ''7'' \<and> is_udp_token_valid 5 (heap w a) \<and> udp_endpoint (heap w a) = Some ?ep)"
    using w(1) t by simp
  obtain e w' where run: "on_udp_receive example_context 5 0 [] ''u'' ?ep w = (e, w')" by (metis surj_pair)
  have "''udp'' \<noteq> ''udp_register''" by simp
  note all = udp_needs_token [OF example_fields(2) this h run]
  have "udp_out w' = udp_out w @ [(?ep, json_dump example_context
      (jobj [(''type'', JStr ''udp_error''), (''code'', JStr ''INVALID_TOKEN''), (''msg'', JStr ''Invalid UDP token'')]))]"
    using all w(1) t no_shards_admit [OF w(3)] by simp
  moreover have "posted w' = posted w"
  proof -
    have "posted w' = posted (w\<lparr>heap := heap w', udp_out := udp_out w', udp_global_limiter := udp_global_limiter w',
        udp_total_packet_count := udp_total_packet_count w', udp_total_packet_window := udp_total_packet_window w'\<rparr>)"
      using all by metis
    then show ?thesis by simp
  qed
  ultimately show ?thesis using run all by blast
qed

text \<open>
  C24: Registering and using UDP. After a \<open>udp_register\<close> packet that passes the limits, the
  sender is told a token, and an echo request it sends with that token while the token has
  not expired is answered at its endpoint.
\<close>

theorem udp_register_then_use:
  assumes "packet_fields c raw msg nick ''udp_register'' tok0" "admitted c now tid w"
    and "find_session_by_nickname (alive w) (smgr w) nick = Some a" "fst (checkUdpRateLimit now (heap w a))"
    and "w1 = snd (on_udp_receive c now tid draws raw from w)" "draws \<noteq> []" "now \<noteq> 0"
    and "packet_fields c raw2 msg2 nick ''udp'' (generate_random_token draws)" "value_string msg2 ''msg'' [] = Inr text"
    and "admitted c later tid2 w1" "fst (checkUdpRateLimit later (heap w1 a))"
    and "to_seconds (later - now) \<le> config_value c ''udp_token_ttl_seconds'' 300"
  shows "udp_out w1 = udp_out w @ [(from, json_dump c (jobj [(''type'', JStr ''udp_register_ack''), (''msg'', JStr register_text),
          (''token'', JStr (generate_random_token draws)), (''nickname'', JStr nick)]))]
    \<and> udp_out (snd (on_udp_receive c later tid2 draws2 raw2 from w1)) = udp_out w1 @
        [(from, json_dump c (jobj [(''type'', JStr ''udp_reply''), (''msg'', JStr (''Echo(UDP): '' @ text)), (''nickname'', JStr nick)]))]"
proof -
  note r = register_effect [OF assms(1-4), where draws = draws and ?from = "from", folded assms(5)]
  have nonempty: "generate_random_token draws \<noteq> []"
    using assms(6) by (metis length_0_conv length_generate_random_token)
  have known: "find_session_by_nickname (alive w1) (smgr w1) nick = Some a" using assms(3) r(6,7) by simp
  have pass: "udp_gate c later a ''udp'' (generate_random_token draws) from (counted c later tid2 w1) = (True, counted c later tid2 w1)"
    using r(1-4) nonempty assms(7,12) by (simp add: udp_gate_def is_udp_token_valid_def)
  have "value_string msg2 ''type'' [] = Inr ''udp''" "value_string msg2 ''nickname'' ''anonymity'' = Inr nick"
    using assms(8) unfolding packet_fields_def by (auto elim!: value_string.elims split: option.splits)
  then have "udp_out (snd (on_udp_receive c later tid2 draws2 raw2 from w1)) = udp_out w1 @
        [(from, json_dump c (jobj [(''type'', JStr ''udp_reply''), (''msg'', JStr (''Echo(UDP): '' @ text)), (''nickname'', JStr nick)]))]"
    using assms(9,11)
    by (simp add: on_udp_receive_known [OF assms(8,10) known] pass udp_accept_def dispatch_udp_parsed_def udp_handlers_def
        Udp_handler_def udp_answer_def split_beta Let_def)
  with r(5) show ?thesis by simp
qed

theorem udp_register_then_use_witness:
  "\<exists>w w1. w1 = snd (on_udp_receive example_context 5 0 [7] ''r'' (''10.0.0.1'', 4000) w)
     \<and> udp_out (snd (on_udp_receive example_context 6 0 [] ''u'' (''10.0.0.1'', 4000) w1)) = udp_out w1 @
        [((''10.0.0.1'', 4000), json_dump example_context (jobj [(''type'', JStr ''udp_reply''),
            (''msg'', JStr (''Echo(UDP): '' @ ''hi'')), (''nickname'', JStr ''bob'')]))]"
proof -
  obtain w where w: "find_session_by_nickname (alive w) (smgr w) ''bob'' = Some 0" "counts (udp_global_limiter w) = []"
    "heap w 0 = ((session_new 0 1 UdpSendStrand)\<lparr>lastUdpTokenRefill := 5\<rparr>)\<lparr>session_id := 5, life_state := Idle\<rparr>"
    using udp_example by blast
  define w1 where "w1 = snd (on_udp_receive example_context 5 0 [7] ''r'' (''10.0.0.1'', 4000) w)"
  have b: "checkUdpRateLimit 5 (heap w 0) = (True, (heap w 0)\<lparr>udpTokens := maxTokens - 1\<rparr>)"
    using refill_none by (simp add: checkUdpRateLimit_def w(3) session_new_def maxTokens_def Let_def)
  then have ok: "fst (checkUdpRateLimit 5 (heap w 0))" by simp
  note r = register_effect [OF example_fields(1) no_shards_admit [OF w(2)] w(1) ok, where draws = "[7]" and ?from = "(''10.0.0.1'', 4000)"
      and tid = 0, folded w1_def]
  have l: "counts (udp_global_limiter w1) = []" using r(9) w(2) by (simp add: no_shards_kept)
  have "udpTokens (heap w1 0) = 119" using r(10) b by (simp add: maxTokens_def)
  then have ok2: "fst (checkUdpRateLimit 6 (heap w1 0))"
    by (auto simp: checkUdpRateLimit_def maxTokens_def Let_def)
  have "to_seconds (6 - 5) \<le> config_value example_context ''udp_token_ttl_seconds'' 300"
    by (simp add: to_seconds_def trunc_quot_def config_value_def example_context_def)
  moreover have "[7::nat] \<noteq> []" "(5::time) \<noteq> 0" by simp_all
  ultimately have "udp_out (snd (on_udp_receive example_context 6 0 [] ''u'' (''10.0.0.1'', 4000) w1)) = udp_out w1 @
        [((''10.0.0.1'', 4000), json_dump example_context (jobj [(''type'', JStr ''udp_reply''),
            (''msg'', JStr (''Echo(UDP): '' @ ''hi'')), (''nickname'', JStr ''bob'')]))]"
    using udp_register_then_use [OF example_fields(1) no_shards_admit [OF w(2)] w(1) ok w1_def _ _
      example_fields(2) [folded example_token] example_fields(3) [folded example_token] no_shards_admit [OF l] ok2] by blast
  then show ?thesis using w1_def by blast
qed

text \<open>
  C39: Registering asks for no proof of identity. Whoever names a logged-in nickname in a
  \<open>udp_register\<close> packet is given a valid token for that session and becomes its bound
  endpoint, and the token the session held before is refused from then on.
\<close>

theorem udp_register_takes_over:
  assumes "packet_fields c raw msg nick ''udp_register'' tok0" "admitted c now tid w"
    and "find_session_by_nickname (alive w) (smgr w) nick = Some a" "fst (checkUdpRateLimit now (heap w a))"
    and "w1 = snd (on_udp_receive c now tid draws raw attacker w)" "draws \<noteq> []" "now \<noteq> 0"
    and "0 \<le> config_value c ''udp_token_ttl_seconds'' 300" "udp_token (heap w a) \<noteq> generate_random_token draws"
  shows "udp_token (heap w1 a) = generate_random_token draws \<and> is_udp_token_valid now (heap w1 a)
    \<and> udp_endpoint (heap w1 a) = Some attacker
    \<and> \<not> fst (udp_gate c later a ''udp'' (udp_token (heap w a)) victim w1)"
proof -
  note r = register_effect [OF assms(1-4), where draws = draws and ?from = attacker, folded assms(5)]
  have nonempty: "generate_random_token draws \<noteq> []"
    using assms(6) by (metis length_0_conv length_generate_random_token)
  have "is_udp_token_valid now (heap w1 a)"
    using r(1,3,4) nonempty assms(7,8) by (simp add: is_udp_token_valid_def to_seconds_def trunc_quot_def)
  then show ?thesis using r(1,2) assms(9) by (simp add: udp_gate_def)
qed

theorem udp_register_takes_over_witness:
  "\<exists>w. udp_token (heap w 0) = ''secret'' \<and>
     udp_endpoint (heap (snd (on_udp_receive example_context 5 0 [7] ''r'' (''6.6.6.6'', 666) w)) 0) = Some (''6.6.6.6'', 666)"
proof -
  obtain w where w: "find_session_by_nickname (alive w) (smgr w) ''bob'' = Some 0" "counts (udp_global_limiter w) = []"
    "heap w 0 = ((session_new 0 1 UdpSendStrand)\<lparr>udp_token := ''secret''\<rparr>)\<lparr>session_id := 5, life_state := Idle\<rparr>"
    using udp_example by blast
  have "fst (checkUdpRateLimit 5 (heap w 0))"
    by (auto simp: checkUdpRateLimit_def w(3) session_new_def maxTokens_def Let_def)
  moreover have "udp_token (heap w 0) \<noteq> generate_random_token [7]" by (simp add: w(3) example_token)
  moreover have "0 \<le> config_value example_context ''udp_token_ttl_seconds'' 300"
    by (simp add: config_value_def example_context_def)
  ultimately have "udp_endpoint (heap (snd (on_udp_receive example_context 5 0 [7] ''r'' (''6.6.6.6'', 666) w)) 0) = Some (''6.6.6.6'', 666)"
    using udp_register_takes_over [OF example_fields(1) no_shards_admit [OF w(2)] w(1) _ refl, of 5 "[7]" 0 "(''6.6.6.6'', 666)"] by simp
  then show ?thesis using w(3) by (intro exI [of _ w]) simp
qed

text \<open>
  A packet costs two tokens. A valid packet from a registered endpoint is charged to
  the session's bucket twice, by the receiver and again by the handler: without a refill in
  between, an accepted echo request leaves two tokens less.
\<close>

theorem udp_packet_costs_two_tokens:
  assumes "packet_fields c raw msg nick ''udp'' token" "value_string msg ''msg'' [] = Inr text"
    and "raw \<noteq> []" "length raw \<le> config_size c ''max_udp_packet_size'' 1024" "data_handler_alive w"
    and "getSessionByEndpoint from w = Some a" "find_session_by_nickname (alive w) (smgr w) nick = Some a"
    and "token \<noteq> []" "udp_token (heap w a) = token" "is_udp_token_valid now (heap w a)" "udp_endpoint (heap w a) = Some from"
    and "refill_amount (to_milliseconds (now - lastUdpTokenRefill (heap w a))) \<le> 0" "2 \<le> udpTokens (heap w a)"
    and "admitted c now tid w"
  shows "udpTokens (heap (on_udp_packet c now tid draws False raw from w) a) = udpTokens (heap w a) - 2"
proof -
  let ?s = "heap w a"
  have b: "checkUdpRateLimit now s = (True, s\<lparr>udpTokens := udpTokens s - 1\<rparr>)"
    if "lastUdpTokenRefill s = lastUdpTokenRefill ?s" "0 < udpTokens s" for s
    using assms(12) that by (simp add: checkUdpRateLimit_def Let_def)
  define s1 where "s1 = ?s\<lparr>udpTokens := udpTokens ?s - 1\<rparr>"
  have "checkUdpRateLimit now ?s = (True, s1)" using b [of ?s] assms(13) by (simp add: s1_def)
  note run = on_udp_packet_accepted [OF assms(1,3-11) this assms(14)]
  have ty: "value_string msg ''type'' [] = Inr ''udp''" "value_string msg ''nickname'' ''anonymity'' = Inr nick"
    using assms(1) unfolding packet_fields_def by (auto elim!: value_string.elims split: option.splits)
  have "checkUdpRateLimit now s1 = (True, s1\<lparr>udpTokens := udpTokens s1 - 1\<rparr>)"
    using b [of s1] assms(13) by (simp add: s1_def)
  then show ?thesis unfolding run using ty assms(2)
    by (simp add: udp_accept_def dispatch_udp_parsed_def udp_handlers_def Udp_handler_def udp_answer_def
        update_udp_alive_time_def Let_def) (simp add: s1_def)
qed

theorem udp_packet_costs_two_tokens_witness:
  "\<exists>w. udpTokens (heap w 0) = 120
     \<and> udpTokens (heap (on_udp_packet example_context 5 0 [] False ''u'' (''10.0.0.1'', 4000) w) 0) = 118"
proof -
  let ?ep = "(''10.0.0.1'', 4000) :: endpoint"
  obtain w where w: "find_session_by_nickname (alive w) (smgr w) ''bob'' = Some 0" "counts (udp_global_limiter w) = []"
    "heap w 0 = ((session_new 0 1 UdpSendStrand)\<lparr>udp_token := ''7'', udp_token_issued := 5, udp_endpoint := Some ?ep,
       lastUdpTokenRefill := 5\<rparr>)\<lparr>session_id := 5, life_state := Idle\<rparr>"
    "data_handler_alive w" "udp_endpoint_to_session w = [(?ep, 0)]"
    using udp_example by blast
  have "alive w 0" using w(1) by (simp add: find_session_by_nickname_def split: option.splits if_splits)
  then have h: "getSessionByEndpoint ?ep w = Some 0" by (simp add: getSessionByEndpoint_def w(5) um_find_def)
  have "udpTokens (heap (on_udp_packet example_context 5 0 [] False ''u'' ?ep w) 0) = udpTokens (heap w 0) - 2"
  proof (rule udp_packet_costs_two_tokens [OF example_fields(2,3) _ _ w(4) h w(1)])
    show "length ''u'' \<le> config_size example_context ''max_udp_packet_size'' 1024"
      by (simp add: config_size_def config_value_def size_t_of_int_def example_context_def)
    show "refill_amount (to_milliseconds (5 - lastUdpTokenRefill (heap w 0))) \<le> 0"
      using refill_none by (simp add: w(3))
    show "is_udp_token_valid 5 (heap w 0)"
      by (simp add: w(3) is_udp_token_valid_def session_new_def to_seconds_def trunc_quot_def)
    show "2 \<le> udpTokens (heap w 0)" by (simp add: w(3) session_new_def maxTokens_def)
  qed (simp_all add: w(3) no_shards_admit [OF w(2)])
  then show ?thesis by (intro exI [of _ w]) (simp add: w(3) session_new_def maxTokens_def)
qed

end
