(* ===== verification/Server.thy ===== *)
theory Server
  imports TcpHandlers Udp
begin

text \<open>
  The server as a whole: accepting connections (\<^verbatim>\<open>Server\<close>), the completion of a
  session's read (\<^verbatim>\<open>Session::do_read\<close>), the jobs of the strands, the messages of the DB
  middleware, and every timer, as the events an \<^verbatim>\<open>io_context\<close> thread can handle next.
  One event is handled at a time, on the strand its handler is bound to; jobs of a strand
  run in the order they were posted. An exception that leaves a handler ends the thread
  that ran it. The results are invariants of every reachable state, and what some inputs
  do to the server.
\<close>

section \<open>Definitions\<close>

subsection \<open>Accepting\<close>

text \<open>
  The completion of an accept: \<open>conn\<close> names the new socket. The counter is an
  \<^verbatim>\<open>atomic<int>\<close>.
\<close>

definition on_accept :: "app_context \<Rightarrow> time \<Rightarrow> bool \<Rightarrow> nat \<Rightarrow> world \<Rightarrow> world" where
  "on_accept c now ec conn w =
     (if ec then w
      else let sid = session_counter w;
               w1 = w\<lparr>session_counter := int32_wrap (sid + 1)\<rparr>;
               (r, p, h) = pool_acquire now conn sid (next_addr w1) (SessStrand (next_strand w1))
                             (SessStrand (next_strand w1 + 1)) (spool w1, heap w1);
               w2 = w1\<lparr>spool := p, heap := h, next_addr := next_addr w1 + 1, next_strand := next_strand w1 + 2\<rparr>
           in case r of
                Some a \<Rightarrow> session_start c now a (cleanup_unauth_sessions 100 (add_session a w2))
              | None \<Rightarrow> w2)"

subsection \<open>Reading from a client\<close>

datatype read_result = ReadOk string | ReadEof | ReadReset | ReadAborted | ReadFailed

text \<open>One message: whether the loop goes on, and the new state.\<close>

definition handle_message :: "app_context \<Rightarrow> nat \<Rightarrow> time \<Rightarrow> addr \<Rightarrow> string \<Rightarrow> world \<Rightarrow> bool \<times> world" where
  "handle_message c pid now a raw w =
     (case json_parse c raw of
        Inr msg \<Rightarrow> (True, dispatch c pid now a msg w)
      | Inl Parse_error \<Rightarrow> (True, post_write c a (error_line c ''Invalid JSON format'') w)
      | Inl _ \<Rightarrow> (False, close_session a w))"

text \<open>
  The loop over the messages. Nothing a message does touches the receive buffer \<open>b\<close>, which
  is carried along and stored at the end.
\<close>

function read_loop ::
  "app_context \<Rightarrow> nat \<Rightarrow> time \<Rightarrow> addr \<Rightarrow> msg_buffer \<Rightarrow> world \<Rightarrow> bool \<times> msg_buffer \<times> world" where
  "read_loop c pid now a b w =
     (case extract_message b of
        (None, b') \<Rightarrow> (True, b', w)
      | (Some raw, b') \<Rightarrow>
          (case handle_message c pid now a raw w of
             (True, w') \<Rightarrow> read_loop c pid now a b' w'
           | (False, w') \<Rightarrow> (False, b', w')))"
  by pat_completeness auto
termination
  by (relation "measure (\<lambda>(c, pid, now, a, b, w). length (buffer b))") (auto dest!: sym [THEN extract_shrinks])

declare read_loop.simps [simp del]

definition on_read :: "app_context \<Rightarrow> nat \<Rightarrow> time \<Rightarrow> addr \<Rightarrow> read_result \<Rightarrow> world \<Rightarrow> world" where
  "on_read c pid now a res w0 =
     (let w = upd a release_read w0; nick = nickname (heap w a); sid = session_id (heap w a) in
      case res of
        ReadOk data \<Rightarrow>
          let (go, b, w1) = read_loop c pid now a (mbm_append data (msg_buf_mgr (heap w a))) w;
              w2 = upd a (\<lambda>s. s\<lparr>msg_buf_mgr := b\<rparr>) w1
          in if \<not> go then w2
             else if last_clear_by_invalid_length b then close_session a w2
             else run_next_task a (do_read c a w2)
      | ReadEof \<Rightarrow> run_next_task a (close_session a (broadcast c (left_notice c nick) sid w))
      | ReadReset \<Rightarrow> run_next_task a (close_session a (if nick = [] then w else broadcast c (left_notice c nick) sid w))
      | ReadAborted \<Rightarrow> run_next_task a w
      | ReadFailed \<Rightarrow> run_next_task a (close_session a w))"

subsection \<open>Messages of the DB middleware\<close>

text \<open>
  One message of the client's read loop. An exception of the JSON path is caught and
  reported, one of the Protobuf path leaves the handler.
\<close>

definition db_message ::
  "app_context \<Rightarrow> (string \<Rightarrow> envelope option) \<Rightarrow> string \<Rightarrow> string \<Rightarrow> world \<Rightarrow> exn option \<times> world" where
  "db_message c parse_pb sec raw w =
     (let alarm = (\<lambda>w. w\<lparr>alerts := alerts w @ [''[ALERT][DBMW] Unexpected JSON exception: '']\<rparr>) in
      case decode_message c parse_pb sec raw of
        PbMsg env \<Rightarrow> router_handle_pb c env w
      | JsonMsg j \<Rightarrow>
          (case router_handle c j w of
             (None, w') \<Rightarrow> (None, w')
           | (Some Parse_error, w') \<Rightarrow> (None, w')
           | (Some _, w') \<Rightarrow> (None, alarm w'))
      | BadMsg Parse_error \<Rightarrow> (None, w)
      | BadMsg _ \<Rightarrow> (None, alarm w))"

function db_read_loop ::
  "app_context \<Rightarrow> (string \<Rightarrow> envelope option) \<Rightarrow> string \<Rightarrow> msg_buffer \<Rightarrow> world \<Rightarrow> exn option \<times> msg_buffer \<times> world" where
  "db_read_loop c parse_pb sec b w =
     (case extract_message b of
        (None, b') \<Rightarrow> (None, b', w)
      | (Some raw, b') \<Rightarrow>
          (case db_message c parse_pb sec raw w of
             (None, w') \<Rightarrow> db_read_loop c parse_pb sec b' w'
           | (Some e, w') \<Rightarrow> (Some e, b', w')))"
  by pat_completeness auto
termination
  by (relation "measure (\<lambda>(c, pb, sec, b, w). length (buffer b))") (auto dest!: sym [THEN extract_shrinks])

declare db_read_loop.simps [simp del]

definition on_db_read :: "app_context \<Rightarrow> (string \<Rightarrow> envelope option) \<Rightarrow> string \<Rightarrow> world \<Rightarrow> exn option \<times> world" where
  "on_db_read c parse_pb data w =
     (case client w of
        None \<Rightarrow> (None, w)
      | Some d \<Rightarrow>
          let w1 = upd_client (\<lambda>d. d\<lparr>reading := reading d - 1\<rparr>) w;
              (e, b, w2) = db_read_loop c parse_pb (secret d) (mbm_append data (client_buf d)) w1;
              w3 = upd_client (\<lambda>d. d\<lparr>client_buf := b\<rparr>) w2
          in case e of
               Some x \<Rightarrow> (Some x, w3)
             | None \<Rightarrow> (None, upd_client after_messages w3))"

subsection \<open>Jobs\<close>

definition zone_broadcast_job :: "int \<Rightarrow> string \<Rightarrow> string \<Rightarrow> world \<Rightarrow> world" where
  "zone_broadcast_job zid msg sender w =
     (case get_zone zid (zones w) of
        Some z \<Rightarrow> w\<lparr>udp_out := udp_out w @ zone_broadcast (heap w) (alive w) msg sender z\<rparr>
      | None \<Rightarrow> w)"

definition run_job :: "app_context \<Rightarrow> job \<Rightarrow> world \<Rightarrow> exn option \<times> world" where
  "run_job c j w =
     (case j of
        WriteJob a m \<Rightarrow> (None, write_job c a m w)
      | TaskJob a t \<Rightarrow> (None, task_job c a t w)
      | ZoneBroadcastJob zid msg sender \<Rightarrow> (None, zone_broadcast_job zid msg sender w)
      | UdpBroadcastJob msg sender \<Rightarrow> udp_broadcast_job c msg sender w
      | RouterRequestJob req_id req sec t maxr sid ok err \<Rightarrow> router_request_job c req_id req sec t maxr sid ok err w
      | RouterResponseJob req_id j ok \<Rightarrow> router_response c req_id j ok w
      | ClientFrameJob body \<Rightarrow> (None, upd_client (send_framed body) w)
      | ClientStopJob \<Rightarrow> (None, upd_client client_stop w)
      | ClientStartJob \<Rightarrow> (None, upd_client (client_start c) w))"

subsection \<open>Events\<close>

text \<open>
  What a thread of the \<^verbatim>\<open>io_context\<close> can handle next; numbers are positions in the lists
  of outstanding operations. \<open>UdpPacket\<close> has the hash of the thread and the draws of the
  random generator.
\<close>

datatype event =
    Accept bool nat
  | ReadDone nat read_result
  | WriteDone nat bool
  | RunJob nat
  | LoginTimer addr
  | KeepaliveTimer
  | CleanupTimer
  | UdpPacket nat "nat list" bool string endpoint
  | DbResolved bool
  | DbConnected bool
  | DbWritten bool string
  | DbRead string
  | DbReadError
  | DbReconnect
  | DbHeartbeat
  | DbRequestTimer bool string bool
  | RouterTimeout string
  | RouterRetry string
  | RouterMetrics
  | Shutdown

text \<open>One handler on its strand; an exception that leaves it costs the thread.\<close>

definition run_handler :: "strand_id option \<Rightarrow> (world \<Rightarrow> exn option \<times> world) \<Rightarrow> world \<Rightarrow> world" where
  "run_handler st f w =
     (case f (w\<lparr>cur_strand := st\<rparr>) of
        (None, w') \<Rightarrow> w'\<lparr>cur_strand := None\<rparr>
      | (Some _, w') \<Rightarrow> w'\<lparr>cur_strand := None, io_threads := io_threads w' - 1\<rparr>)"

definition quiet_handler :: "strand_id option \<Rightarrow> (world \<Rightarrow> world) \<Rightarrow> world \<Rightarrow> world" where
  "quiet_handler st f w = run_handler st (\<lambda>w. (None, f w)) w"

text \<open>A job may run when no earlier job waits on its strand.\<close>

definition job_ready :: "nat \<Rightarrow> world \<Rightarrow> bool" where
  "job_ready i w \<longleftrightarrow> i < length (posted w) \<and> fst (posted w ! i) \<notin> fst ` set (take i (posted w))"

definition drop_nth :: "nat \<Rightarrow> 'a list \<Rightarrow> 'a list" where
  "drop_nth i xs = take i xs @ drop (Suc i) xs"

definition client_has :: "(db_client \<Rightarrow> bool) \<Rightarrow> world \<Rightarrow> bool" where
  "client_has p w \<longleftrightarrow> (case client w of Some d \<Rightarrow> p d | None \<Rightarrow> False)"

definition router_has :: "(login_cb router \<Rightarrow> bool) \<Rightarrow> world \<Rightarrow> bool" where
  "router_has p w \<longleftrightarrow> (case router w of Some r \<Rightarrow> p r | None \<Rightarrow> False)"

text \<open>Whether an event can occur. Nothing calls \<^verbatim>\<open>start_metrics_timer\<close>.\<close>

definition enabled :: "time \<Rightarrow> event \<Rightarrow> world \<Rightarrow> bool" where
  "enabled now ev w \<longleftrightarrow> 0 < io_threads w \<and>
     (case ev of
        ReadDone i r \<Rightarrow> i < length (reads w) \<and> (case r of ReadOk d \<Rightarrow> d \<noteq> [] \<and> length d \<le> 2048 | _ \<Rightarrow> True)
      | WriteDone i ec \<Rightarrow> i < length (writes w)
      | RunJob i \<Rightarrow> job_ready i w
      | LoginTimer a \<Rightarrow> (case login_timer (heap w a) of Some t \<Rightarrow> t \<le> now | None \<Rightarrow> False)
      | UdpPacket tid draws ec d ep \<Rightarrow> length d \<le> 1024 \<and> length draws = 32
      | DbResolved ec \<Rightarrow> client_has (\<lambda>d. 0 < resolving d) w
      | DbConnected ec \<Rightarrow> client_has (\<lambda>d. 0 < connecting d) w
      | DbWritten ec data \<Rightarrow> client_has (\<lambda>d. data \<in> set (writing d)) w
      | DbRead data \<Rightarrow> client_has (\<lambda>d. 0 < reading d) w \<and> data \<noteq> [] \<and> length data \<le> 4096
      | DbReadError \<Rightarrow> client_has (\<lambda>d. 0 < reading d) w
      | DbReconnect \<Rightarrow> client_has (\<lambda>d. reconnect_wait d \<noteq> None) w
      | DbHeartbeat \<Rightarrow> client_has heartbeat_wait w
      | DbRequestTimer ec i al \<Rightarrow> client_has (\<lambda>d. (i, al) \<in> set (timer_waits d)) w
      | RouterTimeout i \<Rightarrow> router_has (\<lambda>r. i \<in> set (timers r)) w
      | RouterRetry i \<Rightarrow> router_has (\<lambda>r. i \<in> set (retry_timers r)) w
      | RouterMetrics \<Rightarrow> False
      | _ \<Rightarrow> True)"

text \<open>
  Handling one event. The timer of a retransmission runs on no strand, as does everything
  of the acceptor, of the UDP socket and of the periodic timers.
\<close>

definition handle_event ::
  "app_context \<Rightarrow> (string \<Rightarrow> envelope option) \<Rightarrow> nat \<Rightarrow> time \<Rightarrow> event \<Rightarrow> world \<Rightarrow> world" where
  "handle_event c parse_pb pid now ev w =
     (case ev of
        Accept ec conn \<Rightarrow> quiet_handler None (on_accept c now ec conn) w
      | ReadDone i r \<Rightarrow>
          (case reads w ! i of (a, st) \<Rightarrow>
             quiet_handler (Some st) (on_read c pid now a r) (w\<lparr>reads := drop_nth i (reads w)\<rparr>))
      | WriteDone i ec \<Rightarrow>
          (case writes w ! i of (a, st, g, m) \<Rightarrow>
             quiet_handler (Some st) (on_write_complete ec a g) (w\<lparr>writes := drop_nth i (writes w)\<rparr>))
      | RunJob i \<Rightarrow>
          (case posted w ! i of (st, j) \<Rightarrow>
             run_handler (Some st) (run_job c j) (w\<lparr>posted := drop_nth i (posted w)\<rparr>))
      | LoginTimer a \<Rightarrow> quiet_handler (Some (strand (heap w a))) (on_login_timer c a) w
      | KeepaliveTimer \<Rightarrow> quiet_handler None (on_keepalive_timer now) w
      | CleanupTimer \<Rightarrow> quiet_handler None (on_cleanup_timer now) w
      | UdpPacket tid draws ec d ep \<Rightarrow> quiet_handler None (on_udp_packet c now tid draws ec d ep) w
      | DbResolved ec \<Rightarrow> quiet_handler (Some ClientStrand) (upd_client (on_resolve ec)) w
      | DbConnected ec \<Rightarrow> quiet_handler (Some ClientStrand) (upd_client (on_connect c ec)) w
      | DbWritten ec data \<Rightarrow> quiet_handler (Some ClientStrand) (upd_client (on_write_done ec data)) w
      | DbRead data \<Rightarrow> run_handler (Some ClientStrand) (on_db_read c parse_pb data) w
      | DbReadError \<Rightarrow> quiet_handler (Some ClientStrand) (upd_client on_read_error) w
      | DbReconnect \<Rightarrow> quiet_handler (Some ClientStrand) (upd_client (on_reconnect_timer c)) w
      | DbHeartbeat \<Rightarrow> quiet_handler (Some ClientStrand) (upd_client (on_heartbeat_timer c)) w
      | DbRequestTimer ec i al \<Rightarrow> quiet_handler (Some ClientStrand) (upd_client (on_request_timer ec i al)) w
      | RouterTimeout i \<Rightarrow> run_handler (Some RouterStrand) (router_timeout c i) w
      | RouterRetry i \<Rightarrow> run_handler None (router_retry c i) w
      | RouterMetrics \<Rightarrow> run_handler None (router_metrics_timer c) w
      | Shutdown \<Rightarrow> (quiet_handler None (\<lambda>w. dispatch_job ClientStrand ClientStopJob (upd_client client_stop) w) w)\<lparr>io_threads := 0\<rparr>)"

inductive server_step :: "app_context \<Rightarrow> (string \<Rightarrow> envelope option) \<Rightarrow> nat \<Rightarrow> world \<Rightarrow> world \<Rightarrow> bool"
  for c parse_pb pid where
  event: "enabled now ev w \<Longrightarrow> server_step c parse_pb pid w (handle_event c parse_pb pid now ev w)"

inductive_cases server_stepE: "server_step c parse_pb pid w w'"

text \<open>The state after start-up, with settings that allow a queue of at least one message.\<close>

definition server_start :: "app_context \<Rightarrow> world \<Rightarrow> bool" where
  "server_start c w \<longleftrightarrow> 0 < config_size c ''max_write_queue_size'' 100
     \<and> (\<exists>now hw sec. server_new c now hw sec = Some w)"

definition server_inv :: "app_context \<Rightarrow> world \<Rightarrow> bool" where
  "server_inv c w \<longleftrightarrow> world_ok c w \<and> cur_strand w = None"

section \<open>Lemmas\<close>

subsection \<open>Every handler keeps the invariant\<close>

lemma pool_acquire_fits:
  assumes "pool_fits c p n" "\<And>b. session_ok c (h b)"
  shows "pool_fits c (fst (snd (pool_acquire now conn sid n st0 st (p, h)))) (Suc n)"
    and "session_ok c (snd (snd (pool_acquire now conn sid n st0 st (p, h))) b)"
  using assms
  by (auto simp: pool_acquire_def pool_fits_def less_Suc_eq session_ok_new Let_def split: list.split)

lemma on_accept_ok:
  assumes "world_ok c w"
  shows "world_ok c (on_accept c now ec conn w)"
proof -
  obtain r p h where acq: "pool_acquire now conn (session_counter w) (next_addr w) (SessStrand (next_strand w))
      (SessStrand (next_strand w + 1)) (spool w, heap w) = (r, p, h)" by (metis prod_cases3)
  define w2 where "w2 = w\<lparr>session_counter := int32_wrap (session_counter w + 1), spool := p, heap := h,
      next_addr := next_addr w + 1, next_strand := next_strand w + 2\<rparr>"
  have "pool_fits c p (Suc (next_addr w))" "session_ok c (h b)" for b
    using pool_acquire_fits [of c "spool w" "next_addr w" "heap w" now conn "session_counter w"
        "SessStrand (next_strand w)" "SessStrand (next_strand w + 1)"] assms
    by (simp_all only: acq world_ok_def fst_conv snd_conv simp_thms)
  then have "world_ok c w2" using assms by (simp add: w2_def world_ok_def)
  moreover have "on_accept c now ec conn w = (if ec then w else
      case r of Some a \<Rightarrow> session_start c now a (cleanup_unauth_sessions 100 (add_session a w2)) | None \<Rightarrow> w2)"
    using acq by (cases r) (simp_all add: on_accept_def w2_def Let_def)
  ultimately show ?thesis using assms
    by (auto split: option.split intro: session_start_ok cleanup_unauth_sessions_ok add_session_ok)
qed

lemma handle_message_ok: "world_ok c w \<Longrightarrow> world_ok c (snd (handle_message c pid now a raw w))"
  by (simp add: handle_message_def dispatch_ok world_ok_intros split: sum.split exn.split)

lemma read_loop_ok: "world_ok c w \<Longrightarrow> world_ok c (snd (snd (read_loop c pid now a b w)))"
proof (induction c pid now a b w rule: read_loop.induct)
  case (1 c pid now a b w)
  then show ?case
    using handle_message_ok [OF 1(2), of pid now a]
    by (subst read_loop.simps) (auto split: prod.split option.split bool.split; metis snd_conv)
qed

lemma world_ok_buffer: "world_ok c w \<Longrightarrow> world_ok c (upd a (\<lambda>s. s\<lparr>msg_buf_mgr := b\<rparr>) w)"
  by (rule world_ok_upd_all) (simp_all add: session_ok_def)

lemma on_read_ok:
  assumes "world_ok c w"
  shows "world_ok c (on_read c pid now a res w)"
proof -
  have w: "world_ok c (upd a release_read w)" using assms by (intro world_ok_upd_all) auto
  have "world_ok c (upd a (\<lambda>s. s\<lparr>msg_buf_mgr := b'\<rparr>) (snd (snd (read_loop c pid now a b (upd a release_read w)))))" for b b'
    by (intro world_ok_buffer read_loop_ok w)
  then show ?thesis using w
    by (auto simp: on_read_def split_beta Let_def split: read_result.split intro!: world_ok_intros broadcast_ok)
qed

lemma db_message_ok: "world_ok c w \<Longrightarrow> world_ok c (snd (db_message c parse_pb sec raw w))"
  using router_handle_ok [of c w] router_handle_pb_ok [of c w]
  by (auto simp: db_message_def Let_def world_ok_alerts split: client_msg.split prod.split option.split exn.split)
     (metis snd_conv world_ok_alerts)+

lemma db_read_loop_ok: "world_ok c w \<Longrightarrow> world_ok c (snd (snd (db_read_loop c parse_pb sec b w)))"
proof (induction c parse_pb sec b w rule: db_read_loop.induct)
  case (1 c parse_pb sec b w)
  then show ?case
    using db_message_ok [OF 1(2), of parse_pb sec]
    by (subst db_read_loop.simps) (auto split: prod.split option.split; metis snd_conv)
qed

lemma on_db_read_ok: "world_ok c w \<Longrightarrow> world_ok c (snd (on_db_read c parse_pb data w))"
  by (simp add: on_db_read_def split_beta Let_def upd_client_ok db_read_loop_ok split: option.split)

lemma run_job_ok: "world_ok c w \<Longrightarrow> world_ok c (snd (run_job c j w))"
  by (auto simp: run_job_def zone_broadcast_job_def udp_broadcast_job_def router_request_job_def router_response_def
      split: job.split option.split
      intro: world_ok_intros udp_broadcast_to_ok router_job_ok upd_client_ok world_ok_cong)

lemma run_handler_inv:
  assumes "\<And>w. world_ok c w \<Longrightarrow> world_ok c (snd (f w))" "world_ok c w"
  shows "server_inv c (run_handler st f w)"
proof -
  have "world_ok c (w\<lparr>cur_strand := st\<rparr>)" using assms(2) by (rule world_ok_cong) simp_all
  then have "world_ok c (snd (f (w\<lparr>cur_strand := st\<rparr>)))" by (rule assms(1))
  then show ?thesis
    by (auto simp: run_handler_def server_inv_def split: prod.split option.split intro: world_ok_cong)
qed

lemma quiet_handler_inv:
  "(\<And>w. world_ok c w \<Longrightarrow> world_ok c (f w)) \<Longrightarrow> world_ok c w \<Longrightarrow> server_inv c (quiet_handler st f w)"
  unfolding quiet_handler_def by (rule run_handler_inv) simp_all

lemma world_ok_lists:
  "world_ok c w \<Longrightarrow> world_ok c (w\<lparr>reads := rs\<rparr>)" "world_ok c w \<Longrightarrow> world_ok c (w\<lparr>writes := ws\<rparr>)"
  "world_ok c w \<Longrightarrow> world_ok c (w\<lparr>posted := js\<rparr>)"
  by (auto intro: world_ok_cong)

lemma handle_event_inv:
  assumes "server_inv c w"
  shows "server_inv c (handle_event c parse_pb pid now ev w)"
proof -
  have w: "world_ok c w" using assms by (simp add: server_inv_def)
  have down: "server_inv c (u\<lparr>io_threads := 0\<rparr>)" if "server_inv c u" for u
    using that by (auto simp: server_inv_def intro: world_ok_cong)
  show ?thesis
    by (cases ev)
       (auto simp: handle_event_def router_timeout_def router_retry_def router_metrics_timer_def split: prod.split
         intro!: run_handler_inv quiet_handler_inv down w world_ok_lists on_accept_ok on_read_ok on_write_complete_ok
           run_job_ok on_login_timer_ok on_keepalive_timer_ok on_cleanup_timer_ok on_udp_packet_ok upd_client_ok
           on_db_read_ok router_job_ok dispatch_job_ok)
qed

lemma server_start_inv: "server_start c w \<Longrightarrow> server_inv c w"
  by (auto simp: server_start_def server_inv_def intro: server_new_ok)
     (auto simp: server_new_def split_beta Let_def split: if_splits)

interpretation server_sys: transition_system "server_start c" "server_step c parse_pb pid" "server_inv c"
  by unfold_locales (auto intro: server_start_inv handle_event_inv elim!: server_stepE)

subsection \<open>Threads\<close>

lemma no_thread_no_step: "io_threads w = 0 \<Longrightarrow> \<not> server_step c parse_pb pid w w'"
  by (auto simp: enabled_def elim!: server_stepE)

lemma run_handler_raises:
  "f (w\<lparr>cur_strand := st\<rparr>) = (Some e, w') \<Longrightarrow>
   run_handler st f w = w'\<lparr>cur_strand := None, io_threads := io_threads w' - 1\<rparr>"
  by (simp add: run_handler_def)

text \<open>A broadcast text that cannot be relayed raises as soon as one session would receive it.\<close>

lemma udp_broadcast_to_raises:
  assumes "b \<in> set bs" "nickname (heap w b) \<noteq> []" "nickname (heap w b) \<noteq> sender" "udp_endpoint (heap w b) \<noteq> None"
    and "broadcast_datagram c msg = Inl e"
  shows "udp_broadcast_to c msg sender bs w = (Some e, w)"
  using assms by (induction bs) (auto split: option.split)

section \<open>Properties\<close>

text \<open>
  C2: Bounded resources. In every state the running server can reach, whatever clients,
  UDP senders and the middleware send, every queue of a session is within its configured
  limit, every token bucket is between empty and full, every zone has at most its capacity
  with no session listed twice, no endpoint is bound twice, the session table is
  consistent, and the pool never has more sessions than its initial or its maximal size.
\<close>

theorem server_resources_bounded:
  assumes "reach (server_start c) (server_step c parse_pb pid) w"
  shows "length (write_queue (heap w a)) \<le> config_size c ''max_write_queue_size'' 100
    \<and> length (task_queue (heap w a)) \<le> config_size c ''max_task_queue'' 1000
    \<and> 0 \<le> udpTokens (heap w a) \<and> udpTokens (heap w a) \<le> maxTokens
    \<and> (\<forall>i z. um_find (zones w) i = Some z \<longrightarrow> length (sessions z) \<le> max_sessions z \<and> um_ok (sessions z))
    \<and> um_ok (udp_endpoint_to_session w) \<and> manager_ok (smgr w)
    \<and> distinct (pool (spool w)) \<and> set (reusable_indices (spool w)) \<subseteq> {..<length (pool (spool w))}
    \<and> length (pool (spool w)) \<le> max (config_size c ''session_pool_size'' 1024) (config_size c ''max_session_pool_size'' 10000)"
proof -
  have w: "world_ok c w" using server_sys.reach_inv [OF assms] by (simp add: server_inv_def)
  then have "length (sessions z) \<le> max_sessions z \<and> um_ok (sessions z)" if "um_find (zones w) i = Some z" for i z
    using that by (auto simp: world_ok_def zones_ok_def zone_ok_def dest!: um_find_in_set)
  moreover have "pool_fits c (spool w) (next_addr w)" "session_ok c (heap w a)" "um_ok (udp_endpoint_to_session w)" "manager_ok (smgr w)"
    using w by (simp_all add: world_ok_def)
  ultimately show ?thesis by (auto simp: session_ok_def pool_fits_def)
qed

theorem server_resources_bounded_witness:
  "\<exists>w. reach (server_start example_context) (server_step example_context (\<lambda>_. None) 0) w
     \<and> length (write_queue (heap w 0)) \<le> 100"
proof -
  obtain w where "server_new example_context 0 2 ''key'' = Some w"
    by (simp add: server_new_def split_beta Let_def)
  then have r: "reach (server_start example_context) (server_step example_context (\<lambda>_. None) 0) w"
    by (intro reach_start) (auto simp: server_start_def config_size_def config_value_def size_t_of_int_def example_context_def)
  have "config_size example_context ''max_write_queue_size'' 100 = 100"
    by (simp add: config_size_def config_value_def size_t_of_int_def example_context_def)
  with server_resources_bounded [OF r, of 0] r show ?thesis by metis
qed

text \<open>
  C38: A malformed answer costs a thread. When the middleware answers a login request with
  a \<open>code\<close> that is no number, the callback raises outside any handler: the request is
  settled, the session is neither logged in nor told, and one thread of the server is gone;
  when it was the last one, the server does nothing any more.
\<close>

theorem malformed_answer_ends_thread:
  assumes "router w = Some r" "um_find (pending r) i = Some p" "use_callbacks p" "on_ok p = Some (OnUserInfoOk a nick)"
    and "value_int j ''code'' (-1) = Inl e" "cur_strand w = None"
    and "job_ready k w" "posted w ! k = (RouterStrand, RouterResponseJob i j True)"
    and "w' = handle_event c parse_pb pid now (RunJob k) w"
  shows "heap w' = heap w \<and> smgr w' = smgr w \<and> posted w' = drop_nth k (posted w)
    \<and> (\<forall>r'. router w' = Some r' \<longrightarrow> um_find (pending r') i = None)
    \<and> io_threads w' = io_threads w - 1
    \<and> (io_threads w = 1 \<longrightarrow> \<not> server_step c parse_pb pid w' w'')"
proof -
  define r' where "r' = fst (fulfill_and_erase_locked i j True r)"
  have resp: "on_response i j True r = (r', [SetPromise i j, Call (OnUserInfoOk a nick) j])"
    using assms(2-4) by (simp add: on_response_def r'_def fulfill_and_erase_locked_def Let_def)
  have gone: "um_find (pending r') i = None"
    using assms(2) by (simp add: r'_def fulfill_and_erase_locked_def Let_def um_find_erase)
  have "run_job c (RouterResponseJob i j True) (w\<lparr>posted := drop_nth k (posted w), cur_strand := Some RouterStrand\<rparr>) =
      (Some e, w\<lparr>posted := drop_nth k (posted w), cur_strand := Some RouterStrand, router := Some r'\<rparr>)"
    using assms(1,5) by (simp add: run_job_def router_response_def router_job_def resp run_effect_def run_login_cb_def on_user_info_ok_def)
  then have "w' = w\<lparr>posted := drop_nth k (posted w), router := Some r', io_threads := io_threads w - 1\<rparr>"
    using assms(6,8,9) by (simp add: handle_event_def run_handler_raises)
  with gone show ?thesis by (simp add: no_thread_no_step)
qed

theorem malformed_answer_ends_thread_witness:
  "\<exists>w c. io_threads w = 1 \<and> io_threads (handle_event c (\<lambda>_. None) 0 0 (RunJob 0) w) = 0"
proof -
  define p where "p = \<lparr>request_json = JNull, secure = True, retries = 0, max_retries = 2, timeout_ms = 2500, request_session = 5,
      on_ok = Some (OnUserInfoOk 0 ''bob''), on_error = Some (OnUserInfoError 0 ''bob''), use_callbacks = True\<rparr>"
  define r where "r = router_new\<lparr>pending := [(''q'', p)]\<rparr>"
  define j where "j = jobj [(''code'', JStr ''zero'')]"
  obtain w0 where "server_new example_context 0 1 ''key'' = Some w0" by (simp add: server_new_def split_beta Let_def)
  then have w0: "cur_strand w0 = None" "io_threads w0 = 1" by (auto simp: server_new_def split_beta Let_def)
  define w where "w = w0\<lparr>router := Some r, posted := [(RouterStrand, RouterResponseJob ''q'' j True)]\<rparr>"
  have h: "router w = Some r" "um_find (pending r) ''q'' = Some p" "use_callbacks p" "on_ok p = Some (OnUserInfoOk 0 ''bob'')"
    "value_int j ''code'' (-1) = Inl Type_error" "cur_strand w = None" "job_ready 0 w"
    "posted w ! 0 = (RouterStrand, RouterResponseJob ''q'' j True)" "io_threads w = 1"
    using w0 by (simp_all add: w_def r_def p_def j_def jobj_def job_ready_def um_find_def)
  from malformed_answer_ends_thread [OF h(1-8) refl, of example_context "\<lambda>_. None" 0 0 undefined] h(9)
  show ?thesis by (intro exI [of _ w] exI [of _ example_context]) simp
qed

text \<open>
  C37: A client can cost the server a thread. A registered UDP client that broadcasts a
  message whose \<open>msg\<close> is no string passes every check; the packet is accepted, and the job
  that relays it raises outside any handler as soon as one other logged-in session has a
  UDP endpoint. The thread that runs it is gone.
\<close>

theorem udp_broadcast_ends_thread:
  assumes "packet_fields c raw msg nick ''broadcast_udp'' token" "value_string msg ''msg'' [] = Inl e"
    and "json_parse c (json_dump c msg) = Inr msg"
    and "raw \<noteq> []" "length raw \<le> config_size c ''max_udp_packet_size'' 1024" "data_handler_alive w"
    and "getSessionByEndpoint from w = Some a"
    and "find_session_by_nickname (alive w) (smgr w) nick = Some a" "nickname (heap w a) = nick"
    and "token \<noteq> []" "udp_token (heap w a) = token" "is_udp_token_valid now (heap w a)" "udp_endpoint (heap w a) = Some from"
    and "2 \<le> udpTokens (heap w a)" "admitted c now tid w"
    and "b \<in> set (all_sessions (smgr w))" "nickname (heap w b) \<noteq> []" "nickname (heap w b) \<noteq> nick" "udp_endpoint (heap w b) \<noteq> None"
    and "posted w = []"
    and "w1 = handle_event c parse_pb pid now (UdpPacket tid draws False raw from) w"
  shows "posted w1 = [(UdpSendStrand, UdpBroadcastJob (json_dump c msg) nick)] \<and> io_threads w1 = io_threads w
    \<and> io_threads (handle_event c parse_pb pid later (RunJob 0) w1) = io_threads w - 1"
proof -
  obtain s1 where s1: "checkUdpRateLimit now (heap w a) = (True, s1)"
    using bucket_pays(1) [of "heap w a" now] assms(14) by (metis (full_types) dual_order.trans one_le_numeral prod.collapse)
  obtain s2 where s2: "checkUdpRateLimit now s1 = (True, s2)"
    using bucket_pays(1) [of s1 now] bucket_pays(2) [OF assms(14), of now] s1 by (metis (full_types) prod.collapse snd_conv)
  have ty: "value_string msg ''type'' [] = Inr ''broadcast_udp''" "value_string msg ''nickname'' [] = Inr nick"
    using assms(1) unfolding packet_fields_def by auto
  define u where "u = w\<lparr>cur_strand := None\<rparr>"
  have al: "alive u = alive w" "getSessionByEndpoint from u = getSessionByEndpoint from w"
    by (auto simp: u_def alive_def getSessionByEndpoint_def fun_eq_iff split: option.split)
  have u: "on_udp_packet c now tid draws False raw from u =
      udp_accept c now draws a ''broadcast_udp'' msg from (counted c now tid (upd a (\<lambda>_. s1) u))"
    by (rule on_udp_packet_accepted [OF assms(1)])
       (use assms(4-8,10-13,15) s1 in \<open>simp_all add: al, simp_all add: u_def admitted_def\<close>)
  have ab: "b \<noteq> a" using assms(9,18) by auto
  have w1: "w1 = (on_udp_packet c now tid draws False raw from u)\<lparr>cur_strand := None\<rparr>"
    by (simp add: assms(21) handle_event_def quiet_handler_def run_handler_def u_def)
  have p: "posted w1 = [(UdpSendStrand, UdpBroadcastJob (json_dump c msg) nick)]" "io_threads w1 = io_threads w"
    "smgr w1 = smgr w" "heap w1 b = heap w b"
    using s2 ty ab assms(20) unfolding w1 u
    by (simp_all add: udp_accept_def dispatch_udp_parsed_def udp_handlers_def Udpbroadcast_handler_def udp_broadcast_def
         post_job_def update_udp_alive_time_def u_def Let_def)
  have "broadcast_datagram c (json_dump c msg) = Inl e"
    using assms(2,3) ty by (simp add: broadcast_datagram_def)
  then have "udp_broadcast_to c (json_dump c msg) nick (all_sessions (smgr w)) v = (Some e, v)" if "heap v b = heap w b" for v
    using udp_broadcast_to_raises [OF assms(16), of v] assms(17-19) that by simp
  with p show ?thesis
    by (simp add: handle_event_def run_handler_def run_job_def udp_broadcast_job_def)
qed

theorem udp_broadcast_ends_thread_witness:
  "\<exists>c w. io_threads w = 2 \<and> io_threads (handle_event c (\<lambda>_. None) 0 6 (RunJob 0)
     (handle_event c (\<lambda>_. None) 0 5 (UdpPacket 0 [] False ''b'' (''10.0.0.1'', 4000)) w)) = 1"
proof -
  let ?ep = "(''10.0.0.1'', 4000) :: endpoint"
  define m where "m = jobj [(''type'', JStr ''broadcast_udp''), (''nickname'', JStr ''bob''), (''token'', JStr ''7''), (''msg'', JInt 1)]"
  define c where "c = example_context\<lparr>json_parse := \<lambda>_. Inr m\<rparr>"
  obtain w0 where w0: "filed_ok w0" "find_session (smgr w0) 5 = Some 0" "find_session (smgr w0) 6 = Some 1"
    using filed_ok_example2 by blast
  define w where "w = (upd 1 (\<lambda>s. s\<lparr>nickname := ''eve'', udp_endpoint := Some (''10.0.0.2'', 4000)\<rparr>)
      (upd 0 (\<lambda>s. s\<lparr>nickname := ''bob'', udp_token := ''7'', udp_token_issued := 5, udp_token_ttl_sec := 300,
         udp_endpoint := Some ?ep, udpTokens := 2\<rparr>) w0))\<lparr>smgr := set_nickname_owner ''bob'' 0 (smgr w0),
      udp_endpoint_to_session := [(?ep, 0)], udp_global_limiter := new_limiter 0, posted := [], io_threads := 2\<rparr>"
  have "alive w0 0" by (rule filed_alive [OF w0(1,2)])
  then have al: "alive w 0" by (simp add: w_def alive_def)
  have "manager_ok (smgr w0)" using w0(1) by (simp add: filed_ok_def)
  from all_sessions_iff [OF this, of 1] w0(3) have one: "1 \<in> set (all_sessions (smgr w))"
    by (auto simp: w_def set_nickname_owner_def all_sessions_def)
  have "io_threads (handle_event c (\<lambda>_. None) 0 6 (RunJob 0)
      (handle_event c (\<lambda>_. None) 0 5 (UdpPacket 0 [] False ''b'' ?ep) w)) = io_threads w - 1"
  proof (rule udp_broadcast_ends_thread [where b = 1 and a = 0 and msg = m and nick = "''bob''" and token = "''7''" and raw = "''b''"
        and ?from = ?ep and tid = 0 and draws = "[]" and now = 5 and e = Type_error and w = w, THEN conjunct2, THEN conjunct2])
    show "packet_fields c ''b'' m ''bob'' ''broadcast_udp'' ''7''" by (simp add: packet_fields_def c_def m_def jobj_def)
    show "length ''b'' \<le> config_size c ''max_udp_packet_size'' 1024"
      by (simp add: config_size_def config_value_def size_t_of_int_def c_def example_context_def)
    show "getSessionByEndpoint ?ep w = Some 0" using al by (simp add: getSessionByEndpoint_def w_def um_find_def)
    show "find_session_by_nickname (alive w) (smgr w) ''bob'' = Some 0"
      using al by (simp add: find_session_by_nickname_def w_def set_nickname_owner_def um_find_put)
    show "is_udp_token_valid 5 (heap w 0)" by (simp add: w_def is_udp_token_valid_def to_seconds_def trunc_quot_def)
    show "admitted c 5 0 w" by (simp add: no_shards_admit w_def new_limiter_def)
    show "data_handler_alive w" using w0(1) by (simp add: filed_ok_def w_def)
  qed (fact one | simp add: w_def c_def m_def jobj_def)+
  then show ?thesis by (intro exI [of _ c] exI [of _ w]) (simp add: w_def)
qed

end
