(* ===== verification/JsonLexer.thy ===== *)
theory JsonLexer
  imports Json DoubleArith
begin

unbundle bit_operations_syntax

text \<open>
  The scanner of \<^verbatim>\<open>json.hpp\<close> (class \<^verbatim>\<open>lexer\<close>), through which every message of a
  client and of the DB middleware enters the server: string literals with their escapes
  and the check of their UTF-8 bytes, the state machine of number literals with the
  conversions of the C library, literals, white space and the byte order mark. Input is
  the list of the bytes not yet read; \<^verbatim>\<open>get()\<close> takes the first one and
  \<^verbatim>\<open>unget()\<close> puts it back. The messages of errors and the position counters, which
  only the text of an exception shows, are left out, as are comments
  (\<^verbatim>\<open>ignore_comments\<close> is false in every call of the server).
\<close>

section \<open>Definitions\<close>

type_synonym bytes = "nat list"

definition bytes_of :: "string \<Rightarrow> bytes" where
  "bytes_of s = map of_char s"

subsection \<open>Tokens\<close>

text \<open>
  \<^verbatim>\<open>token_type\<close> with the value the lexer keeps beside it. The value of a float literal
  is its sign and the double, \<open>None\<close> for \<^verbatim>\<open>HUGE_VAL\<close>.
\<close>

datatype token =
    Literal_true
  | Literal_false
  | Literal_null
  | Value_string bytes
  | Value_unsigned nat
  | Value_integer int
  | Value_float bool "double option"
  | Begin_array
  | Begin_object
  | End_array
  | End_object
  | Name_separator
  | Value_separator
  | Token_error
  | End_of_input

subsection \<open>String literals\<close>

definition hex_digit :: "nat \<Rightarrow> nat option" where
  "hex_digit c =
     (if 0x30 \<le> c \<and> c \<le> 0x39 then Some (c - 0x30)
      else if 0x41 \<le> c \<and> c \<le> 0x46 then Some (c - 0x37)
      else if 0x61 \<le> c \<and> c \<le> 0x66 then Some (c - 0x57)
      else None)"

fun codepoint_loop :: "nat list \<Rightarrow> nat \<Rightarrow> bytes \<Rightarrow> (nat \<times> bytes) option" where
  "codepoint_loop [] codepoint inp = Some (codepoint, inp)"
| "codepoint_loop (factor # factors) codepoint [] = None"
| "codepoint_loop (factor # factors) codepoint (c # inp) =
     (case hex_digit c of
        None \<Rightarrow> None
      | Some d \<Rightarrow> codepoint_loop factors (codepoint + push_bit factor d) inp)"

definition get_codepoint :: "bytes \<Rightarrow> (nat \<times> bytes) option" where
  "get_codepoint inp = codepoint_loop [12, 8, 4, 0] 0 inp"

text \<open>The bytes added to the token buffer for one code point.\<close>

definition codepoint_bytes :: "nat \<Rightarrow> bytes" where
  "codepoint_bytes cp =
     (if cp < 0x80 then [cp]
      else if cp \<le> 0x7FF then [0xC0 OR drop_bit 6 cp, 0x80 OR (cp AND 0x3F)]
      else if cp \<le> 0xFFFF
      then [0xE0 OR drop_bit 12 cp, 0x80 OR (drop_bit 6 cp AND 0x3F), 0x80 OR (cp AND 0x3F)]
      else [0xF0 OR drop_bit 18 cp, 0x80 OR (drop_bit 12 cp AND 0x3F),
            0x80 OR (drop_bit 6 cp AND 0x3F), 0x80 OR (cp AND 0x3F)])"

text \<open>
  \<^verbatim>\<open>next_byte_in_range\<close>: the bytes read after the current one, if each lies in its range.
\<close>

fun next_byte_in_range :: "(nat \<times> nat) list \<Rightarrow> bytes \<Rightarrow> (bytes \<times> bytes) option" where
  "next_byte_in_range [] inp = Some ([], inp)"
| "next_byte_in_range ((lo, hi) # ranges) [] = None"
| "next_byte_in_range ((lo, hi) # ranges) (c # inp) =
     (if lo \<le> c \<and> c \<le> hi
      then (case next_byte_in_range ranges inp of
              None \<Rightarrow> None
            | Some (added, rest) \<Rightarrow> Some (c # added, rest))
      else None)"

text \<open>The ranges that may follow a lead byte, from the cases of \<^verbatim>\<open>scan_string\<close>.\<close>

definition utf8_ranges :: "nat \<Rightarrow> (nat \<times> nat) list option" where
  "utf8_ranges c =
     (if 0xC2 \<le> c \<and> c \<le> 0xDF then Some [(0x80, 0xBF)]
      else if c = 0xE0 then Some [(0xA0, 0xBF), (0x80, 0xBF)]
      else if 0xE1 \<le> c \<and> c \<le> 0xEC \<or> c = 0xEE \<or> c = 0xEF then Some [(0x80, 0xBF), (0x80, 0xBF)]
      else if c = 0xED then Some [(0x80, 0x9F), (0x80, 0xBF)]
      else if c = 0xF0 then Some [(0x90, 0xBF), (0x80, 0xBF), (0x80, 0xBF)]
      else if 0xF1 \<le> c \<and> c \<le> 0xF3 then Some [(0x80, 0xBF), (0x80, 0xBF), (0x80, 0xBF)]
      else if c = 0xF4 then Some [(0x80, 0x8F), (0x80, 0xBF), (0x80, 0xBF)]
      else None)"

text \<open>
  One round of the loop of \<^verbatim>\<open>scan_string\<close>: the closing quote, the bytes added to the
  token buffer, or an error.
\<close>

datatype string_step = Closing_quote bytes | Added bytes bytes | String_error

definition scan_unicode :: "bytes \<Rightarrow> string_step" where
  "scan_unicode inp =
     (case get_codepoint inp of
        None \<Rightarrow> String_error
      | Some (codepoint1, inp1) \<Rightarrow>
          if 0xD800 \<le> codepoint1 \<and> codepoint1 \<le> 0xDBFF then
            (case inp1 of
               c1 # c2 # inp2 \<Rightarrow>
                 if c1 = 0x5C \<and> c2 = 0x75 then
                   (case get_codepoint inp2 of
                      None \<Rightarrow> String_error
                    | Some (codepoint2, inp3) \<Rightarrow>
                        if 0xDC00 \<le> codepoint2 \<and> codepoint2 \<le> 0xDFFF
                        then Added (codepoint_bytes (push_bit 10 codepoint1 + codepoint2 - 0x35FDC00)) inp3
                        else String_error)
                 else String_error
             | _ \<Rightarrow> String_error)
          else if 0xDC00 \<le> codepoint1 \<and> codepoint1 \<le> 0xDFFF then String_error
          else Added (codepoint_bytes codepoint1) inp1)"

definition scan_escape :: "bytes \<Rightarrow> string_step" where
  "scan_escape inp =
     (case inp of
        [] \<Rightarrow> String_error
      | c # rest \<Rightarrow>
          if c = 0x22 then Added [0x22] rest
          else if c = 0x5C then Added [0x5C] rest
          else if c = 0x2F then Added [0x2F] rest
          else if c = 0x62 then Added [0x08] rest
          else if c = 0x66 then Added [0x0C] rest
          else if c = 0x6E then Added [0x0A] rest
          else if c = 0x72 then Added [0x0D] rest
          else if c = 0x74 then Added [0x09] rest
          else if c = 0x75 then scan_unicode rest
          else String_error)"

definition scan_string_char :: "bytes \<Rightarrow> string_step" where
  "scan_string_char inp =
     (case inp of
        [] \<Rightarrow> String_error
      | c # rest \<Rightarrow>
          if c = 0x22 then Closing_quote rest
          else if c = 0x5C then scan_escape rest
          else if c \<le> 0x1F then String_error
          else if c \<le> 0x7F then Added [c] rest
          else (case utf8_ranges c of
                  None \<Rightarrow> String_error
                | Some ranges \<Rightarrow>
                    (case next_byte_in_range ranges rest of
                       None \<Rightarrow> String_error
                     | Some (added, rest') \<Rightarrow> Added (c # added) rest')))"

lemma codepoint_loop_length: "codepoint_loop fs cp inp = Some (n, rest) \<Longrightarrow> length inp = length fs + length rest"
  by (induction fs cp inp rule: codepoint_loop.induct) (auto split: option.splits)

lemma get_codepoint_length: "get_codepoint inp = Some (n, rest) \<Longrightarrow> length inp = 4 + length rest"
  by (auto simp: get_codepoint_def dest: codepoint_loop_length)

lemma next_byte_in_range_append:
  "next_byte_in_range rs inp = Some (added, rest) \<Longrightarrow> inp = added @ rest \<and> length added = length rs"
  by (induction rs inp arbitrary: added rule: next_byte_in_range.induct) (auto split: if_splits option.splits)

lemma scan_unicode_shrinks: "scan_unicode inp = Added bs rest \<Longrightarrow> length rest < length inp"
  by (auto simp: scan_unicode_def split: option.splits list.splits if_splits dest!: get_codepoint_length)

lemma scan_string_char_shrinks: "scan_string_char inp = Added bs rest \<Longrightarrow> length rest < length inp"
  by (auto simp: scan_string_char_def scan_escape_def split: list.splits if_splits option.splits
      dest: scan_unicode_shrinks next_byte_in_range_append)

function scan_string :: "bytes \<Rightarrow> bytes \<Rightarrow> token \<times> bytes" where
  "scan_string buffer inp =
     (case scan_string_char inp of
        Closing_quote rest \<Rightarrow> (Value_string buffer, rest)
      | Added bs rest \<Rightarrow> scan_string (buffer @ bs) rest
      | String_error \<Rightarrow> (Token_error, []))"
  by pat_completeness auto

termination
  by (relation "measure (\<lambda>(buffer, inp). length inp)") (auto dest: scan_string_char_shrinks)

declare scan_string.simps [simp del]

subsection \<open>Number literals\<close>

text \<open>The labels of \<^verbatim>\<open>scan_number\<close> and the kind of number seen so far.\<close>

datatype number_state =
    Scan_minus | Scan_zero | Scan_any1 | Scan_decimal1 | Scan_decimal2 | Scan_exponent | Scan_sign | Scan_any2

datatype number_type = Number_unsigned | Number_integer | Number_float

datatype number_step = Goto number_state | Number_done | Number_error

definition digit_byte :: "nat \<Rightarrow> bool" where
  "digit_byte c \<longleftrightarrow> 0x30 \<le> c \<and> c \<le> 0x39"

fun scan_number_step :: "number_state \<Rightarrow> nat option \<Rightarrow> number_step" where
  "scan_number_step st None =
     (if st \<in> {Scan_zero, Scan_any1, Scan_decimal2, Scan_any2} then Number_done else Number_error)"
| "scan_number_step Scan_minus (Some c) =
     (if c = 0x30 then Goto Scan_zero else if digit_byte c then Goto Scan_any1 else Number_error)"
| "scan_number_step Scan_zero (Some c) =
     (if c = 0x2E then Goto Scan_decimal1
      else if c = 0x65 \<or> c = 0x45 then Goto Scan_exponent else Number_done)"
| "scan_number_step Scan_any1 (Some c) =
     (if digit_byte c then Goto Scan_any1
      else if c = 0x2E then Goto Scan_decimal1
      else if c = 0x65 \<or> c = 0x45 then Goto Scan_exponent else Number_done)"
| "scan_number_step Scan_decimal1 (Some c) =
     (if digit_byte c then Goto Scan_decimal2 else Number_error)"
| "scan_number_step Scan_decimal2 (Some c) =
     (if digit_byte c then Goto Scan_decimal2
      else if c = 0x65 \<or> c = 0x45 then Goto Scan_exponent else Number_done)"
| "scan_number_step Scan_exponent (Some c) =
     (if c = 0x2B \<or> c = 0x2D then Goto Scan_sign
      else if digit_byte c then Goto Scan_any2 else Number_error)"
| "scan_number_step Scan_sign (Some c) =
     (if digit_byte c then Goto Scan_any2 else Number_error)"
| "scan_number_step Scan_any2 (Some c) =
     (if digit_byte c then Goto Scan_any2 else Number_done)"

fun enter_label :: "number_state \<Rightarrow> number_type \<Rightarrow> number_type" where
  "enter_label Scan_minus ty = Number_integer"
| "enter_label Scan_decimal1 ty = Number_float"
| "enter_label Scan_exponent ty = Number_float"
| "enter_label _ ty = ty"

text \<open>
  The run from a label on: the kind of number, the token buffer and the input after
  \<^verbatim>\<open>unget()\<close>. The decimal point of the locale is the full stop: the program never
  calls \<^verbatim>\<open>setlocale\<close>.
\<close>

fun scan_number_run :: "number_state \<Rightarrow> number_type \<Rightarrow> bytes \<Rightarrow> bytes \<Rightarrow> (number_type \<times> bytes \<times> bytes) option" where
  "scan_number_run st ty buffer [] =
     (if scan_number_step st None = Number_done then Some (ty, buffer, []) else None)"
| "scan_number_run st ty buffer (c # inp) =
     (case scan_number_step st (Some c) of
        Goto st' \<Rightarrow> scan_number_run st' (enter_label st' ty) (buffer @ [c]) inp
      | Number_done \<Rightarrow> Some (ty, buffer, c # inp)
      | Number_error \<Rightarrow> None)"

text \<open>
  The C conversions. \<open>decimal\<close> is the number a run of digits denotes. \<^verbatim>\<open>strtod\<close> rounds
  the decimal number correctly to a double: \<open>double_round n d\<close> is the double nearest to
  \<open>n / d\<close>, ties to even, with the subnormal range below \<open>2 ^ 53\<close> units of
  \<open>2 powr -1074\<close>; \<open>None\<close> is the overflow.
\<close>

definition decimal :: "bytes \<Rightarrow> nat" where
  "decimal ds = fold (\<lambda>d acc. 10 * acc + (d - 0x30)) ds 0"

definition double_round :: "nat \<Rightarrow> nat \<Rightarrow> double option" where
  "double_round n d =
     (if n = 0 then Some (0, 0)
      else let k = min (52 - ratio_log2 n d) 1074;
               m = round_half_even (n * 2 ^ nat k) (d * 2 ^ nat (- k));
               (m', e') = (if m = 0 then (0, 0) else if m = 2 ^ 53 then (2 ^ 52, 1 - k) else (m, - k))
           in if e' \<le> 971 then Some (m', e') else None)"

definition strtod :: "bytes \<Rightarrow> bool \<times> double option" where
  "strtod txt =
     (let neg = (txt \<noteq> [] \<and> hd txt = 0x2D);
          body = (if neg then tl txt else txt);
          whole = takeWhile digit_byte body;
          after = dropWhile digit_byte body;
          frac = (if after \<noteq> [] \<and> hd after = 0x2E then takeWhile digit_byte (tl after) else []);
          tail = (if after \<noteq> [] \<and> hd after = 0x2E then dropWhile digit_byte (tl after) else after);
          ex = (if tail \<noteq> [] \<and> (hd tail = 0x65 \<or> hd tail = 0x45) then tl tail else []);
          exneg = (ex \<noteq> [] \<and> hd ex = 0x2D);
          exdigits = (if ex \<noteq> [] \<and> (hd ex = 0x2D \<or> hd ex = 0x2B) then tl ex else ex);
          e10 = (if exneg then - int (decimal exdigits) else int (decimal exdigits)) - int (length frac);
          m = decimal (whole @ frac)
      in (neg, double_round (m * 10 ^ nat e10) (10 ^ nat (- e10))))"

definition float_token :: "bytes \<Rightarrow> token" where
  "float_token txt = (case strtod txt of (neg, x) \<Rightarrow> Value_float neg x)"

text \<open>
  From \<^verbatim>\<open>scan_number_done\<close> on: \<^verbatim>\<open>strtoull\<close> and \<^verbatim>\<open>strtoll\<close> report
  \<^verbatim>\<open>ERANGE\<close> for a number of more than 64 bits, which then becomes a float.
\<close>

fun convert_number :: "number_type \<Rightarrow> bytes \<Rightarrow> token" where
  "convert_number Number_unsigned buffer =
     (if decimal buffer < 2 ^ 64 then Value_unsigned (decimal buffer) else float_token buffer)"
| "convert_number Number_integer buffer =
     (if decimal (tl buffer) \<le> 2 ^ 63 then Value_integer (- int (decimal (tl buffer)))
      else float_token buffer)"
| "convert_number Number_float buffer = float_token buffer"

definition scan_number :: "nat \<Rightarrow> bytes \<Rightarrow> token \<times> bytes" where
  "scan_number current inp =
     (let st = (if current = 0x2D then Scan_minus else if current = 0x30 then Scan_zero else Scan_any1)
      in case scan_number_run st (enter_label st Number_unsigned) [current] inp of
           None \<Rightarrow> (Token_error, [])
         | Some (ty, buffer, rest) \<Rightarrow> (convert_number ty buffer, rest))"

subsection \<open>The scanner\<close>

fun scan_literal :: "bytes \<Rightarrow> token \<Rightarrow> bytes \<Rightarrow> token \<times> bytes" where
  "scan_literal [] tok inp = (tok, inp)"
| "scan_literal (l # ls) tok [] = (Token_error, [])"
| "scan_literal (l # ls) tok (c # inp) = (if c = l then scan_literal ls tok inp else (Token_error, []))"

definition skip_bom :: "bytes \<Rightarrow> bytes option" where
  "skip_bom inp =
     (case inp of
        c1 # inp1 \<Rightarrow>
          if c1 = 0xEF
          then (case inp1 of
                  c2 # c3 # inp3 \<Rightarrow> if c2 = 0xBB \<and> c3 = 0xBF then Some inp3 else None
                | _ \<Rightarrow> None)
          else Some inp
      | [] \<Rightarrow> Some inp)"

definition skip_whitespace :: "bytes \<Rightarrow> bytes" where
  "skip_whitespace inp = dropWhile (\<lambda>c. c = 0x20 \<or> c = 0x09 \<or> c = 0x0A \<or> c = 0x0D) inp"

definition scan_after_space :: "bytes \<Rightarrow> token \<times> bytes" where
  "scan_after_space inp =
     (case inp of
        [] \<Rightarrow> (End_of_input, [])
      | c # rest \<Rightarrow>
          if c = 0x5B then (Begin_array, rest)
          else if c = 0x5D then (End_array, rest)
          else if c = 0x7B then (Begin_object, rest)
          else if c = 0x7D then (End_object, rest)
          else if c = 0x3A then (Name_separator, rest)
          else if c = 0x2C then (Value_separator, rest)
          else if c = 0x74 then scan_literal (bytes_of ''rue'') Literal_true rest
          else if c = 0x66 then scan_literal (bytes_of ''alse'') Literal_false rest
          else if c = 0x6E then scan_literal (bytes_of ''ull'') Literal_null rest
          else if c = 0x22 then scan_string [] rest
          else if c = 0x2D \<or> digit_byte c then scan_number c rest
          else if c = 0 then (End_of_input, rest)
          else (Token_error, []))"

text \<open>\<open>at_start\<close> is \<^verbatim>\<open>position.chars_read_total == 0\<close>.\<close>

definition scan :: "bool \<Rightarrow> bytes \<Rightarrow> token \<times> bytes" where
  "scan at_start inp =
     (case (if at_start then skip_bom inp else Some inp) of
        None \<Rightarrow> (Token_error, [])
      | Some inp' \<Rightarrow> scan_after_space (skip_whitespace inp'))"

section \<open>Lemmas\<close>


subsection \<open>Every token consumes input\<close>

definition consumes :: "bytes \<Rightarrow> token \<times> bytes \<Rightarrow> bool" where
  "consumes inp r \<longleftrightarrow> length (snd r) < length inp
     \<or> fst r \<in> {Token_error, End_of_input} \<and> length (snd r) \<le> length inp"

lemma scan_string_consumes: "consumes inp (scan_string buf inp)"
proof (induction buf inp rule: scan_string.induct)
  case (1 buf inp)
  show ?case
  proof (cases "scan_string_char inp")
    case (Closing_quote r)
    then have "length r < length inp"
      by (auto simp: scan_string_char_def scan_escape_def scan_unicode_def split: list.splits if_splits option.splits)
    with Closing_quote show ?thesis by (simp add: scan_string.simps consumes_def)
  next
    case (Added bs r)
    with "1.IH" [OF Added] scan_string_char_shrinks [OF Added] show ?thesis
      by (subst scan_string.simps) (auto simp: consumes_def)
  qed (simp add: scan_string.simps consumes_def)
qed

lemma scan_number_run_shrinks:
  "scan_number_run st ty buf inp = Some (ty', buf', rest) \<Longrightarrow> length rest \<le> length inp"
  by (induction st ty buf inp rule: scan_number_run.induct) (auto split: number_step.splits if_splits)

lemma scan_number_consumes: "consumes (c # inp) (scan_number c inp)"
  by (auto simp: scan_number_def consumes_def Let_def less_Suc_eq_le dest: scan_number_run_shrinks split: option.splits)

lemma scan_literal_consumes: "consumes (c # inp) (scan_literal ls tok inp)"
proof -
  have "length (snd (scan_literal ls tok inp)) \<le> length inp"
    by (induction ls tok inp rule: scan_literal.induct) auto
  then show ?thesis by (simp add: consumes_def less_Suc_eq_le)
qed

lemma skip_bom_shrinks: "skip_bom inp = Some rest \<Longrightarrow> length rest \<le> length inp"
  by (auto simp: skip_bom_def split: list.splits if_splits)

lemma consumes_Cons: "consumes inp r \<Longrightarrow> consumes (c # inp) r"
  by (auto simp: consumes_def)

lemma scan_after_space_consumes: "consumes inp (scan_after_space inp)"
proof (cases inp)
  case (Cons c rest)
  have lit: "consumes (c # rest) (scan_literal ls tok rest)" for ls tok c by (rule scan_literal_consumes)
  have str: "consumes (c # rest) (scan_string [] rest)" for c by (rule consumes_Cons [OF scan_string_consumes])
  have one: "consumes (c # rest) (t, rest)" "consumes (c # rest) (Token_error, [])" for t c by (simp_all add: consumes_def)
  show ?thesis
    unfolding Cons scan_after_space_def by (simp add: lit str one scan_number_consumes)
qed (simp add: scan_after_space_def consumes_def)

lemma scan_consumes: "consumes inp (scan b inp)"
proof (cases "if b then skip_bom inp else Some inp")
  case (Some inp')
  then have "length inp' \<le> length inp" by (auto split: if_splits dest: skip_bom_shrinks)
  then have "length (skip_whitespace inp') \<le> length inp"
    unfolding skip_whitespace_def by (rule order_trans [OF length_dropWhile_le])
  moreover have "consumes (skip_whitespace inp') (scan_after_space (skip_whitespace inp'))"
    by (rule scan_after_space_consumes)
  ultimately show ?thesis using Some by (auto simp: scan_def consumes_def)
qed (simp add: scan_def consumes_def)

end
