(* ===== verification/JsonParser.thy ===== *)
theory JsonParser
  imports JsonLexer
begin

text \<open>
  The parser of \<^verbatim>\<open>json.hpp\<close>: the loop of \<^verbatim>\<open>sax_parse_internal\<close> with its stack of
  open arrays and objects, and the events of \<^verbatim>\<open>json_sax_dom_parser\<close>, which build the
  value. \<^verbatim>\<open>states\<close> and \<^verbatim>\<open>ref_stack\<close> have the same height, so one stack of frames
  stands for both: what has been read of each open array or object, and for an object the
  member the next value goes to (\<^verbatim>\<open>object_element\<close>).
\<close>

section \<open>Definitions\<close>

datatype frame = Array_frame "json list" | Object_frame "(string \<times> json) list" string

text \<open>
  Where the loop stands: a token to be taken as a value (\<open>Next\<close>), or a finished value
  (\<open>Value\<close>, the evaluation of the enclosing state).
\<close>

datatype parse_mode = Next token | Value json

definition dom_string :: "bytes \<Rightarrow> string" where
  "dom_string bs = map char_of bs"

text \<open>The scalar a token stands for (\<^verbatim>\<open>handle_value\<close> of the event); \<open>None\<close> for the others.\<close>

fun scalar_value :: "token \<Rightarrow> (exn + json) option" where
  "scalar_value Literal_true = Some (Inr (JBool True))"
| "scalar_value Literal_false = Some (Inr (JBool False))"
| "scalar_value Literal_null = Some (Inr JNull)"
| "scalar_value (Value_string bs) = Some (Inr (JStr (dom_string bs)))"
| "scalar_value (Value_unsigned n) = Some (Inr (JUInt n))"
| "scalar_value (Value_integer i) = Some (Inr (JInt i))"
| "scalar_value (Value_float neg (Some (m, e))) = Some (Inr (JFloat neg m e))"
| "scalar_value (Value_float neg None) = Some (Inl Std_exception)"
| "scalar_value _ = None"

text \<open>A key and the colon after it; \<open>t\<close> is the token read as the key.\<close>

definition object_key :: "token \<Rightarrow> bytes \<Rightarrow> (string \<times> bytes) option" where
  "object_key t inp =
     (case t of
        Value_string k \<Rightarrow>
          (case scan False inp of
             (Name_separator, rest) \<Rightarrow> Some (dom_string k, rest)
           | _ \<Rightarrow> None)
      | _ \<Rightarrow> None)"

fun token_weight :: "token \<Rightarrow> nat" where
  "token_weight Token_error = 0"
| "token_weight End_of_input = 0"
| "token_weight _ = 2"

fun parse_weight :: "parse_mode \<Rightarrow> nat" where
  "parse_weight (Value v) = 1"
| "parse_weight (Next t) = token_weight t"

lemma object_key_shrinks: "object_key t inp = Some (k, rest) \<Longrightarrow> length rest < length inp"
  using scan_consumes [of inp False]
  by (auto simp: object_key_def consumes_def split: token.splits prod.splits)

lemma token_weight_le: "token_weight t \<le> 2"
  by (cases t) auto

lemma scan_shrinks:
  assumes "(t, rest) = scan False inp"
  shows "3 * length rest + token_weight t \<le> 3 * length inp"
  using scan_consumes [of inp False] token_weight_le [of t] by (auto simp: consumes_def assms [symmetric])

lemma scalar_value_weight: "scalar_value t = Some r \<Longrightarrow> token_weight t = 2"
  by (cases t) auto

text \<open>
  The loop. In the mode \<open>Next\<close>, an opening bracket pushes a frame unless the closing one
  follows, and the value of a scalar token goes on to the mode \<open>Value\<close>; there a comma asks
  for the next element or member and a closing bracket finishes the frame.
\<close>

function sax_parse_internal :: "parse_mode \<Rightarrow> bytes \<Rightarrow> frame list \<Rightarrow> exn + (json \<times> bytes)" where
  "sax_parse_internal (Next t) inp stack =
     (if t = Begin_object then
        (let (t1, inp1) = scan False inp in
         if t1 = End_object then sax_parse_internal (Value (JObj [])) inp1 stack
         else (case object_key t1 inp1 of
                 None \<Rightarrow> Inl Parse_error
               | Some (k, inp2) \<Rightarrow>
                   (let (t3, inp3) = scan False inp2
                    in sax_parse_internal (Next t3) inp3 (Object_frame [] k # stack))))
      else if t = Begin_array then
        (let (t1, inp1) = scan False inp in
         if t1 = End_array then sax_parse_internal (Value (JArr [])) inp1 stack
         else sax_parse_internal (Next t1) inp1 (Array_frame [] # stack))
      else
        (case scalar_value t of
           Some (Inr v) \<Rightarrow> sax_parse_internal (Value v) inp stack
         | Some (Inl e) \<Rightarrow> Inl e
         | None \<Rightarrow> Inl Parse_error))"
| "sax_parse_internal (Value v) inp [] = Inr (v, inp)"
| "sax_parse_internal (Value v) inp (Array_frame vs # stack) =
     (let (t1, inp1) = scan False inp in
      if t1 = Value_separator
      then (let (t2, inp2) = scan False inp1
            in sax_parse_internal (Next t2) inp2 (Array_frame (vs @ [v]) # stack))
      else if t1 = End_array then sax_parse_internal (Value (JArr (vs @ [v]))) inp1 stack
      else Inl Parse_error)"
| "sax_parse_internal (Value v) inp (Object_frame ms k # stack) =
     (let (t1, inp1) = scan False inp in
      if t1 = Value_separator
      then (let (t2, inp2) = scan False inp1 in
            case object_key t2 inp2 of
              None \<Rightarrow> Inl Parse_error
            | Some (k', inp3) \<Rightarrow>
                (let (t4, inp4) = scan False inp3
                 in sax_parse_internal (Next t4) inp4 (Object_frame (member_put k v ms) k' # stack)))
      else if t1 = End_object then sax_parse_internal (Value (JObj (member_put k v ms))) inp1 stack
      else Inl Parse_error)"
  by pat_completeness auto

termination
  by (relation "measure (\<lambda>(mode, inp, stack). 3 * length inp + parse_weight mode)")
     (auto simp: scalar_value_weight dest!: scan_shrinks object_key_shrinks)

declare sax_parse_internal.simps [simp del]

text \<open>
  \<^verbatim>\<open>json::parse\<close>: the first token is read by the constructor of the parser; after the
  value the input must be used up (\<^verbatim>\<open>strict\<close>).
\<close>

definition parse_bytes :: "bytes \<Rightarrow> exn + json" where
  "parse_bytes inp =
     (let (t, inp1) = scan True inp in
      case sax_parse_internal (Next t) inp1 [] of
        Inl e \<Rightarrow> Inl e
      | Inr (v, rest) \<Rightarrow> if fst (scan False rest) = End_of_input then Inr v else Inl Parse_error)"

definition parse :: "string \<Rightarrow> exn + json" where
  "parse txt = parse_bytes (bytes_of txt)"

end
