(* ===== verification/FloatText.thy ===== *)
theory FloatText
  imports JsonLexer
begin

unbundle bit_operations_syntax

text \<open>
  The printer of doubles of \<^verbatim>\<open>json.hpp\<close> (namespace \<^verbatim>\<open>dtoa_impl\<close>, the Grisu2
  algorithm, and \<^verbatim>\<open>to_chars\<close>). Unsigned 64-bit values are natural numbers with the
  wrap-around written out; a write behind the end of the 64 bytes of
  \<^verbatim>\<open>number_buffer\<close> is the result \<open>None\<close>.
\<close>

section \<open>Definitions\<close>

definition u64 :: "nat \<Rightarrow> nat" where
  "u64 n = n mod 2 ^ 64"

definition u64_sub :: "nat \<Rightarrow> nat \<Rightarrow> nat" where
  "u64_sub a b = (a + 2 ^ 64 - b) mod 2 ^ 64"

text \<open>\<open>f * 2 powr e\<close>\<close>

record diyfp =
  dp_f :: nat
  dp_e :: int

definition diyfp_sub :: "diyfp \<Rightarrow> diyfp \<Rightarrow> diyfp" where
  "diyfp_sub x y = \<lparr>dp_f = u64_sub (dp_f x) (dp_f y), dp_e = dp_e x\<rparr>"

definition diyfp_mul :: "diyfp \<Rightarrow> diyfp \<Rightarrow> diyfp" where
  "diyfp_mul x y =
     (let u_lo = dp_f x AND 0xFFFFFFFF; u_hi = drop_bit 32 (dp_f x);
          v_lo = dp_f y AND 0xFFFFFFFF; v_hi = drop_bit 32 (dp_f y);
          p0 = u64 (u_lo * v_lo); p1 = u64 (u_lo * v_hi);
          p2 = u64 (u_hi * v_lo); p3 = u64 (u_hi * v_hi);
          p0_hi = drop_bit 32 p0;
          p1_lo = p1 AND 0xFFFFFFFF; p1_hi = drop_bit 32 p1;
          p2_lo = p2 AND 0xFFFFFFFF; p2_hi = drop_bit 32 p2;
          Q = u64 (u64 (p0_hi + p1_lo + p2_lo) + push_bit (64 - 32 - 1) 1);
          h = u64 (p3 + p2_hi + p1_hi + drop_bit 32 Q)
      in \<lparr>dp_f = h, dp_e = dp_e x + dp_e y + 64\<rparr>)"

lemma drop_bit_63_iff: "drop_bit 63 (n :: nat) = 0 \<longleftrightarrow> n < 2 ^ 63"
  by (simp add: drop_bit_eq_div div_eq_0_iff)

text \<open>The loop ends because \<open>f\<close> is not zero, which the source asserts.\<close>

function diyfp_normalize :: "diyfp \<Rightarrow> diyfp" where
  "diyfp_normalize x =
     (if dp_f x = 0 \<or> drop_bit 63 (dp_f x) \<noteq> 0 then x
      else diyfp_normalize \<lparr>dp_f = u64 (push_bit 1 (dp_f x)), dp_e = dp_e x - 1\<rparr>)"
  by pat_completeness auto

termination
  by (relation "measure (\<lambda>x. 2 ^ 64 - dp_f x)") (auto simp: drop_bit_63_iff u64_def push_bit_eq_mult)

declare diyfp_normalize.simps [simp del]

definition diyfp_normalize_to :: "diyfp \<Rightarrow> int \<Rightarrow> diyfp" where
  "diyfp_normalize_to x target_exponent =
     \<lparr>dp_f = u64 (push_bit (nat (dp_e x - target_exponent)) (dp_f x)), dp_e = target_exponent\<rparr>"

record boundaries =
  bd_w :: diyfp
  bd_minus :: diyfp
  bd_plus :: diyfp

text \<open>The 64 bits of a positive double.\<close>

definition double_bits :: "double \<Rightarrow> nat" where
  "double_bits x =
     (case x of (m, e) \<Rightarrow> if m < 2 ^ 52 then m else nat (e + 1075) * 2 ^ 52 + (m - 2 ^ 52))"

definition kBias :: int where
  "kBias = 1024 - 1 + (53 - 1)"

definition kHiddenBit :: nat where
  "kHiddenBit = 2 ^ 52"

definition compute_boundaries :: "double \<Rightarrow> boundaries" where
  "compute_boundaries value =
     (let bits = double_bits value;
          E = drop_bit 52 bits;
          F = bits AND (kHiddenBit - 1);
          v = (if E = 0 then \<lparr>dp_f = F, dp_e = 1 - kBias\<rparr>
               else \<lparr>dp_f = F + kHiddenBit, dp_e = int E - kBias\<rparr>);
          lower_boundary_is_closer = (F = 0 \<and> 1 < E);
          m_plus = \<lparr>dp_f = u64 (2 * dp_f v + 1), dp_e = dp_e v - 1\<rparr>;
          m_minus = (if lower_boundary_is_closer
                     then \<lparr>dp_f = u64_sub (u64 (4 * dp_f v)) 1, dp_e = dp_e v - 2\<rparr>
                     else \<lparr>dp_f = u64_sub (u64 (2 * dp_f v)) 1, dp_e = dp_e v - 1\<rparr>);
          w_plus = diyfp_normalize m_plus;
          w_minus = diyfp_normalize_to m_minus (dp_e w_plus)
      in \<lparr>bd_w = diyfp_normalize v, bd_minus = w_minus, bd_plus = w_plus\<rparr>)"

text \<open>\<open>f * 2 powr e\<close> approximates \<open>10 powr k\<close>: the triples \<open>(f, e, k)\<close>.\<close>

definition kCachedPowers :: "(nat \<times> int \<times> int) list" where
  "kCachedPowers =
     [
      (0xAB70FE17C79AC6CA, - 1060, - 300),
      (0xFF77B1FCBEBCDC4F, - 1034, - 292),
      (0xBE5691EF416BD60C, - 1007, - 284),
      (0x8DD01FAD907FFC3C, - 980, - 276),
      (0xD3515C2831559A83, - 954, - 268),
      (0x9D71AC8FADA6C9B5, - 927, - 260),
      (0xEA9C227723EE8BCB, - 901, - 252),
      (0xAECC49914078536D, - 874, - 244),
      (0x823C12795DB6CE57, - 847, - 236),
      (0xC21094364DFB5637, - 821, - 228),
      (0x9096EA6F3848984F, - 794, - 220),
      (0xD77485CB25823AC7, - 768, - 212),
      (0xA086CFCD97BF97F4, - 741, - 204),
      (0xEF340A98172AACE5, - 715, - 196),
      (0xB23867FB2A35B28E, - 688, - 188),
      (0x84C8D4DFD2C63F3B, - 661, - 180),
      (0xC5DD44271AD3CDBA, - 635, - 172),
      (0x936B9FCEBB25C996, - 608, - 164),
      (0xDBAC6C247D62A584, - 582, - 156),
      (0xA3AB66580D5FDAF6, - 555, - 148),
      (0xF3E2F893DEC3F126, - 529, - 140),
      (0xB5B5ADA8AAFF80B8, - 502, - 132),
      (0x87625F056C7C4A8B, - 475, - 124),
      (0xC9BCFF6034C13053, - 449, - 116),
      (0x964E858C91BA2655, - 422, - 108),
      (0xDFF9772470297EBD, - 396, - 100),
      (0xA6DFBD9FB8E5B88F, - 369, - 92),
      (0xF8A95FCF88747D94, - 343, - 84),
      (0xB94470938FA89BCF, - 316, - 76),
      (0x8A08F0F8BF0F156B, - 289, - 68),
      (0xCDB02555653131B6, - 263, - 60),
      (0x993FE2C6D07B7FAC, - 236, - 52),
      (0xE45C10C42A2B3B06, - 210, - 44),
      (0xAA242499697392D3, - 183, - 36),
      (0xFD87B5F28300CA0E, - 157, - 28),
      (0xBCE5086492111AEB, - 130, - 20),
      (0x8CBCCC096F5088CC, - 103, - 12),
      (0xD1B71758E219652C, - 77, - 4),
      (0x9C40000000000000, - 50, 4),
      (0xE8D4A51000000000, - 24, 12),
      (0xAD78EBC5AC620000, 3, 20),
      (0x813F3978F8940984, 30, 28),
      (0xC097CE7BC90715B3, 56, 36),
      (0x8F7E32CE7BEA5C70, 83, 44),
      (0xD5D238A4ABE98068, 109, 52),
      (0x9F4F2726179A2245, 136, 60),
      (0xED63A231D4C4FB27, 162, 68),
      (0xB0DE65388CC8ADA8, 189, 76),
      (0x83C7088E1AAB65DB, 216, 84),
      (0xC45D1DF942711D9A, 242, 92),
      (0x924D692CA61BE758, 269, 100),
      (0xDA01EE641A708DEA, 295, 108),
      (0xA26DA3999AEF774A, 322, 116),
      (0xF209787BB47D6B85, 348, 124),
      (0xB454E4A179DD1877, 375, 132),
      (0x865B86925B9BC5C2, 402, 140),
      (0xC83553C5C8965D3D, 428, 148),
      (0x952AB45CFA97A0B3, 455, 156),
      (0xDE469FBD99A05FE3, 481, 164),
      (0xA59BC234DB398C25, 508, 172),
      (0xF6C69A72A3989F5C, 534, 180),
      (0xB7DCBF5354E9BECE, 561, 188),
      (0x88FCF317F22241E2, 588, 196),
      (0xCC20CE9BD35C78A5, 614, 204),
      (0x98165AF37B2153DF, 641, 212),
      (0xE2A0B5DC971F303A, 667, 220),
      (0xA8D9D1535CE3B396, 694, 228),
      (0xFB9B7CD9A4A7443C, 720, 236),
      (0xBB764C4CA7A44410, 747, 244),
      (0x8BAB8EEFB6409C1A, 774, 252),
      (0xD01FEF10A657842C, 800, 260),
      (0x9B10A4E5E9913129, 827, 268),
      (0xE7109BFBA19C0C9D, 853, 276),
      (0xAC2820D9623BF429, 880, 284),
      (0x80444B5E7AA7CF85, 907, 292),
      (0xBF21E44003ACDD2D, 933, 300),
      (0x8E679C2F5E44FF8F, 960, 308),
      (0xD433179D9C8CB841, 986, 316),
      (0x9E19DB92B4E31BA9, 1013, 324)
     ]"

definition get_cached_power_for_binary_exponent :: "int \<Rightarrow> nat \<times> int \<times> int" where
  "get_cached_power_for_binary_exponent e =
     (let f = - 60 - e - 1;
          k = trunc_quot (f * 78913) (2 ^ 18) + (if 0 < f then 1 else 0);
          index = trunc_quot (300 + k + (8 - 1)) 8
      in kCachedPowers ! nat index)"

definition find_largest_pow10 :: "nat \<Rightarrow> nat \<times> nat" where
  "find_largest_pow10 n =
     (if 1000000000 \<le> n then (10, 1000000000)
      else if 100000000 \<le> n then (9, 100000000)
      else if 10000000 \<le> n then (8, 10000000)
      else if 1000000 \<le> n then (7, 1000000)
      else if 100000 \<le> n then (6, 100000)
      else if 10000 \<le> n then (5, 10000)
      else if 1000 \<le> n then (4, 1000)
      else if 100 \<le> n then (3, 100)
      else if 10 \<le> n then (2, 10)
      else (1, 1))"

text \<open>
  The assertions of \<open>grisu2_round\<close> (\<open>dst \<le> delta\<close>, \<open>rest \<le> delta\<close>,
  \<open>0 < ten_k\<close>) keep its differences from wrapping and its loop from running on.
\<close>

function grisu2_round :: "bytes \<Rightarrow> nat \<Rightarrow> nat \<Rightarrow> nat \<Rightarrow> nat \<Rightarrow> bytes" where
  "grisu2_round buf dst delta rest ten_k =
     (if 0 < ten_k \<and> rest < dst \<and> ten_k \<le> delta - rest
         \<and> (rest + ten_k < dst \<or> rest + ten_k - dst < dst - rest)
      then grisu2_round (buf[length buf - 1 := last buf - 1]) dst delta (rest + ten_k) ten_k
      else buf)"
  by pat_completeness auto

termination
  by (relation "measure (\<lambda>(buf, dst, delta, rest, ten_k). dst - rest)") auto

declare grisu2_round.simps [simp del]

text \<open>
  \<open>digit_gen_integral\<close> and \<open>digit_gen_fraction\<close> are the two loops of
  \<^verbatim>\<open>grisu2_digit_gen\<close>; \<open>s\<close> is \<^verbatim>\<open>-one.e\<close>, and \<open>room\<close> the number of bytes
  \<^verbatim>\<open>buffer\<close> has. The first one stops with the digits and the exponent, runs out of
  digits of \<open>p1\<close> (\<open>Inr (Inr buffer)\<close>), or out of room.
\<close>

fun digit_gen_integral ::
  "nat \<Rightarrow> nat \<Rightarrow> nat \<Rightarrow> nat \<Rightarrow> nat \<Rightarrow> nat \<Rightarrow> nat \<Rightarrow> nat \<Rightarrow> bytes \<Rightarrow> ((bytes \<times> nat) + bytes) option" where
  "digit_gen_integral room s p2 delta dst 0 p1 pow10 buffer = Some (Inr buffer)"
| "digit_gen_integral room s p2 delta dst (Suc n) p1 pow10 buffer =
     (if length buffer < room
      then let d = p1 div pow10; r = p1 mod pow10;
               buffer' = buffer @ [0x30 + d];
               rest = u64 (u64 (push_bit s r) + p2)
           in if rest \<le> delta
              then Some (Inl (grisu2_round buffer' dst delta rest (u64 (push_bit s pow10)), n))
              else digit_gen_integral room s p2 delta dst n r (pow10 div 10) buffer'
      else None)"

function digit_gen_fraction ::
  "nat \<Rightarrow> nat \<Rightarrow> nat \<Rightarrow> nat \<Rightarrow> nat \<Rightarrow> nat \<Rightarrow> bytes \<Rightarrow> (bytes \<times> nat) option" where
  "digit_gen_fraction room s p2 delta dst m buffer =
     (if length buffer < room
      then let p2' = u64 (p2 * 10);
               d = drop_bit s p2'; r = p2' AND (u64 (push_bit s 1) - 1);
               buffer' = buffer @ [0x30 + d];
               delta' = u64 (delta * 10); dst' = u64 (dst * 10)
           in if r \<le> delta'
              then Some (grisu2_round buffer' dst' delta' r (u64 (push_bit s 1)), Suc m)
              else digit_gen_fraction room s r delta' dst' (Suc m) buffer'
      else None)"
  by pat_completeness auto

termination
  by (relation "measure (\<lambda>(room, s, p2, delta, dst, m, buffer). room - length buffer)") auto

declare digit_gen_fraction.simps [simp del]

definition grisu2_digit_gen ::
  "nat \<Rightarrow> int \<Rightarrow> diyfp \<Rightarrow> diyfp \<Rightarrow> diyfp \<Rightarrow> (bytes \<times> int) option" where
  "grisu2_digit_gen room decimal_exponent M_minus w M_plus =
     (let delta = dp_f (diyfp_sub M_plus M_minus);
          dst = dp_f (diyfp_sub M_plus w);
          s = nat (- dp_e M_plus);
          p1 = drop_bit s (dp_f M_plus) mod 2 ^ 32;
          p2 = dp_f M_plus AND (u64 (push_bit s 1) - 1);
          (k, pow10) = find_largest_pow10 p1
      in case digit_gen_integral room s p2 delta dst k p1 pow10 [] of
           None \<Rightarrow> None
         | Some (Inl (buffer, n)) \<Rightarrow> Some (buffer, decimal_exponent + int n)
         | Some (Inr buffer) \<Rightarrow>
             (case digit_gen_fraction room s p2 delta dst 0 buffer of
                None \<Rightarrow> None
              | Some (buffer', m) \<Rightarrow> Some (buffer', decimal_exponent - int m)))"

definition grisu2 :: "nat \<Rightarrow> double \<Rightarrow> (bytes \<times> int) option" where
  "grisu2 room value =
     (let b = compute_boundaries value;
          (cf, ce, ck) = get_cached_power_for_binary_exponent (dp_e (bd_plus b));
          c_minus_k = \<lparr>dp_f = cf, dp_e = ce\<rparr>;
          w = diyfp_mul (bd_w b) c_minus_k;
          w_minus = diyfp_mul (bd_minus b) c_minus_k;
          w_plus = diyfp_mul (bd_plus b) c_minus_k;
          M_minus = \<lparr>dp_f = u64 (dp_f w_minus + 1), dp_e = dp_e w_minus\<rparr>;
          M_plus = \<lparr>dp_f = u64_sub (dp_f w_plus) 1, dp_e = dp_e w_plus\<rparr>
      in grisu2_digit_gen room (- ck) M_minus w M_plus)"

definition append_exponent :: "int \<Rightarrow> bytes" where
  "append_exponent e =
     (let k = nat \<bar>e\<bar> in
      (if e < 0 then 0x2D else 0x2B) #
      (if k < 10 then [0x30, 0x30 + k]
       else if k < 100 then [0x30 + k div 10, 0x30 + k mod 10]
       else [0x30 + k div 100, 0x30 + (k mod 100) div 10, 0x30 + k mod 100 mod 10]))"

definition format_buffer :: "bytes \<Rightarrow> int \<Rightarrow> int \<Rightarrow> int \<Rightarrow> bytes" where
  "format_buffer buf decimal_exponent min_exp max_exp =
     (let k = int (length buf);
          n = k + decimal_exponent in
      if k \<le> n \<and> n \<le> max_exp then buf @ replicate (nat (n - k)) 0x30 @ [0x2E, 0x30]
      else if 0 < n \<and> n \<le> max_exp then take (nat n) buf @ [0x2E] @ drop (nat n) buf
      else if min_exp < n \<and> n \<le> 0 then [0x30, 0x2E] @ replicate (nat (- n)) 0x30 @ buf
      else if k = 1 then buf @ [0x65] @ append_exponent (n - 1)
      else take 1 buf @ [0x2E] @ drop 1 buf @ [0x65] @ append_exponent (n - 1))"

text \<open>
  \<open>to_chars\<close> into the \<open>room\<close> bytes from \<^verbatim>\<open>first\<close> to \<^verbatim>\<open>last\<close>.
\<close>

definition to_chars :: "nat \<Rightarrow> bool \<Rightarrow> double \<Rightarrow> bytes option" where
  "to_chars room neg value =
     (let sign = (if neg then [0x2D] else []) in
      if fst value = 0 then Some (sign @ [0x30, 0x2E, 0x30])
      else (case grisu2 (room - length sign) value of
              None \<Rightarrow> None
            | Some (buf, decimal_exponent) \<Rightarrow>
                (let txt = sign @ format_buffer buf decimal_exponent (- 4) 15
                 in if length txt \<le> room then Some txt else None)))"

section \<open>Lemmas\<close>

end
