(* ===== verification/JsonSerializer.thy ===== *)
theory JsonSerializer
  imports JsonParser FloatText
begin

unbundle bit_operations_syntax

text \<open>
  The printer of \<^verbatim>\<open>json.hpp\<close> (class \<^verbatim>\<open>serializer\<close>) as \<^verbatim>\<open>dump()\<close> calls it:
  without indentation, without escaping of characters outside ASCII and with the error
  handler \<^verbatim>\<open>strict\<close>. Strings are checked by the table-driven UTF-8 decoder and escaped
  through a buffer of 512 bytes; integers are written backwards into a buffer of 64. A
  write behind the end of a buffer is the error \<open>Buffer_overrun\<close>.
\<close>

section \<open>Definitions\<close>

subsection \<open>Strings\<close>

text \<open>\<^verbatim>\<open>type_error\<close> 316, or a write outside \<^verbatim>\<open>string_buffer\<close> or \<^verbatim>\<open>number_buffer\<close>.\<close>

datatype dump_error = Invalid_utf8 | Buffer_overrun

abbreviation (input) UTF8_ACCEPT :: nat where "UTF8_ACCEPT \<equiv> 0"
abbreviation (input) UTF8_REJECT :: nat where "UTF8_REJECT \<equiv> 1"

definition utf8d :: "nat list" where
  "utf8d =
     [
      0, 0, 0, 0, 0, 0, 0, 0, 0, 0, 0, 0, 0, 0, 0, 0, 0, 0, 0, 0, 0, 0, 0, 0, 0, 0, 0, 0, 0, 0, 0, 0,
      0, 0, 0, 0, 0, 0, 0, 0, 0, 0, 0, 0, 0, 0, 0, 0, 0, 0, 0, 0, 0, 0, 0, 0, 0, 0, 0, 0, 0, 0, 0, 0,
      0, 0, 0, 0, 0, 0, 0, 0, 0, 0, 0, 0, 0, 0, 0, 0, 0, 0, 0, 0, 0, 0, 0, 0, 0, 0, 0, 0, 0, 0, 0, 0,
      0, 0, 0, 0, 0, 0, 0, 0, 0, 0, 0, 0, 0, 0, 0, 0, 0, 0, 0, 0, 0, 0, 0, 0, 0, 0, 0, 0, 0, 0, 0, 0,
      1, 1, 1, 1, 1, 1, 1, 1, 1, 1, 1, 1, 1, 1, 1, 1, 9, 9, 9, 9, 9, 9, 9, 9, 9, 9, 9, 9, 9, 9, 9, 9,
      7, 7, 7, 7, 7, 7, 7, 7, 7, 7, 7, 7, 7, 7, 7, 7, 7, 7, 7, 7, 7, 7, 7, 7, 7, 7, 7, 7, 7, 7, 7, 7,
      8, 8, 2, 2, 2, 2, 2, 2, 2, 2, 2, 2, 2, 2, 2, 2, 2, 2, 2, 2, 2, 2, 2, 2, 2, 2, 2, 2, 2, 2, 2, 2,
      10, 3, 3, 3, 3, 3, 3, 3, 3, 3, 3, 3, 3, 4, 3, 3,
      11, 6, 6, 6, 5, 8, 8, 8, 8, 8, 8, 8, 8, 8, 8, 8,
      0, 1, 2, 3, 5, 8, 7, 1, 1, 1, 4, 6, 1, 1, 1, 1,
      1, 1, 1, 1, 1, 1, 1, 1, 1, 1, 1, 1, 1, 1, 1, 1, 1, 0, 1, 1, 1, 1, 1, 0, 1, 0, 1, 1, 1, 1, 1, 1,
      1, 2, 1, 1, 1, 1, 1, 2, 1, 2, 1, 1, 1, 1, 1, 1, 1, 1, 1, 1, 1, 1, 1, 2, 1, 1, 1, 1, 1, 1, 1, 1,
      1, 2, 1, 1, 1, 1, 1, 1, 1, 2, 1, 1, 1, 1, 1, 1, 1, 1, 1, 1, 1, 1, 1, 3, 1, 3, 1, 1, 1, 1, 1, 1,
      1, 3, 1, 1, 1, 1, 1, 3, 1, 3, 1, 1, 1, 1, 1, 1, 1, 3, 1, 1, 1, 1, 1, 1, 1, 1, 1, 1, 1, 1, 1, 1
     ]"

definition decode :: "nat \<Rightarrow> nat \<Rightarrow> nat \<Rightarrow> nat \<times> nat" where
  "decode state codep byte =
     (let ty = utf8d ! byte;
          codep' = (if state \<noteq> UTF8_ACCEPT
                    then (byte AND 0x3F) OR take_bit 32 (push_bit 6 codep)
                    else drop_bit ty 0xFF AND byte);
          index = 256 + state * 16 + ty
      in (utf8d ! index, codep'))"

text \<open>\<^verbatim>\<open>%04x\<close> of a 16-bit value.\<close>

definition hex_char :: "nat \<Rightarrow> nat" where
  "hex_char d = (if d < 10 then 0x30 + d else 0x57 + d)"

definition hex4 :: "nat \<Rightarrow> bytes" where
  "hex4 n = [hex_char (n div 4096 mod 16), hex_char (n div 256 mod 16), hex_char (n div 16 mod 16), hex_char (n mod 16)]"

definition unicode_escape :: "nat \<Rightarrow> bytes" where
  "unicode_escape n = [0x5C, 0x75] @ hex4 (n mod 2 ^ 16)"

text \<open>
  What an accepted code point, completed by \<open>byte\<close>, writes to the buffer, and how many
  bytes of it are touched (\<^verbatim>\<open>snprintf\<close> also writes a terminating null byte).
\<close>

definition escape_codepoint :: "bool \<Rightarrow> nat \<Rightarrow> nat \<Rightarrow> bytes \<times> nat" where
  "escape_codepoint ensure_ascii codepoint byte =
     (if codepoint = 0x08 then ([0x5C, 0x62], 2)
      else if codepoint = 0x09 then ([0x5C, 0x74], 2)
      else if codepoint = 0x0A then ([0x5C, 0x6E], 2)
      else if codepoint = 0x0C then ([0x5C, 0x66], 2)
      else if codepoint = 0x0D then ([0x5C, 0x72], 2)
      else if codepoint = 0x22 then ([0x5C, 0x22], 2)
      else if codepoint = 0x5C then ([0x5C, 0x5C], 2)
      else if codepoint \<le> 0x1F \<or> ensure_ascii \<and> 0x7F \<le> codepoint
      then (if codepoint \<le> 0xFFFF then (unicode_escape codepoint, 7)
            else (unicode_escape (0xD7C0 + drop_bit 10 codepoint) @ unicode_escape (0xDC00 + (codepoint AND 0x3FF)), 13))
      else ([byte], 1))"

fun dump_escaped_loop ::
  "bool \<Rightarrow> nat \<Rightarrow> nat \<Rightarrow> bytes \<Rightarrow> bytes \<Rightarrow> bytes \<Rightarrow> dump_error + bytes" where
  "dump_escaped_loop ensure_ascii state codepoint string_buffer out [] =
     (if state = UTF8_ACCEPT then Inr (out @ string_buffer) else Inl Invalid_utf8)"
| "dump_escaped_loop ensure_ascii state codepoint string_buffer out (byte # s) =
     (let (state', codepoint') = decode state codepoint byte in
      if state' = UTF8_ACCEPT
      then let (txt, touched) = escape_codepoint ensure_ascii codepoint' byte;
               buffer' = string_buffer @ txt in
           if 512 < length string_buffer + touched then Inl Buffer_overrun
           else if 512 - length buffer' < 13
           then dump_escaped_loop ensure_ascii state' codepoint' [] (out @ buffer') s
           else dump_escaped_loop ensure_ascii state' codepoint' buffer' out s
      else if state' = UTF8_REJECT then Inl Invalid_utf8
      else if ensure_ascii then dump_escaped_loop ensure_ascii state' codepoint' string_buffer out s
      else if 512 \<le> length string_buffer then Inl Buffer_overrun
      else dump_escaped_loop ensure_ascii state' codepoint' (string_buffer @ [byte]) out s)"

definition dump_escaped :: "bool \<Rightarrow> bytes \<Rightarrow> dump_error + bytes" where
  "dump_escaped ensure_ascii s = dump_escaped_loop ensure_ascii UTF8_ACCEPT 0 [] [] s"

subsection \<open>Integers and floats\<close>

fun count_digits :: "nat \<Rightarrow> nat" where
  "count_digits x =
     (if x < 10 then 1 else if x < 100 then 2 else if x < 1000 then 3 else if x < 10000 then 4
      else 4 + count_digits (x div 10000))"

declare count_digits.simps [simp del]

definition digits_to_99 :: "nat \<Rightarrow> nat \<times> nat" where
  "digits_to_99 i = (0x30 + i div 10, 0x30 + i mod 10)"

text \<open>
  The digits of \<open>abs_value\<close> written backwards from the position \<open>p\<close> of
  \<^verbatim>\<open>number_buffer\<close>.
\<close>

fun fill_digits :: "nat \<Rightarrow> nat \<Rightarrow> bytes \<Rightarrow> bytes" where
  "fill_digits abs_value p buffer =
     (if 100 \<le> abs_value
      then fill_digits (abs_value div 100) (p - 2)
             (buffer[p - 1 := snd (digits_to_99 (abs_value mod 100)), p - 2 := fst (digits_to_99 (abs_value mod 100))])
      else if 10 \<le> abs_value
      then buffer[p - 1 := snd (digits_to_99 abs_value), p - 2 := fst (digits_to_99 abs_value)]
      else buffer[p - 1 := 0x30 + abs_value])"

declare fill_digits.simps [simp del]

definition remove_sign :: "int \<Rightarrow> nat" where
  "remove_sign x = (nat (- (x + 1)) + 1) mod 2 ^ 64"

definition dump_integer :: "int \<Rightarrow> dump_error + bytes" where
  "dump_integer x =
     (if x = 0 then Inr [0x30]
      else let abs_value = (if x < 0 then remove_sign x else nat x mod 2 ^ 64);
               n_chars = (if x < 0 then 1 + count_digits abs_value else count_digits abs_value);
               number_buffer = (if x < 0 then (replicate 64 0)[0 := 0x2D] else replicate 64 0)
           in if n_chars \<le> 64 then Inr (take n_chars (fill_digits abs_value n_chars number_buffer))
              else Inl Buffer_overrun)"

definition dump_float :: "bool \<Rightarrow> double \<Rightarrow> dump_error + bytes" where
  "dump_float neg x =
     (case to_chars 64 neg x of None \<Rightarrow> Inl Buffer_overrun | Some txt \<Rightarrow> Inr txt)"

subsection \<open>Values\<close>

definition dump_string :: "string \<Rightarrow> dump_error + bytes" where
  "dump_string s = map_sum id (\<lambda>e. [0x22] @ e @ [0x22]) (dump_escaped False (bytes_of s))"

fun dump_seq :: "dump_error + bytes \<Rightarrow> bytes \<Rightarrow> dump_error + bytes \<Rightarrow> dump_error + bytes" where
  "dump_seq (Inl e) sep r = Inl e"
| "dump_seq (Inr a) sep (Inl e) = Inl e"
| "dump_seq (Inr a) sep (Inr b) = Inr (a @ sep @ b)"

fun dump :: "json \<Rightarrow> dump_error + bytes"
  and dump_elements :: "json list \<Rightarrow> dump_error + bytes"
  and dump_members :: "(string \<times> json) list \<Rightarrow> dump_error + bytes" where
  "dump JNull = Inr (bytes_of ''null'')"
| "dump (JBool b) = Inr (if b then bytes_of ''true'' else bytes_of ''false'')"
| "dump (JInt i) = dump_integer i"
| "dump (JUInt n) = dump_integer (int n)"
| "dump (JFloat neg m e) = dump_float neg (m, e)"
| "dump (JStr s) = dump_string s"
| "dump (JArr vs) =
     (if vs = [] then Inr [0x5B, 0x5D]
      else map_sum id (\<lambda>b. [0x5B] @ b @ [0x5D]) (dump_elements vs))"
| "dump (JObj ms) =
     (if ms = [] then Inr [0x7B, 0x7D]
      else map_sum id (\<lambda>b. [0x7B] @ b @ [0x7D]) (dump_members ms))"
| "dump_elements [] = Inr []"
| "dump_elements (v # vs) =
     (if vs = [] then dump v else dump_seq (dump v) [0x2C] (dump_elements vs))"
| "dump_members [] = Inr []"
| "dump_members ((k, v) # ms) =
     (if ms = [] then dump_seq (dump_string k) [0x3A] (dump v)
      else dump_seq (dump_seq (dump_string k) [0x3A] (dump v)) [0x2C] (dump_members ms))"

text \<open>\<^verbatim>\<open>json::dump()\<close>\<close>

definition dump_text :: "json \<Rightarrow> exn + string" where
  "dump_text v =
     (case dump v of
        Inr bs \<Rightarrow> Inr (dom_string bs)
      | Inl Invalid_utf8 \<Rightarrow> Inl Type_error
      | Inl Buffer_overrun \<Rightarrow> Inl Std_exception)"

section \<open>Lemmas\<close>

end
