(* ===== verification/Utf8Text.thy ===== *)
theory Utf8Text
  imports JsonLexer
begin

unbundle bit_operations_syntax

text \<open>
  What well-formed text is for the scanner and the printer of \<^verbatim>\<open>json.hpp\<close>: the
  encodings of Unicode scalar values, one after the other. The scanner accepts exactly
  these inside a string literal and produces nothing else; the lemmas here are shared by
  the parser and the printer.
\<close>

section \<open>Definitions\<close>

definition scalar :: "nat \<Rightarrow> bool" where
  "scalar cp \<longleftrightarrow> cp < 0x110000 \<and> \<not> (0xD800 \<le> cp \<and> cp \<le> 0xDFFF)"

function utf8_ok :: "bytes \<Rightarrow> bool" where
  "utf8_ok [] = True"
| "utf8_ok (b # bs) =
     (if b < 0x80 then utf8_ok bs
      else (case utf8_ranges b of
              None \<Rightarrow> False
            | Some ranges \<Rightarrow>
                (case next_byte_in_range ranges bs of
                   None \<Rightarrow> False
                 | Some (added, rest) \<Rightarrow> utf8_ok rest)))"
  by pat_completeness auto

termination
  by (relation "measure length") (auto dest: next_byte_in_range_append)

text \<open>
  The scalar values a well-formed text denotes: the lead byte carries the high bits and
  every byte after it six more.
\<close>

definition lead_bits :: "nat \<Rightarrow> nat" where
  "lead_bits b = (if b < 0x80 then b else if b < 0xE0 then b - 0xC0 else if b < 0xF0 then b - 0xE0 else b - 0xF0)"

definition add_bits :: "nat \<Rightarrow> nat \<Rightarrow> nat" where
  "add_bits b c = 64 * c + b mod 64"

function codepoints :: "bytes \<Rightarrow> nat list" where
  "codepoints [] = []"
| "codepoints (b # bs) =
     (if b < 0x80 then b # codepoints bs
      else (case utf8_ranges b of
              None \<Rightarrow> []
            | Some ranges \<Rightarrow>
                (case next_byte_in_range ranges bs of
                   None \<Rightarrow> []
                 | Some (added, rest) \<Rightarrow> fold add_bits added (lead_bits b) # codepoints rest)))"
  by pat_completeness auto

termination
  by (relation "measure length") (auto dest: next_byte_in_range_append)

section \<open>Lemmas\<close>

subsection \<open>Bits and arithmetic\<close>

lemma or_disjoint_add:
  fixes a b :: nat
  assumes "b < 2 ^ n"
  shows "a * 2 ^ n OR b = a * 2 ^ n + b"
proof -
  have "push_bit n a AND take_bit n b = 0"
    by (rule bit_eqI) (auto simp: bit_simps)
  then have "push_bit n a + take_bit n b = push_bit n a OR take_bit n b"
    by (rule disjunctive_add_eq_or)
  then show ?thesis using assms by (simp add: push_bit_eq_mult take_bit_nat_eq_self)
qed

lemma and_mask_mod: "(a :: nat) AND (2 ^ n - 1) = a mod 2 ^ n"
  by (simp add: take_bit_eq_mod [symmetric] take_bit_eq_mask mask_eq_exp_minus_1)

lemma and_3F: "(a :: nat) AND 63 = a mod 64"
  using and_mask_mod [of a 6] by simp

lemma or_80: "b < 64 \<Longrightarrow> 128 OR b = 128 + (b :: nat)"
  using or_disjoint_add [of b 6 2] by simp

lemma or_C0: "b < 32 \<Longrightarrow> 192 OR b = 192 + (b :: nat)"
  using or_disjoint_add [of b 6 3] by simp

lemma or_E0: "b < 16 \<Longrightarrow> 224 OR b = 224 + (b :: nat)"
  using or_disjoint_add [of b 4 14] by simp

lemma or_F0: "b < 8 \<Longrightarrow> 240 OR b = 240 + (b :: nat)"
  using or_disjoint_add [of b 3 30] by simp

lemma codepoint_bytes_arith:
  assumes "cp < 0x110000"
  shows "codepoint_bytes cp =
     (if cp < 0x80 then [cp]
      else if cp < 0x800 then [192 + cp div 64, 128 + cp mod 64]
      else if cp < 0x10000 then [224 + cp div 4096, 128 + cp div 64 mod 64, 128 + cp mod 64]
      else [240 + cp div 262144, 128 + cp div 4096 mod 64, 128 + cp div 64 mod 64, 128 + cp mod 64])"
proof -
  have "cp < 0x800 \<Longrightarrow> cp div 64 < 32" "cp < 0x10000 \<Longrightarrow> cp div 4096 < 16" "cp div 262144 < 8"
    using assms by simp_all
  then show ?thesis
    by (auto simp: codepoint_bytes_def drop_bit_eq_div and_3F or_80 or_C0 or_E0 or_F0)
qed

lemma mod_window: "a * n \<le> q \<Longrightarrow> q < a * n + c \<Longrightarrow> c \<le> n \<Longrightarrow> q mod n < (c :: nat)"
proof -
  assume a: "a * n \<le> q" "q < a * n + c" "c \<le> n"
  then obtain r where "q = a * n + r" "r < c" by (metis add_less_cancel_left le_add_diff_inverse)
  with a show ?thesis by simp
qed

subsection \<open>Encodings of scalar values\<close>

text \<open>The encoding of a scalar value outside ASCII passes the ranges of its lead byte \<open>\<dots>\<close>\<close>

lemma scalar_in_ranges:
  assumes "scalar cp" "0x80 \<le> cp"
  obtains b added rs where "codepoint_bytes cp = b # added" "0x80 \<le> b" "b < 256" "utf8_ranges b = Some rs"
    "\<forall>rest. next_byte_in_range rs (added @ rest) = Some (added, rest)"
proof -
  have cp: "cp < 0x110000" using assms by (simp add: scalar_def)
  note bs = codepoint_bytes_arith [OF cp]
  consider "cp < 0x800" | "0x800 \<le> cp" "cp < 0x1000" | "0x1000 \<le> cp" "cp < 0xD000" | "0xD000 \<le> cp" "cp < 0xD800"
    | "0xE000 \<le> cp" "cp < 0x10000" | "0x10000 \<le> cp" "cp < 0x40000" | "0x40000 \<le> cp" "cp < 0x100000" | "0x100000 \<le> cp"
    using assms unfolding scalar_def by linarith
  then show ?thesis
  proof cases
    case 1
    then have "codepoint_bytes cp = [192 + cp div 64, 128 + cp mod 64]" "2 \<le> cp div 64" "cp div 64 < 32"
      using assms bs by auto
    then show ?thesis
      by (intro that [of "192 + cp div 64" "[128 + cp mod 64]" "[(128, 191)]"]) (auto simp: utf8_ranges_def)
  next
    case 2
    then have "cp div 4096 = 0" "32 \<le> cp div 64" "cp div 64 < 64" by simp_all
    moreover have "codepoint_bytes cp = [224 + cp div 4096, 128 + cp div 64 mod 64, 128 + cp mod 64]"
      using 2 bs by simp
    ultimately show ?thesis
      by (intro that [of "224 + cp div 4096" "[128 + cp div 64 mod 64, 128 + cp mod 64]" "[(160, 191), (128, 191)]"]) (auto simp: utf8_ranges_def)
  next
    case 3
    then have "1 \<le> cp div 4096" "cp div 4096 < 13" by simp_all
    moreover have "codepoint_bytes cp = [224 + cp div 4096, 128 + cp div 64 mod 64, 128 + cp mod 64]"
      using 3 bs by simp
    ultimately show ?thesis
      by (intro that [of "224 + cp div 4096" "[128 + cp div 64 mod 64, 128 + cp mod 64]" "[(128, 191), (128, 191)]"]) (auto simp: utf8_ranges_def)
  next
    case 4
    then have "cp div 4096 = 13" by (intro div_nat_eqI) simp_all
    moreover have "cp div 64 mod 64 < 32" using 4 by (intro mod_window [of 13]) simp_all
    moreover have "codepoint_bytes cp = [224 + cp div 4096, 128 + cp div 64 mod 64, 128 + cp mod 64]"
      using 4 bs by simp
    ultimately show ?thesis
      by (intro that [of "224 + cp div 4096" "[128 + cp div 64 mod 64, 128 + cp mod 64]" "[(128, 159), (128, 191)]"]) (auto simp: utf8_ranges_def)
  next
    case 5
    then have "14 \<le> cp div 4096" "cp div 4096 < 16" by simp_all
    moreover have "codepoint_bytes cp = [224 + cp div 4096, 128 + cp div 64 mod 64, 128 + cp mod 64]"
      using 5 bs by simp
    ultimately show ?thesis
      by (intro that [of "224 + cp div 4096" "[128 + cp div 64 mod 64, 128 + cp mod 64]" "[(128, 191), (128, 191)]"]) (auto simp: utf8_ranges_def)
  next
    case 6
    then have "cp div 262144 = 0" "16 \<le> cp div 4096" "cp div 4096 < 64" by simp_all
    moreover have "codepoint_bytes cp = [240 + cp div 262144, 128 + cp div 4096 mod 64, 128 + cp div 64 mod 64, 128 + cp mod 64]"
      using 6 bs by simp
    ultimately show ?thesis
      by (intro that [of "240 + cp div 262144" "[128 + cp div 4096 mod 64, 128 + cp div 64 mod 64, 128 + cp mod 64]" "[(144, 191), (128, 191), (128, 191)]"]) (auto simp: utf8_ranges_def)
  next
    case 7
    then have "1 \<le> cp div 262144" "cp div 262144 < 4" by simp_all
    moreover have "codepoint_bytes cp = [240 + cp div 262144, 128 + cp div 4096 mod 64, 128 + cp div 64 mod 64, 128 + cp mod 64]"
      using 7 bs by simp
    ultimately show ?thesis
      by (intro that [of "240 + cp div 262144" "[128 + cp div 4096 mod 64, 128 + cp div 64 mod 64, 128 + cp mod 64]" "[(128, 191), (128, 191), (128, 191)]"]) (auto simp: utf8_ranges_def)
  next
    case 8
    with cp have "cp div 262144 = 4" by (intro div_nat_eqI) simp_all
    moreover have "cp div 4096 mod 64 < 16" using 8 cp by (intro mod_window [of 4]) simp_all
    moreover have "codepoint_bytes cp = [240 + cp div 262144, 128 + cp div 4096 mod 64, 128 + cp div 64 mod 64, 128 + cp mod 64]"
      using 8 bs by simp
    ultimately show ?thesis
      by (intro that [of "240 + cp div 262144" "[128 + cp div 4096 mod 64, 128 + cp div 64 mod 64, 128 + cp mod 64]" "[(128, 143), (128, 191), (128, 191)]"]) (auto simp: utf8_ranges_def)
  qed
qed

text \<open>\<open>\<dots>\<close> and whatever passes them is the encoding of one.\<close>

lemma codepoint_bytes_two:
  assumes "2 \<le> x" "x < 32" "y < 64"
  shows "codepoint_bytes (64 * x + y) = [192 + x, 128 + y]"
proof -
  have "64 * x + y < 0x800" using assms by linarith
  then show ?thesis using assms by (subst codepoint_bytes_arith) simp_all
qed

lemma codepoint_bytes_three:
  assumes "x < 16" "y < 64" "z < 64" "0x800 \<le> 64 * (64 * x + y) + z"
  shows "codepoint_bytes (64 * (64 * x + y) + z) = [224 + x, 128 + y, 128 + z]"
proof -
  let ?cp = "64 * (64 * x + y) + z"
  have "x \<le> 15" "y \<le> 63" "z \<le> 63" using assms by simp_all
  then have "?cp < 0x10000" by (simp add: distrib_left)
  moreover have "?cp div 64 = 64 * x + y" using assms by simp
  then have "?cp div 4096 = x" "?cp div 64 mod 64 = y"
    using assms by (simp_all add: div_mult2_eq [of _ 64 64, simplified])
  moreover have "?cp mod 64 = z" using assms by (simp only: mod_mult_self4 mod_less)
  ultimately show ?thesis using assms(4) by (subst codepoint_bytes_arith) (simp_all del: One_nat_def)
qed

lemma codepoint_bytes_four:
  assumes "x < 5" "y < 64" "z < 64" "u < 64" "0x10000 \<le> 64 * (64 * (64 * x + y) + z) + u"
    "64 * (64 * (64 * x + y) + z) + u < 0x110000"
  shows "codepoint_bytes (64 * (64 * (64 * x + y) + z) + u) = [240 + x, 128 + y, 128 + z, 128 + u]"
proof -
  let ?cp = "64 * (64 * (64 * x + y) + z) + u"
  have a: "?cp div 64 = 64 * (64 * x + y) + z" using assms by simp
  then have b: "?cp div 4096 = 64 * x + y" using assms by (simp add: div_mult2_eq [of _ 64 64, simplified])
  have "?cp div 262144 = x" using b assms by (simp add: div_mult2_eq [of _ 4096 64, simplified])
  moreover have "?cp div 4096 mod 64 = y" unfolding b using assms by (simp only: mod_mult_self4 mod_less)
  moreover have "?cp div 64 mod 64 = z" unfolding a using assms by (simp only: mod_mult_self4 mod_less)
  moreover have "?cp mod 64 = u" using assms by (simp only: mod_mult_self4 mod_less)
  ultimately show ?thesis using assms(5,6) by (subst codepoint_bytes_arith) (simp_all del: One_nat_def)
qed

lemma next_byte_in_range_Some:
  "next_byte_in_range [] inp = Some (added, rest) \<longleftrightarrow> added = [] \<and> rest = inp"
  "next_byte_in_range ((lo, hi) # rs) inp = Some (added, rest) \<longleftrightarrow>
     (\<exists>c inp' added'. inp = c # inp' \<and> lo \<le> c \<and> c \<le> hi \<and> added = c # added' \<and> next_byte_in_range rs inp' = Some (added', rest))"
  by (auto, cases inp) (auto split: if_splits option.splits)

lemma ranges_scalar:
  assumes "utf8_ranges b = Some rs" "next_byte_in_range rs inp = Some (added, rest)"
  obtains cp where "scalar cp" "0x80 \<le> cp" "b # added = codepoint_bytes cp"
proof -
  consider (two) c where "0xC2 \<le> b" "b \<le> 0xDF" "added = [c]" "128 \<le> c" "c \<le> 191"
    | (three) c d where "0xE0 \<le> b" "b \<le> 0xEF" "added = [c, d]" "128 \<le> c" "c \<le> 191" "128 \<le> d" "d \<le> 191"
        "b = 0xE0 \<Longrightarrow> 0xA0 \<le> c" "b = 0xED \<Longrightarrow> c \<le> 0x9F"
    | (four) c d e where "0xF0 \<le> b" "b \<le> 0xF4" "added = [c, d, e]" "128 \<le> c" "c \<le> 191" "128 \<le> d" "d \<le> 191"
        "128 \<le> e" "e \<le> 191" "b = 0xF0 \<Longrightarrow> 0x90 \<le> c" "b = 0xF4 \<Longrightarrow> c \<le> 0x8F"
    using assms by (auto simp: utf8_ranges_def next_byte_in_range_Some split: if_splits)
  then show ?thesis
  proof cases
    case two
    have "codepoint_bytes (64 * (b - 192) + (c - 128)) = b # added"
      using two by (subst codepoint_bytes_two) auto
    moreover have "scalar (64 * (b - 192) + (c - 128))" "0x80 \<le> 64 * (b - 192) + (c - 128)"
      using two unfolding scalar_def by linarith+
    ultimately show ?thesis using that by metis
  next
    case three
    define x y z where "x = b - 224" and "y = c - 128" and "z = d - 128"
    have b: "b = 224 + x" "c = 128 + y" "d = 128 + z" using three by (simp_all add: x_def y_def z_def)
    let ?cp = "64 * (64 * x + y) + z"
    have x: "x < 16" "y < 64" "z < 64" "x \<noteq> 0 \<or> 32 \<le> y" "x \<noteq> 13 \<or> y < 32" using three b by auto
    then have lo: "0x800 \<le> ?cp" by presburger
    have "x \<le> 12 \<and> y \<le> 63 \<and> z \<le> 63 \<or> x = 13 \<and> y \<le> 31 \<and> z \<le> 63 \<or> 14 \<le> x \<and> x \<le> 15 \<and> y \<le> 63 \<and> z \<le> 63"
      using x by presburger
    then have "scalar ?cp" unfolding scalar_def by (auto simp: distrib_left)
    moreover have "b # added = codepoint_bytes ?cp" using codepoint_bytes_three [OF x(1-3) lo] three b by simp
    ultimately show ?thesis using that [of ?cp] lo by linarith
  next
    case four
    define x y z u where "x = b - 240" and "y = c - 128" and "z = d - 128" and "u = e - 128"
    have b: "b = 240 + x" "c = 128 + y" "d = 128 + z" "e = 128 + u" using four by (simp_all add: x_def y_def z_def u_def)
    let ?cp = "64 * (64 * (64 * x + y) + z) + u"
    have x: "x < 5" "y < 64" "z < 64" "u < 64" "x \<noteq> 0 \<or> 16 \<le> y" "x \<noteq> 4 \<or> y < 16" using four b by auto
    then have "1 \<le> x \<or> 16 \<le> y" by linarith
    then have lo: "0x10000 \<le> ?cp" by (auto simp: distrib_left)
    have "x \<le> 3 \<and> y \<le> 63 \<and> z \<le> 63 \<and> u \<le> 63 \<or> x = 4 \<and> y \<le> 15 \<and> z \<le> 63 \<and> u \<le> 63" using x by linarith
    then have hi: "?cp < 0x110000" by (auto simp: distrib_left)
    have "b # added = codepoint_bytes ?cp" using codepoint_bytes_four [OF x(1-4) lo hi] four b by simp
    moreover have "scalar ?cp" unfolding scalar_def using lo hi by linarith
    ultimately show ?thesis using that [of ?cp] lo by linarith
  qed
qed

lemma codepoint_bytes_ascii [simp]: "cp < 0x80 \<Longrightarrow> codepoint_bytes cp = [cp]"
  by (simp add: codepoint_bytes_def)

lemma scalar_ascii: "cp < 0x80 \<Longrightarrow> scalar cp"
  by (simp add: scalar_def)

lemma codepoint_bytes_nonempty [simp]: "codepoint_bytes cp \<noteq> []"
  by (simp add: codepoint_bytes_def)

lemma utf8_ok_codepoint: "scalar cp \<Longrightarrow> utf8_ok (codepoint_bytes cp @ bs) = utf8_ok bs"
proof (cases "cp < 0x80")
  case False
  assume "scalar cp"
  moreover from False have "0x80 \<le> cp" by simp
  ultimately obtain b added rs where "codepoint_bytes cp = b # added" "0x80 \<le> b" "b < 256" "utf8_ranges b = Some rs"
    "\<forall>rest. next_byte_in_range rs (added @ rest) = Some (added, rest)"
    by (rule scalar_in_ranges)
  then show ?thesis by simp
qed simp

lemma utf8_ok_concat: "list_all scalar cps \<Longrightarrow> utf8_ok (concat (map codepoint_bytes cps))"
  by (induction cps) (auto simp: utf8_ok_codepoint)

lemma utf8_ok_codepoints: "utf8_ok bs \<Longrightarrow> \<exists>cps. list_all scalar cps \<and> bs = concat (map codepoint_bytes cps)"
proof (induction bs rule: utf8_ok.induct)
  case (2 b bs)
  show ?case
  proof (cases "b < 0x80")
    case True
    with 2 obtain cps where "list_all scalar cps" "bs = concat (map codepoint_bytes cps)" by auto
    with True show ?thesis by (intro exI [of _ "b # cps"]) (simp add: scalar_ascii)
  next
    case False
    with "2.prems" obtain rs added rest where r: "utf8_ranges b = Some rs" "next_byte_in_range rs bs = Some (added, rest)" "utf8_ok rest"
      by (auto split: option.splits)
    obtain cp where cp: "scalar cp" "b # added = codepoint_bytes cp" using ranges_scalar [OF r(1,2)] by metis
    have "bs = added @ rest" using next_byte_in_range_append [OF r(2)] by simp
    moreover from "2.IH"(2) [OF False r(1,2)] r(3) obtain cps where "list_all scalar cps" "rest = concat (map codepoint_bytes cps)"
      by auto
    ultimately show ?thesis using cp by (intro exI [of _ "cp # cps"]) (simp flip: cp(2))
  qed
qed (auto intro: exI [of _ "[]"])

lemma utf8_ok_iff: "utf8_ok bs \<longleftrightarrow> (\<exists>cps. list_all scalar cps \<and> bs = concat (map codepoint_bytes cps))"
  using utf8_ok_codepoints utf8_ok_concat by blast

lemma utf8_ok_append: "utf8_ok as \<Longrightarrow> utf8_ok bs \<Longrightarrow> utf8_ok (as @ bs)"
proof -
  assume "utf8_ok as" "utf8_ok bs"
  then obtain cs ds where "list_all scalar (cs @ ds)" "as @ bs = concat (map codepoint_bytes (cs @ ds))"
    by (auto simp: utf8_ok_iff)
  then show ?thesis unfolding utf8_ok_iff by blast
qed

lemma codepoint_bytes_range:
  assumes "scalar cp" "b \<in> set (codepoint_bytes cp)"
  shows "b < 256"
proof -
  have cp: "cp < 0x110000" using assms(1) by (simp add: scalar_def)
  then have "cp div 262144 < 16" "cp < 0x10000 \<Longrightarrow> cp div 4096 < 16" "cp < 0x800 \<Longrightarrow> cp div 64 < 32" by simp_all
  moreover have "x mod 64 < 64" for x :: nat by simp
  ultimately show ?thesis
    using assms(2) cp by (auto simp: codepoint_bytes_arith split: if_splits intro: less_trans [OF add_less_mono [of 128 129 _ 64]])
qed

lemma utf8_ok_bytes: "utf8_ok bs \<Longrightarrow> b \<in> set bs \<Longrightarrow> b < 256"
  using codepoint_bytes_range by (fastforce simp: utf8_ok_iff list_all_iff)

lemma codepoint_fold:
  assumes "scalar cp" "0x80 \<le> cp" "codepoint_bytes cp = b # added"
  shows "fold add_bits added (lead_bits b) = cp"
proof -
  have cp: "cp < 0x110000" using assms(1) by (simp add: scalar_def)
  have d: "cp div 4096 = cp div 64 div 64" "cp div 262144 = cp div 64 div 64 div 64"
    by (simp_all add: div_mult2_eq [symmetric])
  have m: "(128 + r) mod 64 = r mod 64" for r :: nat
    using mod_mult_self1 [of r 2 64] by (simp add: add.commute)
  have lead: "x < 32 \<Longrightarrow> lead_bits (192 + x) = x" "x < 16 \<Longrightarrow> lead_bits (224 + x) = x" "lead_bits (240 + x) = x" for x
    by (simp_all add: lead_bits_def)
  have step: "64 * (x div 64) + x mod 64 = x" for x :: nat by simp
  consider "cp < 0x800" | "0x800 \<le> cp" "cp < 0x10000" | "0x10000 \<le> cp" by linarith
  then show ?thesis
  proof cases
    case 1
    then have "cp div 64 < 32" by simp
    with 1 assms codepoint_bytes_arith [OF cp] lead(1) [of "cp div 64"] m step [of cp]
    show ?thesis by (auto simp: add_bits_def)
  next
    case 2
    then have "cp div 4096 < 16" by simp
    with 2 assms codepoint_bytes_arith [OF cp] lead(2) [of "cp div 4096"] m step [of cp] step [of "cp div 64"]
    show ?thesis by (auto simp: add_bits_def d)
  next
    case 3
    with assms codepoint_bytes_arith [OF cp] lead(3) [of "cp div 262144"] m step [of cp] step [of "cp div 64"] step [of "cp div 64 div 64"]
    show ?thesis by (auto simp: add_bits_def d)
  qed
qed

lemma codepoints_codepoint: "scalar cp \<Longrightarrow> codepoints (codepoint_bytes cp @ bs) = cp # codepoints bs"
proof (cases "cp < 0x80")
  case False
  assume cp: "scalar cp"
  moreover from False have "0x80 \<le> cp" by simp
  ultimately obtain b added rs where "codepoint_bytes cp = b # added" "0x80 \<le> b" "b < 256" "utf8_ranges b = Some rs"
    "\<forall>rest. next_byte_in_range rs (added @ rest) = Some (added, rest)"
    by (rule scalar_in_ranges)
  then show ?thesis using codepoint_fold [OF cp _ \<open>codepoint_bytes cp = b # added\<close>] False by simp
qed simp

lemma codepoints_concat: "list_all scalar cps \<Longrightarrow> codepoints (concat (map codepoint_bytes cps)) = cps"
  by (induction cps) (simp_all add: codepoints_codepoint)

lemma codepoints_utf8_ok:
  assumes "utf8_ok s"
  shows "list_all scalar (codepoints s)" and "concat (map codepoint_bytes (codepoints s)) = s"
  using assms codepoints_concat by (auto simp: utf8_ok_iff)

subsection \<open>The string literals the scanner accepts\<close>

lemma hex_digit_less: "hex_digit c = Some d \<Longrightarrow> d < 16"
  by (auto simp: hex_digit_def split: if_splits)

lemma get_codepoint_less: "get_codepoint inp = Some (n, rest) \<Longrightarrow> n < 0x10000"
  by (cases inp; cases "tl inp"; cases "tl (tl inp)"; cases "tl (tl (tl inp))")
     (auto simp: get_codepoint_def push_bit_eq_mult split: option.splits dest!: hex_digit_less)

lemma scan_unicode_scalar:
  assumes "scan_unicode inp = Added bs rest"
  shows "\<exists>cp. scalar cp \<and> bs = codepoint_bytes cp"
proof -
  from assms obtain c1 inp1 where c1: "get_codepoint inp = Some (c1, inp1)"
    by (auto simp: scan_unicode_def split: option.splits)
  show ?thesis
  proof (cases "0xD800 \<le> c1 \<and> c1 \<le> 0xDBFF")
    case True
    with assms c1 obtain c2 where "0xDC00 \<le> c2" "c2 \<le> 0xDFFF" "bs = codepoint_bytes (push_bit 10 c1 + c2 - 0x35FDC00)"
      by (auto simp: scan_unicode_def split: option.splits list.splits if_splits)
    moreover from calculation True have "scalar (push_bit 10 c1 + c2 - 0x35FDC00)"
      unfolding scalar_def push_bit_eq_mult by (simp; linarith)
    ultimately show ?thesis by blast
  next
    case False
    with assms c1 get_codepoint_less [OF c1] have "scalar c1" "bs = codepoint_bytes c1"
      by (auto simp: scan_unicode_def scalar_def split: if_splits)
    then show ?thesis by blast
  qed
qed

lemma scan_string_char_scalar:
  assumes "scan_string_char inp = Added bs rest"
  shows "\<exists>cp. scalar cp \<and> bs = codepoint_bytes cp"
proof -
  have ascii: "\<exists>cp. scalar cp \<and> [b] = codepoint_bytes cp" if "b < 0x80" for b
    using that by (intro exI [of _ b]) (simp add: scalar_def)
  from assms obtain c inp' where i: "inp = c # inp'"
    by (auto simp: scan_string_char_def split: list.splits)
  show ?thesis
  proof (cases "c = 0x5C")
    case True
    with assms i show ?thesis
      by (auto simp: scan_string_char_def scan_escape_def intro!: ascii dest: scan_unicode_scalar split: list.splits if_splits)
  next
    case c: False
    show ?thesis
    proof (cases "c \<le> 0x7F")
      case True
      with c assms i show ?thesis by (auto simp: scan_string_char_def intro!: ascii split: if_splits)
    next
      case False
      with c assms i obtain rs added where "utf8_ranges c = Some rs" "next_byte_in_range rs inp' = Some (added, rest)" "bs = c # added"
        by (auto simp: scan_string_char_def split: option.splits if_splits)
      then show ?thesis by (metis ranges_scalar)
    qed
  qed
qed

lemma scan_string_utf8_ok:
  "scan_string buf inp = (Value_string s, rest) \<Longrightarrow> utf8_ok buf \<Longrightarrow> utf8_ok s"
proof (induction buf inp rule: scan_string.induct)
  case (1 buf inp)
  show ?case
  proof (cases "scan_string_char inp")
    case (Added bs r)
    with scan_string_char_scalar obtain cp where "scalar cp" "bs = codepoint_bytes cp" by blast
    then have "utf8_ok bs" using utf8_ok_codepoint [of cp "[]"] by simp
    with Added 1 show ?thesis
      by (subst (asm) (2) scan_string.simps) (simp add: utf8_ok_append)
  qed (use 1 in \<open>simp_all add: scan_string.simps\<close>)
qed

end
