(* ===== verification/DumpString.thy ===== *)
theory DumpString
  imports JsonSerializer Utf8Text
begin

unbundle bit_operations_syntax

text \<open>
  The string part of the printer is correct: the table-driven decoder and the scanner's
  ranges describe the same language, \<^verbatim>\<open>dump_escaped\<close> raises for exactly the texts
  outside it, writes every code point in its escaped form otherwise and never behind its
  buffer, and the scanner reads the printed literal back.
\<close>

section \<open>Definitions\<close>

text \<open>What a code point is printed as.\<close>

definition escaped :: "bool \<Rightarrow> nat \<Rightarrow> bytes" where
  "escaped ea cp =
     (if cp = 0x08 then [0x5C, 0x62] else if cp = 0x09 then [0x5C, 0x74] else if cp = 0x0A then [0x5C, 0x6E]
      else if cp = 0x0C then [0x5C, 0x66] else if cp = 0x0D then [0x5C, 0x72]
      else if cp = 0x22 then [0x5C, 0x22] else if cp = 0x5C then [0x5C, 0x5C]
      else if cp \<le> 0x1F \<or> ea \<and> 0x7F \<le> cp
      then (if cp \<le> 0xFFFF then unicode_escape cp
            else unicode_escape (0xD7C0 + drop_bit 10 cp) @ unicode_escape (0xDC00 + (cp AND 0x3FF)))
      else codepoint_bytes cp)"

text \<open>The class of a byte and the ranges a state of the decoder waits for.\<close>

definition utf8_class :: "nat \<Rightarrow> nat" where
  "utf8_class b =
     (if b < 0x80 then 0 else if b < 0x90 then 1 else if b < 0xA0 then 9 else if b < 0xC0 then 7
      else if b < 0xC2 then 8 else if b < 0xE0 then 2 else if b = 0xE0 then 10 else if b = 0xED then 4
      else if b < 0xF0 then 3 else if b = 0xF0 then 11 else if b < 0xF4 then 6 else if b = 0xF4 then 5 else 8)"

fun dfa_ranges :: "nat \<Rightarrow> (nat \<times> nat) list option" where
  "dfa_ranges st =
    (if st = 0 then Some []
     else if st = 2 then Some [(0x80, 0xBF)] else if st = 3 then Some [(0x80, 0xBF), (0x80, 0xBF)]
     else if st = 4 then Some [(0xA0, 0xBF), (0x80, 0xBF)] else if st = 5 then Some [(0x80, 0x9F), (0x80, 0xBF)]
     else if st = 6 then Some [(0x90, 0xBF), (0x80, 0xBF), (0x80, 0xBF)]
     else if st = 7 then Some [(0x80, 0xBF), (0x80, 0xBF), (0x80, 0xBF)]
     else if st = 8 then Some [(0x80, 0x8F), (0x80, 0xBF), (0x80, 0xBF)] else None)"

text \<open>
  The two ways on after a code point is complete: by the code, and by \<open>escaped\<close>.
\<close>

definition after_accept :: "bool \<Rightarrow> nat \<Rightarrow> nat \<Rightarrow> bytes \<Rightarrow> bytes \<Rightarrow> bytes \<Rightarrow> dump_error + bytes" where
  "after_accept ea cp byte buf out s =
     (let (txt, touched) = escape_codepoint ea cp byte; buf' = buf @ txt in
      if 512 < length buf + touched then Inl Buffer_overrun
      else if 512 - length buf' < 13 then dump_escaped_loop ea 0 cp [] (out @ buf') s
      else dump_escaped_loop ea 0 cp buf' out s)"

definition next_codepoint :: "bool \<Rightarrow> nat \<Rightarrow> bytes \<Rightarrow> bytes \<Rightarrow> bytes \<Rightarrow> dump_error + bytes" where
  "next_codepoint ea cp buf out s =
     (let buf' = buf @ escaped ea cp in
      if 512 - length buf' < 13 then dump_escaped_loop ea 0 cp [] (out @ buf') s
      else dump_escaped_loop ea 0 cp buf' out s)"

section \<open>Lemmas\<close>

subsection \<open>The decoder follows the ranges of the scanner\<close>

definition utf8_rows :: "nat list" where
  "utf8_rows = drop 256 utf8d"

lemma utf8d_layout:
  "utf8d = replicate 128 0 @ replicate 16 1 @ replicate 16 9 @ replicate 32 7 @ replicate 2 8 @ replicate 30 2
     @ [10] @ replicate 12 3 @ [4] @ replicate 2 3 @ [11] @ replicate 3 6 @ [5] @ replicate 11 8 @ utf8_rows"
  by (simp add: utf8d_def utf8_rows_def numeral_eq_Suc)

lemma nth_skip: "n \<le> i \<Longrightarrow> (replicate n x @ ys) ! i = ys ! (i - n)" "i < n \<Longrightarrow> (replicate n x @ ys) ! i = x"
  by (simp_all add: nth_append)

lemma nth_Cons_skip: "0 < i \<Longrightarrow> (x # ys) ! i = ys ! (i - 1)"
  by (simp add: nth_Cons')

lemma utf8_class_cases:
  assumes "b < 256"
  obtains "utf8_class b = 0" "b < 0x80" | "utf8_class b = 1" "0x80 \<le> b" "b < 0x90" | "utf8_class b = 9" "0x90 \<le> b" "b < 0xA0"
    | "utf8_class b = 7" "0xA0 \<le> b" "b < 0xC0" | "utf8_class b = 8" "0xC0 \<le> b" "b < 0xC2" | "utf8_class b = 2" "0xC2 \<le> b" "b < 0xE0"
    | "utf8_class b = 10" "b = 0xE0" | "utf8_class b = 3" "0xE0 < b" "b < 0xED" | "utf8_class b = 4" "b = 0xED"
    | "utf8_class b = 3" "b = 0xEE" | "utf8_class b = 3" "b = 0xEF"
    | "utf8_class b = 11" "b = 0xF0" | "utf8_class b = 6" "0xF0 < b" "b < 0xF4" | "utf8_class b = 5" "b = 0xF4" | "utf8_class b = 8" "0xF4 < b" "b < 0x100"
  apply (cases "b < 0x80") apply (simp add: utf8_class_def)
  apply (cases "b < 0x90") apply (simp add: utf8_class_def)
  apply (cases "b < 0xA0") apply (simp add: utf8_class_def)
  apply (cases "b < 0xC0") apply (simp add: utf8_class_def)
  apply (cases "b < 0xC2") apply (simp add: utf8_class_def)
  apply (cases "b < 0xE0") apply (simp add: utf8_class_def)
  apply (cases "b = 0xE0") apply (simp add: utf8_class_def)
  apply (cases "b < 0xED") apply (simp add: utf8_class_def)
  apply (cases "b = 0xED") apply (simp add: utf8_class_def)
  apply (cases "b = 0xEE") apply (simp add: utf8_class_def)
  apply (cases "b = 0xEF") apply (simp add: utf8_class_def)
  apply (cases "b = 0xF0") apply (simp add: utf8_class_def)
  apply (cases "b < 0xF4") apply (simp add: utf8_class_def)
  apply (cases "b = 0xF4") apply (simp add: utf8_class_def)
  using assms apply (simp add: utf8_class_def)
  done

lemma utf8d_class: "b < 256 \<Longrightarrow> utf8d ! b = utf8_class b"
  by (erule utf8_class_cases) (simp_all add: utf8d_layout nth_skip nth_Cons_skip)

lemma utf8_rows_list:
  "utf8_rows = [0, 1, 2, 3, 5, 8, 7, 1, 1, 1, 4, 6, 1, 1, 1, 1,
     1, 1, 1, 1, 1, 1, 1, 1, 1, 1, 1, 1, 1, 1, 1, 1, 1, 0, 1, 1, 1, 1, 1, 0, 1, 0, 1, 1, 1, 1, 1, 1,
     1, 2, 1, 1, 1, 1, 1, 2, 1, 2, 1, 1, 1, 1, 1, 1, 1, 1, 1, 1, 1, 1, 1, 2, 1, 1, 1, 1, 1, 1, 1, 1,
     1, 2, 1, 1, 1, 1, 1, 1, 1, 2, 1, 1, 1, 1, 1, 1, 1, 1, 1, 1, 1, 1, 1, 3, 1, 3, 1, 1, 1, 1, 1, 1,
     1, 3, 1, 1, 1, 1, 1, 3, 1, 3, 1, 1, 1, 1, 1, 1, 1, 3, 1, 1, 1, 1, 1, 1, 1, 1, 1, 1, 1, 1, 1, 1]"
  by (simp add: utf8_rows_def utf8d_def)

lemma utf8d_row: "utf8d ! (256 + k) = utf8_rows ! k"
  by (simp add: utf8d_layout nth_skip nth_Cons_skip)

lemma decode_state: "b < 256 \<Longrightarrow> fst (decode st c b) = utf8_rows ! (16 * st + utf8_class b)"
  using utf8d_row [of "16 * st + utf8_class b"] by (simp add: decode_def Let_def utf8d_class add.assoc mult.commute)

lemma decode_lead:
  assumes "b < 256"
  shows "dfa_ranges (fst (decode 0 c b)) = (if b < 0x80 then Some [] else utf8_ranges b) \<and> fst (decode 0 c b) \<le> 8"
  using assms by (cases rule: utf8_class_cases) (simp_all add: decode_state utf8_rows_list utf8_ranges_def)

lemma dfa_ranges_cases:
  assumes "dfa_ranges st = Some ((lo, hi) # rs)"
  obtains "st = 2" "lo = 0x80" "hi = 0xBF" "rs = []" | "st = 3" "lo = 0x80" "hi = 0xBF" "rs = [(0x80, 0xBF)]"
    | "st = 4" "lo = 0xA0" "hi = 0xBF" "rs = [(0x80, 0xBF)]" | "st = 5" "lo = 0x80" "hi = 0x9F" "rs = [(0x80, 0xBF)]"
    | "st = 6" "lo = 0x90" "hi = 0xBF" "rs = [(0x80, 0xBF), (0x80, 0xBF)]" | "st = 7" "lo = 0x80" "hi = 0xBF" "rs = [(0x80, 0xBF), (0x80, 0xBF)]"
    | "st = 8" "lo = 0x80" "hi = 0x8F" "rs = [(0x80, 0xBF), (0x80, 0xBF)]"
  using assms by (auto split: if_splits)

lemma decode_continuation:
  assumes "b < 256" "dfa_ranges st = Some ((lo, hi) # rs)"
  shows "dfa_ranges (fst (decode st c b)) = (if lo \<le> b \<and> b \<le> hi then Some rs else None) \<and> fst (decode st c b) \<le> 8"
  using assms(2)
proof (cases rule: dfa_ranges_cases)
  case 1 show ?thesis using assms(1) by (cases rule: utf8_class_cases) (auto simp: decode_state utf8_rows_list 1)
next
  case 2 show ?thesis using assms(1) by (cases rule: utf8_class_cases) (auto simp: decode_state utf8_rows_list 2)
next
  case 3 show ?thesis using assms(1) by (cases rule: utf8_class_cases) (auto simp: decode_state utf8_rows_list 3)
next
  case 4 show ?thesis using assms(1) by (cases rule: utf8_class_cases) (auto simp: decode_state utf8_rows_list 4)
next
  case 5 show ?thesis using assms(1) by (cases rule: utf8_class_cases) (auto simp: decode_state utf8_rows_list 5)
next
  case 6 show ?thesis using assms(1) by (cases rule: utf8_class_cases) (auto simp: decode_state utf8_rows_list 6)
next
  case 7 show ?thesis using assms(1) by (cases rule: utf8_class_cases) (auto simp: decode_state utf8_rows_list 7)
qed

lemma low_masks: "255 AND b = (b :: nat) mod 256" "63 AND b = (b :: nat) mod 64" "31 AND b = (b :: nat) mod 32" "3 AND b = (b :: nat) mod 4"
  using and_mask_mod [of b 8] and_mask_mod [of b 6] and_mask_mod [of b 5] and_mask_mod [of b 2]
  by (simp_all add: and.commute)

lemma mod_offset: "a * n \<le> b \<Longrightarrow> b < a * n + n \<Longrightarrow> b mod n = b - a * (n :: nat)"
  by (metis add_diff_inverse_nat le_add_diff_inverse mod_less mod_mult_self3 nat_add_left_cancel_less not_less)

lemma decode_lead_codepoint:
  assumes "b < 256" "b < 0x80 \<or> utf8_ranges b \<noteq> None"
  shows "snd (decode 0 c b) = lead_bits b"
proof -
  have "b mod 64 = b - 192" if "192 \<le> b" using that assms(1) mod_offset [of 3 64 b] by simp
  moreover have "b mod 32 = b - 224" if "224 \<le> b" using that assms(1) mod_offset [of 7 32 b] by simp
  moreover have "b mod 4 = b - 240" if "240 \<le> b" "b < 244" using that mod_offset [of 60 4 b] by simp
  ultimately have d: "192 \<le> b \<Longrightarrow> b mod 64 = b - 192"
    "224 \<le> b \<Longrightarrow> b mod 32 = b - 224" "240 \<le> b \<Longrightarrow> b < 244 \<Longrightarrow> b mod 4 = b - 240" by blast+
  from assms(1) show ?thesis
    by (cases rule: utf8_class_cases; insert assms(2);
        simp add: d decode_def Let_def utf8d_class lead_bits_def utf8_ranges_def low_masks)
qed

lemma decode_continuation_codepoint:
  assumes "st \<noteq> 0" "c < 2 ^ 26"
  shows "snd (decode st c b) = 64 * c + b mod 64"
proof -
  have "push_bit 6 c < 2 ^ 32" using assms(2) by (simp add: push_bit_eq_mult)
  then have "take_bit 32 (push_bit 6 c) = c * 2 ^ 6" by (simp add: take_bit_nat_eq_self push_bit_eq_mult)
  then show ?thesis
    using assms(1) or_disjoint_add [of "b mod 64" 6 c] by (simp add: decode_def Let_def and_3F or.commute mult.commute)
qed

subsection \<open>The loop over the bytes of a string\<close>

lemma loop_accept:
  "fst (decode st c b) = 0 \<Longrightarrow>
     dump_escaped_loop ea st c buf out (b # s) = after_accept ea (snd (decode st c b)) b buf out s"
  by (auto simp: after_accept_def Let_def split: prod.split)

lemma loop_reject: "fst (decode st c b) = 1 \<Longrightarrow> dump_escaped_loop ea st c buf out (b # s) = Inl Invalid_utf8"
  by (auto split: prod.split)

lemma loop_wait:
  "fst (decode st c b) = st' \<Longrightarrow> st' \<noteq> 0 \<Longrightarrow> st' \<noteq> 1 \<Longrightarrow> ea \<or> length buf < 512 \<Longrightarrow>
     dump_escaped_loop ea st c buf out (b # s) =
       dump_escaped_loop ea st' (snd (decode st c b)) (if ea then buf else buf @ [b]) out s"
  by (auto split: prod.split)

lemma dfa_ranges_Nil: "dfa_ranges st = Some [] \<longleftrightarrow> st = 0"
  by (auto split: if_splits)

lemma dfa_ranges_None: "st \<le> 8 \<Longrightarrow> dfa_ranges st = None \<longleftrightarrow> st = 1"
  by (auto split: if_splits)

declare dfa_ranges.simps [simp del] dump_escaped_loop.simps(2) [simp del]

lemma add_bits_le: "c \<le> fold add_bits bs c"
proof (induction bs arbitrary: c)
  case (Cons b bs)
  have "c \<le> add_bits b c" by (simp add: add_bits_def)
  also have "\<dots> \<le> fold add_bits bs (add_bits b c)" by (rule Cons.IH)
  finally show ?case by simp
qed simp

lemma loop_continuation:
  assumes "dfa_ranges st = Some rs" "rs \<noteq> []" "next_byte_in_range rs added = Some (added, [])"
    and "\<forall>b\<in>set added. b < 256" "fold add_bits added c < 2 ^ 26" "ea \<or> length buf + length added \<le> 512"
  shows "dump_escaped_loop ea st c buf out (added @ s) =
    after_accept ea (fold add_bits added c) (last added) (if ea then buf else buf @ butlast added) out s"
  using assms
proof (induction rs arbitrary: st c buf added)
  case (Cons r rs)
  obtain lo hi where r: "r = (lo, hi)" by fastforce
  from Cons.prems(3) obtain b added' where a: "added = b # added'" "lo \<le> b" "b \<le> hi"
    and n: "next_byte_in_range rs added' = Some (added', [])"
    unfolding r by (auto simp: next_byte_in_range_Some)
  let ?st = "fst (decode st c b)"
  have "dfa_ranges st \<noteq> Some []" using Cons.prems(1) by simp
  then have st0: "st \<noteq> 0" by (simp only: dfa_ranges_Nil not_False_eq_True)
  have b: "b < 256" using Cons.prems(4) a by simp
  have st: "dfa_ranges ?st = Some rs" "?st \<le> 8"
    using decode_continuation [OF b Cons.prems(1) [unfolded r]] a by auto
  have c: "c < 2 ^ 26" using Cons.prems(5) add_bits_le [of c added] by linarith
  have cd: "snd (decode st c b) = add_bits b c"
    using decode_continuation_codepoint [OF st0 c] by (simp add: add_bits_def)
  show ?case
  proof (cases rs)
    case Nil
    then have "added' = []" using n by simp
    moreover have "?st = 0" using st Nil dfa_ranges_Nil by simp
    ultimately show ?thesis using a cd by (simp add: loop_accept)
  next
    case Cons': (Cons r' rs')
    then have ne: "added' \<noteq> []" using n by (cases r') (auto simp: next_byte_in_range_Some)
    have s1: "?st \<noteq> 0" "?st \<noteq> 1" using st Cons' dfa_ranges_Nil [of ?st] dfa_ranges_None [of ?st] by auto
    have room: "ea \<or> length buf < 512" using Cons.prems(6) a by auto
    have "dump_escaped_loop ea st c buf out (added @ s)
        = dump_escaped_loop ea ?st (add_bits b c) (if ea then buf else buf @ [b]) out (added' @ s)"
      using loop_wait [OF refl s1 room] a cd by simp
    also have "\<dots> = after_accept ea (fold add_bits added' (add_bits b c)) (last added')
        (if ea then (if ea then buf else buf @ [b]) else (if ea then buf else buf @ [b]) @ butlast added') out s"
      by (rule Cons.IH) (use Cons.prems st n a Cons' in auto)
    finally show ?thesis using a ne by (cases ea) simp_all
  qed
qed simp

lemma length_unicode_escape [simp]: "length (unicode_escape n) = 6"
  by (simp add: unicode_escape_def hex4_def)

lemma loop_codepoint:
  assumes "scalar cp" "length buf \<le> 499"
  shows "dump_escaped_loop ea 0 c buf out (codepoint_bytes cp @ s) = next_codepoint ea cp buf out s"
proof (cases "cp < 0x80")
  case True
  then have "fst (decode 0 c cp) = 0" "snd (decode 0 c cp) = cp"
    using decode_lead [of cp c] decode_lead_codepoint [of cp c] dfa_ranges_Nil [of "fst (decode 0 c cp)"]
    by (simp_all add: lead_bits_def)
  then have "dump_escaped_loop ea 0 c buf out (codepoint_bytes cp @ s) = after_accept ea cp cp buf out s"
    using True by (simp add: loop_accept)
  also have "\<dots> = next_codepoint ea cp buf out s"
    using True assms(2) by (simp add: after_accept_def next_codepoint_def escape_codepoint_def escaped_def Let_def)
  finally show ?thesis .
next
  case False
  then obtain b added rs where b: "codepoint_bytes cp = b # added" "0x80 \<le> b" "b < 256" "utf8_ranges b = Some rs"
    and n: "next_byte_in_range rs added = Some (added, [])"
    using scalar_in_ranges [OF assms(1)] by (metis append.right_neutral not_less)
  let ?st = "fst (decode 0 c b)"
  have rs: "rs \<noteq> []" "length rs \<le> 3" using b(4) by (auto simp: utf8_ranges_def split: if_splits)
  then have added: "added \<noteq> []" "length added \<le> 3" using n next_byte_in_range_append [OF n] by auto
  have st: "dfa_ranges ?st = Some rs" "?st \<le> 8" using decode_lead [OF b(3)] b by auto
  then have s1: "?st \<noteq> 0" "?st \<noteq> 1" using rs dfa_ranges_Nil [of ?st] dfa_ranges_None [of ?st] by auto
  have cd: "snd (decode 0 c b) = lead_bits b" using decode_lead_codepoint b by simp
  have cp: "fold add_bits added (lead_bits b) = cp" using codepoint_fold [OF assms(1) _ b(1)] False by simp
  let ?buf = "if ea then buf else buf @ [b]"
  have "dump_escaped_loop ea 0 c buf out (codepoint_bytes cp @ s)
      = dump_escaped_loop ea ?st (lead_bits b) ?buf out (added @ s)"
    using loop_wait [OF refl s1, of ea buf out "added @ s"] assms(2) b(1) cd by simp
  also have "\<dots> = after_accept ea cp (last added) (if ea then ?buf else ?buf @ butlast added) out s"
    unfolding cp [symmetric]
  proof (rule loop_continuation [OF st(1) rs(1) n])
    show "\<forall>b\<in>set added. b < 256" using codepoint_bytes_range [OF assms(1)] b(1) by simp
    show "fold add_bits added (lead_bits b) < 2 ^ 26" unfolding cp using assms(1) by (simp add: scalar_def)
    show "ea \<or> length ?buf + length added \<le> 512" using added assms(2) by simp
  qed
  also have "\<dots> = next_codepoint ea cp buf out s"
    using False added b(1) assms(2)
    by (auto simp: after_accept_def next_codepoint_def escape_codepoint_def escaped_def Let_def)
  finally show ?thesis .
qed

lemma loop_codepoints:
  assumes "list_all scalar cps" "length buf \<le> 499"
  shows "dump_escaped_loop ea 0 c buf out (concat (map codepoint_bytes cps)) = Inr (out @ buf @ concat (map (escaped ea) cps))"
  using assms
proof (induction cps arbitrary: c buf out)
  case (Cons cp cps)
  then have "dump_escaped_loop ea 0 c buf out (concat (map codepoint_bytes (cp # cps)))
      = next_codepoint ea cp buf out (concat (map codepoint_bytes cps))"
    by (simp add: loop_codepoint)
  also have "\<dots> = Inr (out @ buf @ concat (map (escaped ea) (cp # cps)))"
    using Cons by (simp add: next_codepoint_def Let_def)
  finally show ?case .
qed simp

lemma loop_ill_formed_tail:
  assumes "dfa_ranges st = Some rs" "next_byte_in_range rs s = None" "\<forall>b\<in>set s. b < 256" "length buf + length rs \<le> 512"
  shows "dump_escaped_loop ea st c buf out s = Inl Invalid_utf8"
  using assms
proof (induction rs arbitrary: st c buf s)
  case (Cons r rs)
  obtain lo hi where r: "r = (lo, hi)" by fastforce
  have "dfa_ranges st \<noteq> Some []" using Cons.prems(1) by simp
  then have st0: "st \<noteq> 0" by (simp only: dfa_ranges_Nil not_False_eq_True)
  show ?case
  proof (cases s)
    case Nil
    with st0 show ?thesis by simp
  next
    case s: (Cons b s')
    let ?st = "fst (decode st c b)"
    have b: "b < 256" using Cons.prems(3) s by simp
    note d = decode_continuation [OF b Cons.prems(1) [unfolded r], of c]
    show ?thesis
    proof (cases "lo \<le> b \<and> b \<le> hi")
      case False
      with d have "?st = 1" using dfa_ranges_None [of ?st] by auto
      then show ?thesis unfolding s by (rule loop_reject)
    next
      case True
      then have n: "next_byte_in_range rs s' = None"
        using Cons.prems(2) by (cases "next_byte_in_range rs s'") (auto simp: r s)
      then have "rs \<noteq> []" by auto
      with d True have s1: "?st \<noteq> 0" "?st \<noteq> 1"
        using dfa_ranges_Nil [of ?st] dfa_ranges_None [of ?st] by auto
      have "ea \<or> length buf < 512" using Cons.prems(4) by simp
      then show ?thesis
        unfolding s using loop_wait [OF refl s1] Cons.IH [of ?st s'] d True n Cons.prems(3,4) s by simp
    qed
  qed
qed simp

lemma loop_ill_formed:
  assumes "\<not> utf8_ok s" "\<forall>b\<in>set s. b < 256" "length buf \<le> 499"
  shows "dump_escaped_loop ea 0 c buf out s = Inl Invalid_utf8"
  using assms
proof (induction s arbitrary: c buf out rule: utf8_ok.induct)
  case (2 b bs)
  have step: "dump_escaped_loop ea 0 c buf out (codepoint_bytes cp @ rest) = Inl Invalid_utf8"
    if "scalar cp" "\<And>c buf out. length buf \<le> 499 \<Longrightarrow> dump_escaped_loop ea 0 c buf out rest = Inl Invalid_utf8" for cp rest
    using that "2.prems"(3) by (simp add: loop_codepoint next_codepoint_def Let_def)
  show ?case
  proof (cases "b < 0x80")
    case True
    then show ?thesis using step [of b bs] "2.IH"(1) "2.prems" by (simp add: scalar_ascii)
  next
    case False
    have b: "b < 256" using "2.prems"(2) by simp
    let ?st = "fst (decode 0 c b)"
    note d = decode_lead [OF b, of c]
    show ?thesis
    proof (cases "utf8_ranges b")
      case None
      with d False have "?st = 1" using dfa_ranges_None [of ?st] by auto
      then show ?thesis by (rule loop_reject)
    next
      case rs: (Some rs)
      then have rs3: "rs \<noteq> []" "length rs \<le> 3" by (auto simp: utf8_ranges_def split: if_splits)
      with d rs False have s1: "?st \<noteq> 0" "?st \<noteq> 1"
        using dfa_ranges_Nil [of ?st] dfa_ranges_None [of ?st] by auto
      show ?thesis
      proof (cases "next_byte_in_range rs bs")
        case None
        have room: "ea \<or> length buf < 512" using "2.prems"(3) by simp
        show ?thesis
          using loop_wait [OF refl s1 room] loop_ill_formed_tail [of ?st rs bs] d rs None False rs3 "2.prems"(2,3) by simp
      next
        case (Some p)
        then obtain added rest where n: "next_byte_in_range rs bs = Some (added, rest)" by (cases p) simp
        obtain cp where cp: "scalar cp" "b # added = codepoint_bytes cp" using ranges_scalar [OF rs n] by metis
        have bs: "bs = added @ rest" using next_byte_in_range_append [OF n] by simp
        have "\<not> utf8_ok rest" using "2.prems"(1) False rs n by simp
        then show ?thesis
          using step [OF cp(1), of rest] "2.IH"(2) [OF False rs n] "2.prems"(2) cp(2) [symmetric] bs by simp
      qed
    qed
  qed
qed simp

lemma dump_escaped_spec:
  assumes "\<forall>b\<in>set s. b < 256"
  shows "dump_escaped ea s =
    (if utf8_ok s then Inr (concat (map (escaped ea) (codepoints s))) else Inl Invalid_utf8)"
proof (cases "utf8_ok s")
  case True
  with loop_codepoints [of "codepoints s" "[]" ea 0 "[]"] show ?thesis
    by (simp add: dump_escaped_def codepoints_utf8_ok)
next
  case False
  with assms show ?thesis by (simp add: dump_escaped_def loop_ill_formed)
qed

subsection \<open>Reading a printed string back\<close>

lemma hex_digit_hex_char: "d < 16 \<Longrightarrow> hex_digit (hex_char d) = Some d"
  by (auto simp: hex_digit_def hex_char_def)

lemma hex4_value:
  "n div 4096 * 4096 + n div 256 mod 16 * 256 + n div 16 mod 16 * 16 + n mod 16 = (n :: nat)"
proof -
  define a b c where "a = n div 16" and "b = a div 16" and "c = b div 16"
  have d: "n div 4096 = c" "n div 256 = b" "n div 16 = a"
    by (simp_all add: a_def b_def c_def div_mult2_eq [symmetric])
  have "n = a * 16 + n mod 16" "a = b * 16 + a mod 16" "b = c * 16 + b mod 16"
    by (simp_all add: a_def b_def c_def)
  then show ?thesis unfolding d by linarith
qed

lemma get_codepoint_hex4:
  assumes "n < 2 ^ 16"
  shows "get_codepoint (hex4 n @ rest) = Some (n, rest)"
proof -
  have "n div 4096 < 16" using assms by simp
  then show ?thesis
    using hex4_value [of n] by (simp add: get_codepoint_def hex4_def hex_digit_hex_char push_bit_eq_mult)
qed

lemma scan_unicode_escape:
  assumes "scalar cp" "cp < 2 ^ 16"
  shows "scan_string_char (unicode_escape cp @ rest) = Added (codepoint_bytes cp) rest"
  using assms by (auto simp: unicode_escape_def scan_string_char_def scan_escape_def scan_unicode_def get_codepoint_hex4 scalar_def)

lemma scan_surrogates:
  assumes "0x10000 \<le> cp" "cp < 0x110000"
  shows "scan_string_char (unicode_escape (0xD7C0 + drop_bit 10 cp) @ unicode_escape (0xDC00 + (cp AND 0x3FF)) @ rest)
    = Added (codepoint_bytes cp) rest"
proof -
  define h l where "h = 0xD7C0 + cp div 1024" and "l = 0xDC00 + cp mod 1024"
  have hl: "0xD800 \<le> h" "h \<le> 0xDBFF" "0xDC00 \<le> l" "l \<le> 0xDFFF"
    using assms by (simp_all add: h_def l_def less_Suc_eq_le [symmetric])
  then have "h < 2 ^ 16" "l < 2 ^ 16" by simp_all
  moreover have "1024 * (cp div 1024) + cp mod 1024 = cp" by simp
  then have "h * 1024 + l - 0x35FDC00 = cp" by (simp add: h_def l_def)
  moreover have "drop_bit 10 cp = cp div 1024" "cp AND 0x3FF = cp mod 1024"
    using and_mask_mod [of cp 10] by (simp_all add: drop_bit_eq_div)
  then have "0xD7C0 + drop_bit 10 cp = h" "0xDC00 + (cp AND 0x3FF) = l" by (simp_all add: h_def l_def)
  ultimately show ?thesis
    using hl by (simp add: unicode_escape_def scan_string_char_def scan_escape_def scan_unicode_def
        get_codepoint_hex4 push_bit_eq_mult)
qed

lemma scan_codepoint_bytes:
  assumes "scalar cp" "0x20 \<le> cp" "cp \<noteq> 0x22" "cp \<noteq> 0x5C"
  shows "scan_string_char (codepoint_bytes cp @ rest) = Added (codepoint_bytes cp) rest"
proof (cases "cp < 0x80")
  case False
  then obtain b added rs where "codepoint_bytes cp = b # added" "0x80 \<le> b" "b < 256" "utf8_ranges b = Some rs"
    "\<forall>rest. next_byte_in_range rs (added @ rest) = Some (added, rest)"
    using scalar_in_ranges [OF assms(1)] by (metis not_less)
  then show ?thesis by (simp add: scan_string_char_def)
qed (use assms in \<open>simp add: scan_string_char_def\<close>)

lemma scan_escaped:
  assumes "scalar cp"
  shows "scan_string_char (escaped ea cp @ rest) = Added (codepoint_bytes cp) rest"
proof -
  consider (short) "cp \<in> {0x08, 0x09, 0x0A, 0x0C, 0x0D, 0x22, 0x5C}"
    | (escape) "cp \<notin> {0x08, 0x09, 0x0A, 0x0C, 0x0D, 0x22, 0x5C}" "cp \<le> 0x1F \<or> ea \<and> 0x7F \<le> cp"
    | (plain) "cp \<notin> {0x08, 0x09, 0x0A, 0x0C, 0x0D, 0x22, 0x5C}" "\<not> cp \<le> 0x1F" "\<not> (ea \<and> 0x7F \<le> cp)"
    by blast
  then show ?thesis
  proof cases
    case short
    then show ?thesis by (auto simp: escaped_def scan_string_char_def scan_escape_def)
  next
    case escape
    then have "escaped ea cp = (if cp \<le> 0xFFFF then unicode_escape cp
        else unicode_escape (0xD7C0 + drop_bit 10 cp) @ unicode_escape (0xDC00 + (cp AND 0x3FF)))"
      by (simp add: escaped_def)
    then show ?thesis
      using assms scan_unicode_escape [of cp rest] scan_surrogates [of cp rest] by (simp add: scalar_def)
  next
    case plain
    then have "escaped ea cp = codepoint_bytes cp"
      by (cases ea) (simp_all add: escaped_def)
    with plain assms show ?thesis by (simp add: scan_codepoint_bytes)
  qed
qed

lemma scan_string_escaped:
  "list_all scalar cps \<Longrightarrow>
     scan_string buf (concat (map (escaped ea) cps) @ 0x22 # rest) = (Value_string (buf @ concat (map codepoint_bytes cps)), rest)"
proof (induction cps arbitrary: buf)
  case Nil
  then show ?case by (simp add: scan_string.simps scan_string_char_def)
next
  case (Cons cp cps)
  then show ?case
    by (subst scan_string.simps) (simp add: scan_escaped)
qed

section \<open>Properties\<close>

text \<open>
  C15: The printer of strings raises for exactly the texts that are not UTF-8: on any bytes,
  with and without \<^verbatim>\<open>ensure_ascii\<close>, \<^verbatim>\<open>dump_escaped\<close> never writes outside its buffer of
  512 bytes; it raises \<^verbatim>\<open>type_error\<close> 316 if the bytes are not the encoding of Unicode
  scalar values, and otherwise its output, closed by a quote, is scanned back as the same
  bytes.
\<close>

theorem string_escaping:
  assumes "\<forall>b\<in>set s. b < 256"
  shows "if utf8_ok s
    then \<exists>txt. dump_escaped ea s = Inr txt \<and> (\<forall>rest. scan_string [] (txt @ 0x22 # rest) = (Value_string s, rest))
    else dump_escaped ea s = Inl Invalid_utf8"
proof (cases "utf8_ok s")
  case True
  then have "dump_escaped ea s = Inr (concat (map (escaped ea) (codepoints s)))" by (simp add: dump_escaped_spec [OF assms])
  then show ?thesis
    using True scan_string_escaped [OF codepoints_utf8_ok(1) [OF True], of "[]" ea] codepoints_utf8_ok(2) [OF True] by simp
qed (simp add: dump_escaped_spec [OF assms])

theorem string_escaping_witness:
  "(\<exists>txt. dump_escaped True [0x22, 0xF0, 0x9F, 0x98, 0x80] = Inr txt
     \<and> (\<forall>rest. scan_string [] (txt @ 0x22 # rest) = (Value_string [0x22, 0xF0, 0x9F, 0x98, 0x80], rest)))
   \<and> dump_escaped False [0x61, 0xC0, 0x80] = Inl Invalid_utf8"
proof -
  have "utf8_ok [0x22, 0xF0, 0x9F, 0x98, 0x80]" "\<not> utf8_ok [0x61, 0xC0, 0x80]"
    by (simp_all add: utf8_ok.simps utf8_ranges_def)
  then show ?thesis
    using string_escaping [of "[0x22, 0xF0, 0x9F, 0x98, 0x80]" True] string_escaping [of "[0x61, 0xC0, 0x80]" False] by simp
qed

end
