(* ===== verification/DumpInteger.thy ===== *)
theory DumpInteger
  imports DumpString
begin

text \<open>
  Integers in JSON text: the two-digits-at-a-time printer writes the decimal numeral into
  its buffer, and the scanner reads it back as the same number.
\<close>

section \<open>Definitions\<close>

definition numeral_bytes :: "nat \<Rightarrow> bytes" where
  "numeral_bytes n = bytes_of (nat_str n)"

section \<open>Lemmas\<close>

lemma numeral_bytes_rec:
  "numeral_bytes n = (if n < 10 then [0x30 + n] else numeral_bytes (n div 10) @ [0x30 + n mod 10])"
proof (cases "n < 10")
  case True
  then show ?thesis
    by (subst numeral_bytes_def, subst nat_str.simps) (simp add: bytes_of_def of_char_digit)
next
  case False
  have "n mod 10 < 10" by simp
  then have "of_char (char_of (48 + n mod 10) :: char) = 48 + n mod 10" by (rule of_char_digit)
  with False show ?thesis
    unfolding numeral_bytes_def by (subst nat_str.simps) (simp add: bytes_of_def)
qed

lemma numeral_bytes_two:
  assumes "10 \<le> n" "n < 100"
  shows "numeral_bytes n = [0x30 + n div 10, 0x30 + n mod 10]"
proof -
  have "n div 10 < 10" using assms by simp
  with assms show ?thesis
    by (subst numeral_bytes_rec, subst numeral_bytes_rec) simp
qed

lemma numeral_bytes_hundreds:
  assumes "100 \<le> n"
  shows "numeral_bytes n = numeral_bytes (n div 100) @ [0x30 + n mod 100 div 10, 0x30 + n mod 100 mod 10]"
proof -
  have "n mod 100 = 10 * (n div 10 mod 10) + n mod 10" using mod_mult2_eq [of n 10 10] by simp
  then have "n mod 100 div 10 = n div 10 mod 10" "n mod 100 mod 10 = n mod 10" by simp_all
  moreover have "n div 10 div 10 = n div 100" by (simp add: div_mult2_eq [symmetric])
  ultimately show ?thesis
    using assms by (subst numeral_bytes_rec, subst numeral_bytes_rec) (simp add: div_less_iff_less_mult)
qed

lemma length_numeral_bytes_pos [simp]: "0 < length (numeral_bytes n)"
  by (subst numeral_bytes_rec) simp

lemma numeral_bytes_nonempty [simp]: "numeral_bytes n \<noteq> []"
  by (subst numeral_bytes_rec) simp

lemma length_numeral_bytes: "length (numeral_bytes n) = (if n < 10 then 1 else Suc (length (numeral_bytes (n div 10))))"
  by (subst numeral_bytes_rec) simp

lemma count_digits_length: "count_digits n = length (numeral_bytes n)"
proof (induction n rule: count_digits.induct)
  case (1 n)
  have d: "n div 10 div 10 = n div 100" "n div 100 div 10 = n div 1000" "n div 1000 div 10 = n div 10000"
    by (simp_all add: div_mult2_eq [symmetric])
  have l: "length (numeral_bytes n) = (if n < 10 then 1 else Suc (length (numeral_bytes (n div 10))))"
    "length (numeral_bytes (n div 10)) = (if n < 100 then 1 else Suc (length (numeral_bytes (n div 100))))"
    "length (numeral_bytes (n div 100)) = (if n < 1000 then 1 else Suc (length (numeral_bytes (n div 1000))))"
    "length (numeral_bytes (n div 1000)) = (if n < 10000 then 1 else Suc (length (numeral_bytes (n div 10000))))"
    using length_numeral_bytes [of n] length_numeral_bytes [of "n div 10"] length_numeral_bytes [of "n div 100"]
      length_numeral_bytes [of "n div 1000"] by (simp_all add: d div_less_iff_less_mult)
  show ?case
    using "1.IH" by (subst count_digits.simps) (simp only: l, simp)
qed

lemma length_numeral_bytes_le: "n < 10 ^ Suc k \<Longrightarrow> length (numeral_bytes n) \<le> Suc k"
proof (induction k arbitrary: n)
  case 0
  then show ?case by (subst length_numeral_bytes) simp
next
  case (Suc k)
  then have "n div 10 < 10 ^ Suc k" by (simp add: less_mult_imp_div_less mult.commute)
  then show ?case using Suc.IH by (subst length_numeral_bytes) simp
qed

lemma list_update_two:
  assumes "p + 2 \<le> length xs"
  shows "xs[p + 1 := b, p := a] = take p xs @ [a, b] @ drop (p + 2) xs"
proof -
  have "drop p xs = xs ! p # xs ! (p + 1) # drop (p + 2) xs"
    using assms Cons_nth_drop_Suc [of p xs] Cons_nth_drop_Suc [of "p + 1" xs] by simp
  then have "xs = take p xs @ xs ! p # xs ! (p + 1) # drop (p + 2) xs"
    using append_take_drop_id [of p xs] by simp
  then obtain us x y vs where "xs = us @ x # y # vs" "length us = p"
    using assms by (metis length_take min.absorb2 add_leD1)
  then show ?thesis by (auto simp: list_update_append)
qed

lemma fill_digits_numeral:
  assumes "length buf = q + length (numeral_bytes n) + r"
  shows "fill_digits n (q + length (numeral_bytes n)) buf
    = take q buf @ numeral_bytes n @ drop (q + length (numeral_bytes n)) buf"
  using assms
proof (induction n arbitrary: buf r rule: less_induct)
  case (less n)
  let ?p = "q + length (numeral_bytes n)"
  show ?case
  proof (cases "100 \<le> n")
    case True
    let ?h = "n div 100" and ?d = "n mod 100"
    let ?buf = "buf[?p - 1 := snd (digits_to_99 ?d), ?p - 2 := fst (digits_to_99 ?d)]"
    have n: "numeral_bytes n = numeral_bytes ?h @ [fst (digits_to_99 ?d), snd (digits_to_99 ?d)]"
      using numeral_bytes_hundreds [OF True] by (simp add: digits_to_99_def)
    then have p: "?p = q + length (numeral_bytes ?h) + 2" by simp
    have "fill_digits n ?p buf = fill_digits ?h (q + length (numeral_bytes ?h)) ?buf"
      using True p by (subst fill_digits.simps) simp
    also have "\<dots> = take q ?buf @ numeral_bytes ?h @ drop (q + length (numeral_bytes ?h)) ?buf"
      by (rule less.IH [where r = "r + 2"]) (use True less.prems p in auto)
    also have "?buf = take (q + length (numeral_bytes ?h)) buf @ [fst (digits_to_99 ?d), snd (digits_to_99 ?d)] @ drop ?p buf"
      using list_update_two [of "q + length (numeral_bytes ?h)" buf] less.prems p by simp
    also have "take q \<dots> = take q buf" using p less.prems by simp
    also have "drop (q + length (numeral_bytes ?h)) (take (q + length (numeral_bytes ?h)) buf
        @ [fst (digits_to_99 ?d), snd (digits_to_99 ?d)] @ drop ?p buf)
      = [fst (digits_to_99 ?d), snd (digits_to_99 ?d)] @ drop ?p buf" using p less.prems by simp
    finally show ?thesis by (simp add: n)
  next
    case False
    show ?thesis
    proof (cases "10 \<le> n")
      case True
      with False have n: "numeral_bytes n = [fst (digits_to_99 n), snd (digits_to_99 n)]"
        by (simp add: numeral_bytes_two digits_to_99_def)
      have "fill_digits n ?p buf = buf[q + 1 := snd (digits_to_99 n), q := fst (digits_to_99 n)]"
        using True False n by (subst fill_digits.simps) simp
      also have "\<dots> = take q buf @ [fst (digits_to_99 n), snd (digits_to_99 n)] @ drop (q + 2) buf"
        using less.prems n by (intro list_update_two) simp
      finally show ?thesis by (simp add: n)
    next
      case False
      then have n: "numeral_bytes n = [0x30 + n]" by (subst numeral_bytes_rec) simp
      have "fill_digits n ?p buf = buf[q := 0x30 + n]"
        using False n by (subst fill_digits.simps) simp
      also have "\<dots> = take q buf @ [0x30 + n] @ drop (q + 1) buf"
        using less.prems n by (simp add: upd_conv_take_nth_drop)
      finally show ?thesis by (simp add: n)
    qed
  qed
qed

lemma dump_integer_numeral:
  assumes "- (2 ^ 63) \<le> x" "x < 2 ^ 64"
  shows "dump_integer x = Inr (if x < 0 then 0x2D # numeral_bytes (nat (- x)) else numeral_bytes (nat x))"
proof -
  have le: "length (numeral_bytes n) \<le> 20" if "n < 2 ^ 64" for n
    using length_numeral_bytes_le [of n 19] that by simp
  consider "x = 0" | "x < 0" | "0 < x" by linarith
  then show ?thesis
  proof cases
    case 1
    then show ?thesis by (simp add: dump_integer_def numeral_bytes_rec [of 0])
  next
    case 2
    let ?n = "nat (- x)"
    have n: "?n < 2 ^ 64" using assms by simp
    have "remove_sign x = ?n" using 2 n by (simp add: remove_sign_def nat_add_distrib [symmetric])
    moreover have "fill_digits ?n (1 + length (numeral_bytes ?n)) ((replicate 64 0)[0 := 0x2D])
        = take 1 ((replicate 64 0)[0 := 0x2D]) @ numeral_bytes ?n @ drop (1 + length (numeral_bytes ?n)) ((replicate 64 0)[0 := 0x2D])"
      by (rule fill_digits_numeral [where r = "63 - length (numeral_bytes ?n)"]) (use le [OF n] in simp)
    moreover have "replicate 64 0 = (0 :: nat) # replicate 63 0"
      using replicate_Suc [of 63 "0 :: nat"] by (simp del: replicate_Suc)
    then have "take 1 ((replicate 64 (0 :: nat))[0 := 0x2D]) = [0x2D]" by simp
    ultimately show ?thesis using 2 le [OF n] by (simp add: dump_integer_def Let_def count_digits_length)
  next
    case 3
    let ?n = "nat x"
    have n: "?n < 2 ^ 64" using assms 3 by simp
    have "fill_digits ?n (0 + length (numeral_bytes ?n)) (replicate 64 0)
        = take 0 (replicate 64 0) @ numeral_bytes ?n @ drop (0 + length (numeral_bytes ?n)) (replicate 64 0)"
      by (rule fill_digits_numeral [where r = "64 - length (numeral_bytes ?n)"]) (use le [OF n] in simp)
    then show ?thesis using 3 n le [OF n] by (simp add: dump_integer_def Let_def count_digits_length)
  qed
qed

subsection \<open>Reading a printed integer back\<close>

lemma decimal_append: "decimal (ds @ [d]) = 10 * decimal ds + (d - 0x30)"
  by (simp add: decimal_def)

lemma decimal_numeral_bytes [simp]: "decimal (numeral_bytes n) = n"
proof (induction n rule: less_induct)
  case (less n)
  show ?case
  proof (cases "n < 10")
    case True
    then show ?thesis by (subst numeral_bytes_rec) (simp add: decimal_def)
  next
    case False
    with less [of "n div 10"] show ?thesis by (subst numeral_bytes_rec) (simp add: decimal_append)
  qed
qed

lemma numeral_bytes_digits: "list_all digit_byte (numeral_bytes n)"
proof (induction n rule: less_induct)
  case (less n)
  moreover have "digit_byte (0x30 + k)" if "k < 10" for k using that by (simp add: digit_byte_def)
  ultimately show ?case by (subst numeral_bytes_rec) simp
qed

lemma numeral_bytes_hd: "0 < n \<Longrightarrow> hd (numeral_bytes n) \<noteq> 0x30"
proof (induction n rule: less_induct)
  case (less n)
  then show ?case by (subst numeral_bytes_rec) (auto simp: div_greater_zero_iff)
qed

lemma numeral_bytes_0 [simp]: "numeral_bytes 0 = [0x30]"
  by (subst numeral_bytes_rec) simp

text \<open>
  What may follow a number: the end of the input, or a byte at which the state machine of
  \<open>scan_number\<close> stops.
\<close>

definition number_end :: "bytes \<Rightarrow> bool" where
  "number_end rest \<longleftrightarrow> (case rest of [] \<Rightarrow> True | c # _ \<Rightarrow> \<not> digit_byte c \<and> c \<notin> {0x2E, 0x65, 0x45})"

lemma scan_any1_digits:
  "list_all digit_byte ds \<Longrightarrow> number_end rest \<Longrightarrow>
     scan_number_run Scan_any1 ty buf (ds @ rest) = Some (ty, buf @ ds, rest)"
proof (induction ds arbitrary: buf)
  case Nil
  then show ?case by (cases rest) (auto simp: number_end_def)
qed simp

lemma scan_numeral:
  assumes "number_end rest"
  shows "scan_after_space (numeral_bytes n @ rest) = (convert_number Number_unsigned (numeral_bytes n), rest)"
proof (cases "n = 0")
  case True
  from assms show ?thesis
    by (cases rest) (auto simp: True scan_after_space_def scan_number_def digit_byte_def number_end_def)
next
  case False
  obtain d ds where n: "numeral_bytes n = d # ds" by (cases "numeral_bytes n") auto
  with numeral_bytes_digits [of n] numeral_bytes_hd [of n] False have d: "digit_byte d" "d \<noteq> 0x30" "list_all digit_byte ds" by auto
  then show ?thesis
    using scan_any1_digits [OF d(3) assms, of Number_unsigned "[d]"]
    by (auto simp: n scan_after_space_def scan_number_def digit_byte_def)
qed

lemma scan_negative_numeral:
  assumes "number_end rest"
  shows "scan_after_space (0x2D # numeral_bytes n @ rest) = (convert_number Number_integer (0x2D # numeral_bytes n), rest)"
proof (cases "n = 0")
  case True
  from assms show ?thesis
    by (cases rest) (auto simp: True scan_after_space_def scan_number_def digit_byte_def number_end_def)
next
  case False
  obtain d ds where n: "numeral_bytes n = d # ds" by (cases "numeral_bytes n") auto
  with numeral_bytes_digits [of n] numeral_bytes_hd [of n] False have d: "digit_byte d" "d \<noteq> 0x30" "list_all digit_byte ds" by auto
  then show ?thesis
    using scan_any1_digits [OF d(3) assms, of Number_integer "[0x2D, d]"]
    by (auto simp: n scan_after_space_def scan_number_def)
qed

section \<open>Properties\<close>

text \<open>
  C22: The two-digits-at-a-time printer of integers computes the plain decimal numeral: for
  every signed or unsigned 64-bit number, the smallest one included, whose absolute value
  is no \<^verbatim>\<open>int64_t\<close>, and inside its buffer of 64 bytes.
\<close>

theorem integer_text:
  assumes "- (2 ^ 63) \<le> x" "x < 2 ^ 64"
  shows "dump_integer x = Inr (if x < 0 then 0x2D # bytes_of (nat_str (nat (- x))) else bytes_of (nat_str (nat x)))"
  using dump_integer_numeral [OF assms] by (simp add: numeral_bytes_def)

theorem integer_text_witness:
  "dump_integer (- (2 ^ 63)) = Inr (0x2D # bytes_of (nat_str (2 ^ 63)))"
  using integer_text [of "- (2 ^ 63)"] by simp

end
