(* ===== verification/JsonText.thy ===== *)
theory JsonText
  imports DumpInteger
begin

text \<open>
  Printer and parser fit together: the text \<^verbatim>\<open>dump()\<close> writes of a well-formed value is
  read by the parser, in whatever array or object it stands, as that value.
  \<open>json_ok\<close> says what a \<^verbatim>\<open>nlohmann::json\<close> value the server can hold is: numbers of
  their width, texts in UTF-8, members in key order without duplicates. Reading loses
  only the difference between a non-negative signed and an unsigned integer
  (\<open>norm_value\<close>).
\<close>

section \<open>Definitions\<close>

fun norm_value :: "json \<Rightarrow> json" where
  "norm_value (JInt i) = (if 0 \<le> i then JUInt (nat i) else JInt i)"
| "norm_value (JArr vs) = JArr (map norm_value vs)"
| "norm_value (JObj ms) = JObj (map (\<lambda>(k, v). (k, norm_value v)) ms)"
| "norm_value v = v"

definition double_ok :: "double \<Rightarrow> bool" where
  "double_ok x \<longleftrightarrow> (case x of (m, e) \<Rightarrow>
     m = 0 \<and> e = 0 \<or> 0 < m \<and> m < 2 ^ 52 \<and> e = - 1074 \<or> 2 ^ 52 \<le> m \<and> m < 2 ^ 53 \<and> - 1074 \<le> e \<and> e \<le> 971)"

fun json_ok :: "json \<Rightarrow> bool" where
  "json_ok (JInt i) \<longleftrightarrow> - (2 ^ 63) \<le> i \<and> i < 2 ^ 63"
| "json_ok (JUInt n) \<longleftrightarrow> n < 2 ^ 64"
| "json_ok (JFloat neg m e) \<longleftrightarrow> double_ok (m, e)"
| "json_ok (JStr s) \<longleftrightarrow> utf8_ok (bytes_of s)"
| "json_ok (JArr vs) \<longleftrightarrow> (\<forall>v\<in>set vs. json_ok v)"
| "json_ok (JObj ms) \<longleftrightarrow> sorted_wrt key_less (map fst ms) \<and> (\<forall>(k, v)\<in>set ms. utf8_ok (bytes_of k) \<and> json_ok v)"
| "json_ok _ \<longleftrightarrow> True"

section \<open>Lemmas\<close>

subsection \<open>Keys and members\<close>

lemma key_less_irrefl [simp]: "\<not> key_less k k"
  by (induction k) auto

lemma key_less_trans: "key_less a b \<Longrightarrow> key_less b c \<Longrightarrow> key_less a c"
  by (induction a b arbitrary: c rule: key_less.induct) (case_tac c; fastforce)+

lemma key_less_total: "a \<noteq> b \<Longrightarrow> key_less a b \<or> key_less b a"
proof (induction a b rule: key_less.induct)
  case (1 a)
  then show ?case by (cases a) simp_all
next
  case (3 a as b bs)
  consider "(of_char a :: nat) < of_char b" | "(of_char b :: nat) < of_char a" | "a = b"
    by (metis linorder_less_linear of_char_eq_iff)
  then show ?case using 3 by cases auto
qed simp

lemma member_put_last:
  "\<forall>k'\<in>set (map fst ms). key_less k' k \<Longrightarrow> member_put k v ms = ms @ [(k, v)]"
  by (induction k v ms rule: member_put.induct) (auto dest: key_less_trans)

lemma fold_member_put_sorted:
  assumes "sorted_wrt key_less (map fst (acc @ ms))"
  shows "fold (\<lambda>(k, v). member_put k (f v)) ms acc = acc @ map (\<lambda>(k, v). (k, f v)) ms"
  using assms
proof (induction ms arbitrary: acc)
  case (Cons m ms)
  obtain k v where m: "m = (k, v)" by fastforce
  from Cons.prems have "member_put k (f v) acc = acc @ [(k, f v)]"
    by (intro member_put_last) (auto simp: sorted_wrt_append m)
  moreover have "sorted_wrt key_less (map fst ((acc @ [(k, f v)]) @ ms))" using Cons.prems by (simp add: m)
  ultimately show ?case using Cons.IH [of "acc @ [(k, f v)]"] by (simp add: m)
qed simp

lemma dom_string_bytes_of [simp]: "dom_string (bytes_of s) = s"
  by (simp add: dom_string_def bytes_of_def o_def)

lemma bytes_of_less: "b \<in> set (bytes_of s) \<Longrightarrow> b < 256"
  by (auto simp: bytes_of_def)

lemma bytes_of_dom_string: "\<forall>b\<in>set bs. b < 256 \<Longrightarrow> bytes_of (dom_string bs) = bs"
  by (induction bs) (simp_all add: bytes_of_def dom_string_def)

subsection \<open>Scalars\<close>

definition reads_scalar :: "bytes \<Rightarrow> json \<Rightarrow> bool" where
  "reads_scalar bs v \<longleftrightarrow>
     (\<forall>rest. number_end rest \<longrightarrow>
        (\<exists>t. scan False (bs @ rest) = (t, rest) \<and> scalar_value t = Some (Inr v)))"

lemma scan_no_space:
  "c \<notin> {0x20, 0x09, 0x0A, 0x0D} \<Longrightarrow> scan False (c # inp) = scan_after_space (c # inp)"
  by (simp add: scan_def skip_whitespace_def)

lemma scan_numeral_bytes: "scan False (numeral_bytes n @ rest) = scan_after_space (numeral_bytes n @ rest)"
proof -
  obtain d ds where "numeral_bytes n = d # ds" by (cases "numeral_bytes n") auto
  with numeral_bytes_digits [of n] show ?thesis by (auto simp: scan_no_space digit_byte_def)
qed

lemma reads_unsigned: "n < 2 ^ 64 \<Longrightarrow> reads_scalar (numeral_bytes n) (JUInt n)"
  by (simp add: reads_scalar_def scan_numeral_bytes scan_numeral)

lemma reads_negative: "n \<le> 2 ^ 63 \<Longrightarrow> reads_scalar (0x2D # numeral_bytes n) (JInt (- int n))"
  by (simp add: reads_scalar_def scan_no_space scan_negative_numeral)

lemma reads_integer:
  assumes "- (2 ^ 63) \<le> i" "i < 2 ^ 64"
  shows "\<exists>bs. dump_integer i = Inr bs \<and> reads_scalar bs (if 0 \<le> i then JUInt (nat i) else JInt i)"
  using assms reads_unsigned [of "nat i"] reads_negative [of "nat (- i)"]
  by (auto simp: dump_integer_numeral)

lemma scan_literal_exact: "scan_literal ls tok (ls @ rest) = (tok, rest)"
  by (induction ls) auto

lemma reads_literals:
  "reads_scalar (bytes_of ''null'') JNull" "reads_scalar (bytes_of ''true'') (JBool True)" "reads_scalar (bytes_of ''false'') (JBool False)"
  using scan_literal_exact [of "bytes_of ''ull''"] scan_literal_exact [of "bytes_of ''rue''"] scan_literal_exact [of "bytes_of ''alse''"]
  by (simp_all add: reads_scalar_def bytes_of_def scan_no_space scan_after_space_def)

lemma dump_string_reads:
  assumes "utf8_ok (bytes_of s)"
  obtains bs where "dump_string s = Inr bs" "\<And>rest. scan False (bs @ rest) = (Value_string (bytes_of s), rest)"
proof -
  let ?e = "concat (map (escaped False) (codepoints (bytes_of s)))"
  have "dump_string s = Inr ([0x22] @ ?e @ [0x22])"
    using assms bytes_of_less by (simp add: dump_string_def dump_escaped_spec)
  moreover have "scan False (([0x22] @ ?e @ [0x22]) @ rest) = (Value_string (bytes_of s), rest)" for rest
    using scan_string_escaped [OF codepoints_utf8_ok(1) [OF assms], of "[]" False rest] codepoints_utf8_ok(2) [OF assms]
    by (simp add: scan_no_space scan_after_space_def)
  ultimately show ?thesis using that by blast
qed

subsection \<open>Values\<close>

text \<open>The parser reads \<open>bs\<close> as the value \<open>v\<close>, in whatever frames it is.\<close>

definition reads_value :: "bytes \<Rightarrow> json \<Rightarrow> bool" where
  "reads_value bs v \<longleftrightarrow>
     (\<forall>rest stack. number_end rest \<longrightarrow>
        (\<exists>t r. scan False (bs @ rest) = (t, r) \<and> t \<noteq> End_array
           \<and> sax_parse_internal (Next t) r stack = sax_parse_internal (Value v) rest stack))"

definition reads_elements :: "bytes \<Rightarrow> json list \<Rightarrow> bool" where
  "reads_elements bs vs \<longleftrightarrow>
     (\<forall>rest acc stack.
        \<exists>t r. scan False (bs @ 0x5D # rest) = (t, r) \<and> t \<noteq> End_array
           \<and> sax_parse_internal (Next t) r (Array_frame acc # stack) = sax_parse_internal (Value (JArr (acc @ vs))) rest stack)"

definition reads_members :: "bytes \<Rightarrow> (string \<times> json) list \<Rightarrow> bool" where
  "reads_members bs ms \<longleftrightarrow>
     (\<forall>rest acc stack.
        \<exists>t r k r2 t3 r3. scan False (bs @ 0x7D # rest) = (t, r) \<and> t \<noteq> End_object \<and> object_key t r = Some (k, r2)
           \<and> scan False r2 = (t3, r3)
           \<and> sax_parse_internal (Next t3) r3 (Object_frame acc k # stack)
              = sax_parse_internal (Value (JObj (fold (\<lambda>(k, v). member_put k v) ms acc))) rest stack)"

lemma number_end_punctuation [simp]:
  "number_end []" "number_end (0x2C # rest)" "number_end (0x5D # rest)" "number_end (0x7D # rest)"
  by (simp_all add: number_end_def digit_byte_def)

lemma scan_punctuation [simp]:
  "scan False (0x2C # rest) = (Value_separator, rest)" "scan False (0x5D # rest) = (End_array, rest)"
  "scan False (0x7D # rest) = (End_object, rest)" "scan False (0x3A # rest) = (Name_separator, rest)"
  "scan False (0x5B # rest) = (Begin_array, rest)" "scan False (0x7B # rest) = (Begin_object, rest)"
  by (simp_all add: scan_no_space scan_after_space_def)

lemma reads_scalar_value: "reads_scalar bs v \<Longrightarrow> reads_value bs v"
  unfolding reads_scalar_def reads_value_def
proof (intro allI impI)
  fix rest stack
  assume "\<forall>rest. number_end rest \<longrightarrow> (\<exists>t. scan False (bs @ rest) = (t, rest) \<and> scalar_value t = Some (Inr v))" "number_end rest"
  then obtain t where t: "scan False (bs @ rest) = (t, rest)" "scalar_value t = Some (Inr v)" by blast
  moreover from t(2) have "t \<notin> {Begin_object, Begin_array, End_array}" by auto
  ultimately show "\<exists>t r. scan False (bs @ rest) = (t, r) \<and> t \<noteq> End_array
      \<and> sax_parse_internal (Next t) r stack = sax_parse_internal (Value v) rest stack"
    by (intro exI [of _ t] exI [of _ rest]) (simp add: sax_parse_internal.simps)
qed

lemma reads_valueD:
  "reads_value bs v \<Longrightarrow> number_end rest \<Longrightarrow>
     \<exists>t r. scan False (bs @ rest) = (t, r) \<and> t \<noteq> End_array
       \<and> sax_parse_internal (Next t) r stack = sax_parse_internal (Value v) rest stack"
  unfolding reads_value_def by blast

lemma reads_elements_single: "reads_value bs v \<Longrightarrow> reads_elements bs [v]"
  unfolding reads_elements_def
proof (intro allI)
  fix rest acc stack
  assume "reads_value bs v"
  then obtain t r where "scan False (bs @ 0x5D # rest) = (t, r)" "t \<noteq> End_array"
    "sax_parse_internal (Next t) r (Array_frame acc # stack) = sax_parse_internal (Value v) (0x5D # rest) (Array_frame acc # stack)"
    using reads_valueD [where rest = "0x5D # rest" and stack = "Array_frame acc # stack"] by fastforce
  then show "\<exists>t r. scan False (bs @ 0x5D # rest) = (t, r) \<and> t \<noteq> End_array
      \<and> sax_parse_internal (Next t) r (Array_frame acc # stack) = sax_parse_internal (Value (JArr (acc @ [v]))) rest stack"
    by (intro exI [of _ t] exI [of _ r]) (simp add: sax_parse_internal.simps(3))
qed

lemma reads_elements_Cons:
  assumes v: "reads_value bs v" and vs: "reads_elements bs' vs"
  shows "reads_elements (bs @ [0x2C] @ bs') (v # vs)"
  unfolding reads_elements_def
proof (intro allI)
  fix rest acc stack
  obtain t r where t: "scan False (bs @ 0x2C # bs' @ 0x5D # rest) = (t, r)" "t \<noteq> End_array"
    "sax_parse_internal (Next t) r (Array_frame acc # stack)
      = sax_parse_internal (Value v) (0x2C # bs' @ 0x5D # rest) (Array_frame acc # stack)"
    using reads_valueD [OF v, where rest = "0x2C # bs' @ 0x5D # rest" and stack = "Array_frame acc # stack"] by fastforce
  from vs obtain t' r' where t': "scan False (bs' @ 0x5D # rest) = (t', r')"
    "sax_parse_internal (Next t') r' (Array_frame (acc @ [v]) # stack)
      = sax_parse_internal (Value (JArr ((acc @ [v]) @ vs))) rest stack"
    unfolding reads_elements_def by blast
  have "sax_parse_internal (Value v) (0x2C # bs' @ 0x5D # rest) (Array_frame acc # stack)
      = sax_parse_internal (Next t') r' (Array_frame (acc @ [v]) # stack)"
    using t'(1) by (simp add: sax_parse_internal.simps(3))
  with t t' show "\<exists>t r. scan False ((bs @ [0x2C] @ bs') @ 0x5D # rest) = (t, r) \<and> t \<noteq> End_array
      \<and> sax_parse_internal (Next t) r (Array_frame acc # stack) = sax_parse_internal (Value (JArr (acc @ v # vs))) rest stack"
    by (intro exI [of _ t] exI [of _ r]) simp
qed

lemma reads_array: "reads_elements bs vs \<Longrightarrow> reads_value ([0x5B] @ bs @ [0x5D]) (JArr vs)"
  unfolding reads_value_def
proof (intro allI impI)
  fix rest stack
  assume "reads_elements bs vs"
  then obtain t r where "scan False (bs @ 0x5D # rest) = (t, r)" "t \<noteq> End_array"
    "sax_parse_internal (Next t) r (Array_frame [] # stack) = sax_parse_internal (Value (JArr ([] @ vs))) rest stack"
    unfolding reads_elements_def by blast
  then show "\<exists>t r. scan False (([0x5B] @ bs @ [0x5D]) @ rest) = (t, r) \<and> t \<noteq> End_array
      \<and> sax_parse_internal (Next t) r stack = sax_parse_internal (Value (JArr vs)) rest stack"
    by (intro exI [of _ Begin_array] exI [of _ "bs @ 0x5D # rest"]) (simp add: sax_parse_internal.simps(1))
qed

text \<open>A member: the key, the colon and the value.\<close>

lemma reads_member_key:
  assumes k: "dump_string k = Inr kb" "utf8_ok (bytes_of k)"
  shows "scan False (kb @ 0x3A # inp) = (Value_string (bytes_of k), 0x3A # inp)"
    and "object_key (Value_string (bytes_of k)) (0x3A # inp) = Some (k, inp)"
proof -
  obtain bs where "dump_string k = Inr bs" "\<And>rest. scan False (bs @ rest) = (Value_string (bytes_of k), rest)"
    by (rule dump_string_reads [OF k(2)]) blast
  then show "scan False (kb @ 0x3A # inp) = (Value_string (bytes_of k), 0x3A # inp)" using k(1) by simp
  show "object_key (Value_string (bytes_of k)) (0x3A # inp) = Some (k, inp)" by (simp add: object_key_def)
qed

lemma reads_members_single:
  assumes k: "dump_string k = Inr kb" "utf8_ok (bytes_of k)" and v: "reads_value bs v"
  shows "reads_members (kb @ [0x3A] @ bs) [(k, v)]"
  unfolding reads_members_def
proof (intro allI)
  fix rest acc stack
  obtain t r where t: "scan False (bs @ 0x7D # rest) = (t, r)"
    "sax_parse_internal (Next t) r (Object_frame acc k # stack) = sax_parse_internal (Value v) (0x7D # rest) (Object_frame acc k # stack)"
    using reads_valueD [OF v, where rest = "0x7D # rest" and stack = "Object_frame acc k # stack"] by fastforce
  moreover have "sax_parse_internal (Value v) (0x7D # rest) (Object_frame acc k # stack)
      = sax_parse_internal (Value (JObj (member_put k v acc))) rest stack"
    by (simp add: sax_parse_internal.simps(4))
  ultimately show "\<exists>t r k' r2 t3 r3. scan False ((kb @ [0x3A] @ bs) @ 0x7D # rest) = (t, r) \<and> t \<noteq> End_object
      \<and> object_key t r = Some (k', r2) \<and> scan False r2 = (t3, r3)
      \<and> sax_parse_internal (Next t3) r3 (Object_frame acc k' # stack)
         = sax_parse_internal (Value (JObj (fold (\<lambda>(k, v). member_put k v) [(k, v)] acc))) rest stack"
    using reads_member_key [OF k, of "bs @ 0x7D # rest"]
    by (intro exI [of _ "Value_string (bytes_of k)"] exI [of _ "0x3A # bs @ 0x7D # rest"] exI [of _ k]
        exI [of _ "bs @ 0x7D # rest"] exI [of _ t] exI [of _ r]) simp
qed

lemma reads_members_Cons:
  assumes k: "dump_string k = Inr kb" "utf8_ok (bytes_of k)" and v: "reads_value bs v" and ms: "reads_members bs' ms"
  shows "reads_members ((kb @ [0x3A] @ bs) @ [0x2C] @ bs') ((k, v) # ms)"
  unfolding reads_members_def
proof (intro allI)
  fix rest acc stack
  let ?rest = "0x2C # bs' @ 0x7D # rest"
  obtain t r where t: "scan False (bs @ ?rest) = (t, r)"
    "sax_parse_internal (Next t) r (Object_frame acc k # stack) = sax_parse_internal (Value v) ?rest (Object_frame acc k # stack)"
    using reads_valueD [OF v, where rest = ?rest and stack = "Object_frame acc k # stack"] by fastforce
  from ms obtain t1 r1 k' r2 t3 r3 where m: "scan False (bs' @ 0x7D # rest) = (t1, r1)" "t1 \<noteq> End_object"
    "object_key t1 r1 = Some (k', r2)" "scan False r2 = (t3, r3)"
    "sax_parse_internal (Next t3) r3 (Object_frame (member_put k v acc) k' # stack)
       = sax_parse_internal (Value (JObj (fold (\<lambda>(k, v). member_put k v) ms (member_put k v acc)))) rest stack"
    unfolding reads_members_def by blast
  have "sax_parse_internal (Value v) ?rest (Object_frame acc k # stack)
      = sax_parse_internal (Next t3) r3 (Object_frame (member_put k v acc) k' # stack)"
    using m(1,3,4) by (simp add: sax_parse_internal.simps(4))
  with t m show "\<exists>t r k' r2 t3 r3. scan False (((kb @ [0x3A] @ bs) @ [0x2C] @ bs') @ 0x7D # rest) = (t, r) \<and> t \<noteq> End_object
      \<and> object_key t r = Some (k', r2) \<and> scan False r2 = (t3, r3)
      \<and> sax_parse_internal (Next t3) r3 (Object_frame acc k' # stack)
         = sax_parse_internal (Value (JObj (fold (\<lambda>(k, v). member_put k v) ((k, v) # ms) acc))) rest stack"
    using reads_member_key [OF k, of "bs @ ?rest"]
    by (intro exI [of _ "Value_string (bytes_of k)"] exI [of _ "0x3A # bs @ ?rest"] exI [of _ k]
        exI [of _ "bs @ ?rest"] exI [of _ t] exI [of _ r]) simp
qed

lemma reads_object:
  assumes "reads_members bs ms"
  shows "reads_value ([0x7B] @ bs @ [0x7D]) (JObj (fold (\<lambda>(k, v). member_put k v) ms []))"
  unfolding reads_value_def
proof (intro allI impI)
  fix rest stack
  from assms obtain t r k r2 t3 r3 where "scan False (bs @ 0x7D # rest) = (t, r)" "t \<noteq> End_object"
    "object_key t r = Some (k, r2)" "scan False r2 = (t3, r3)"
    "sax_parse_internal (Next t3) r3 (Object_frame [] k # stack)
       = sax_parse_internal (Value (JObj (fold (\<lambda>(k, v). member_put k v) ms []))) rest stack"
    unfolding reads_members_def by blast
  then show "\<exists>t r. scan False (([0x7B] @ bs @ [0x7D]) @ rest) = (t, r) \<and> t \<noteq> End_array
      \<and> sax_parse_internal (Next t) r stack = sax_parse_internal (Value (JObj (fold (\<lambda>(k, v). member_put k v) ms []))) rest stack"
    by (intro exI [of _ Begin_object] exI [of _ "bs @ 0x7D # rest"]) (simp add: sax_parse_internal.simps(1))
qed

lemma reads_empty: "reads_value [0x5B, 0x5D] (JArr [])" "reads_value [0x7B, 0x7D] (JObj [])"
  by (simp_all add: reads_value_def sax_parse_internal.simps(1))

subsection \<open>The round trip\<close>

definition norm_member :: "string \<times> json \<Rightarrow> string \<times> json" where
  "norm_member m = (fst m, norm_value (snd m))"

definition member_ok :: "string \<times> json \<Rightarrow> bool" where
  "member_ok m \<longleftrightarrow> utf8_ok (bytes_of (fst m)) \<and> json_ok (snd m)"

lemma norm_member_Pair: "norm_member (k, v) = (k, norm_value v)"
  by (simp add: norm_member_def)

lemma norm_value_JObj: "norm_value (JObj ms) = JObj (map norm_member ms)"
  by (simp add: norm_member_def case_prod_unfold)

lemma json_ok_JObj: "json_ok (JObj ms) \<longleftrightarrow> sorted_wrt key_less (map fst ms) \<and> list_all member_ok ms"
  by (auto simp: member_ok_def list_all_iff)

lemma fold_norm_members:
  assumes "sorted_wrt key_less (map fst ms)"
  shows "fold (\<lambda>(k, v). member_put k v) (map norm_member ms) [] = map norm_member ms"
  using fold_member_put_sorted [of "[]" ms norm_value] assms
  by (simp add: fold_map norm_member_def case_prod_unfold o_def)

lemma dump_reads:
  assumes floats: "\<And>neg m e. double_ok (m, e) \<Longrightarrow>
      \<exists>bs. dump_float neg (m, e) = Inr bs \<and> reads_scalar bs (JFloat neg m e)"
  shows "json_ok v \<Longrightarrow> \<exists>bs. dump v = Inr bs \<and> reads_value bs (norm_value v)"
    and "vs \<noteq> [] \<Longrightarrow> \<forall>v\<in>set vs. json_ok v \<Longrightarrow> \<exists>bs. dump_elements vs = Inr bs \<and> reads_elements bs (map norm_value vs)"
    and "ms \<noteq> [] \<Longrightarrow> list_all member_ok ms \<Longrightarrow> \<exists>bs. dump_members ms = Inr bs \<and> reads_members bs (map norm_member ms)"
proof (induction v and vs and ms rule: dump_dump_elements_dump_members.induct)
  case 1
  then show ?case using reads_literals(1) by (simp add: reads_scalar_value)
next
  case (2 b)
  then show ?case using reads_literals(2,3) by (simp add: reads_scalar_value)
next
  case (3 i)
  then show ?case using reads_integer [of i] by (auto simp: reads_scalar_value)
next
  case (4 n)
  then show ?case using reads_integer [of "int n"] by (auto simp: reads_scalar_value)
next
  case (5 neg m e)
  then show ?case using floats [of m e neg] by (auto simp: reads_scalar_value)
next
  case (6 s)
  then obtain bs where "dump_string s = Inr bs" "\<And>rest. scan False (bs @ rest) = (Value_string (bytes_of s), rest)"
    by (auto elim: dump_string_reads)
  then show ?case by (auto intro!: reads_scalar_value simp: reads_scalar_def)
next
  case (7 vs)
  then show ?case by (cases "vs = []") (auto simp: reads_empty dest: reads_array)
next
  case (8 ms)
  show ?case
  proof (cases "ms = []")
    case False
    with 8 obtain bs where "dump_members ms = Inr bs" "reads_members bs (map norm_member ms)"
      by (auto simp only: json_ok_JObj)
    then show ?thesis
      using False reads_object [of bs "map norm_member ms"] fold_norm_members [of ms] "8.prems"
      by (simp add: norm_value_JObj json_ok_JObj del: norm_value.simps json_ok.simps)
  qed (simp add: reads_empty)
next
  case (10 v vs)
  then obtain b where b: "dump v = Inr b" "reads_value b (norm_value v)" by auto
  show ?case
  proof (cases "vs = []")
    case False
    with 10 obtain b' where "dump_elements vs = Inr b'" "reads_elements b' (map norm_value vs)" by auto
    with b False reads_elements_Cons show ?thesis by auto
  qed (use b reads_elements_single in auto)
next
  case (12 k v ms)
  from "12.prems" have k: "utf8_ok (bytes_of k)" and v: "json_ok v" by (simp_all add: member_ok_def)
  from k obtain kb where kb: "dump_string k = Inr kb" by (auto elim: dump_string_reads)
  show ?case
  proof (cases "ms = []")
    case True
    with "12.IH"(1) v obtain b where "dump v = Inr b" "reads_value b (norm_value v)" by auto
    with True kb reads_members_single [OF kb k] show ?thesis by (auto simp: norm_member_Pair)
  next
    case False
    with "12.IH"(2) v obtain b where b: "dump v = Inr b" "reads_value b (norm_value v)" by auto
    from False "12.IH"(3) "12.prems" obtain b' where "dump_members ms = Inr b'" "reads_members b' (map norm_member ms)" by auto
    with False kb b reads_members_Cons [OF kb k b(2)] show ?thesis by (auto simp: norm_member_Pair)
  qed
qed simp_all

end
