(* ===== verification/DoubleRounding.thy ===== *)
theory DoubleRounding
  imports JsonText
begin

text \<open>
  The correctly rounded conversion of \<^verbatim>\<open>strtod\<close>: its result is a double in canonical
  form, and a rational number strictly between the midpoints around a double rounds to it.
\<close>

section \<open>Definitions\<close>

definition ulp_exponent :: "nat \<Rightarrow> nat \<Rightarrow> int" where
  "ulp_exponent n d = min (52 - ratio_log2 n d) 1074"

definition significand :: "nat \<Rightarrow> nat \<Rightarrow> nat" where
  "significand n d =
     round_half_even (n * 2 ^ nat (ulp_exponent n d)) (d * 2 ^ nat (- ulp_exponent n d))"

text \<open>The midpoints below and above a positive double.\<close>

definition upper_midpoint :: "double \<Rightarrow> real" where
  "upper_midpoint x = (case x of (m, e) \<Rightarrow> (2 * real m + 1) * 2 powi (e - 1))"

definition lower_midpoint :: "double \<Rightarrow> real" where
  "lower_midpoint x = (case x of (m, e) \<Rightarrow>
     if m = 2 ^ 52 \<and> - 1074 < e then (4 * real m - 1) * 2 powi (e - 2) else (2 * real m - 1) * 2 powi (e - 1))"

section \<open>Lemmas\<close>

subsection \<open>Powers of two with integer exponents\<close>

lemma powi_nat: "2 ^ nat k / 2 ^ nat (- k) = (2 :: real) powi k"
proof (cases "0 \<le> k")
  case False
  then have "nat k = 0" by simp
  with False show ?thesis by (simp only: power_int_def if_False power_0 inverse_eq_divide power_one_over)
qed (simp add: power_int_def)

lemma powi_strict_mono: "(2 :: real) powi a < 2 powi b \<Longrightarrow> a < b"
  using power_int_increasing [of b a "2 :: real"] by (intro not_le_imp_less notI) simp

lemma powi_add: "(2 :: real) powi (a + b) = 2 powi a * 2 powi b"
  by (simp add: power_int_add)

lemma powi_pos [simp]: "0 < (2 :: real) powi a"
  by simp

lemma bit_len_real:
  assumes "0 < n"
  shows "real n < 2 ^ bit_len n" and "2 ^ bit_len n \<le> 2 * real n"
proof -
  have "real n < real (2 ^ bit_len n)" using bit_len_upper of_nat_less_iff by blast
  then show "real n < 2 ^ bit_len n" by simp
  have "real (2 ^ bit_len n) \<le> real (2 * n)" using bit_len_lower [OF assms] of_nat_le_iff by blast
  then show "2 ^ bit_len n \<le> 2 * real n" by simp
qed

lemma ratio_log2_real:
  assumes "0 < n" "0 < d"
  shows "2 powi (ratio_log2 n d) \<le> real n / real d" and "real n / real d < 2 powi (ratio_log2 n d + 1)"
proof -
  let ?L = "ratio_log2 n d"
  define b where "b = int (bit_len n) - int (bit_len d)"
  have "real (d * 2 ^ nat ?L) \<le> real (n * 2 ^ nat (- ?L))"
    using ratio_log2_bound [OF assms] of_nat_le_iff by blast
  then have "2 ^ nat ?L / 2 ^ nat (- ?L) \<le> real n / real d"
    using assms by (simp add: field_simps)
  then show "2 powi ?L \<le> real n / real d" by (simp add: powi_nat)
  show "real n / real d < 2 powi (?L + 1)"
  proof (cases "d * 2 ^ nat b \<le> n * 2 ^ nat (- b)")
    case True
    have "2 ^ bit_len n = 2 powi b * (2 :: real) ^ bit_len d"
      by (simp add: b_def power_int_diff)
    also have "\<dots> \<le> 2 powi b * (2 * real d)" using bit_len_real(2) [OF assms(2)] by simp
    finally have "real n < 2 powi b * (2 * real d)" using bit_len_real(1) [OF assms(1)] by linarith
    then have "real n / real d < 2 powi b * 2" using assms(2) by (simp add: pos_divide_less_eq mult.assoc)
    then show ?thesis
      using True by (simp add: ratio_log2_def b_def [symmetric] powi_add)
  next
    case False
    then have "n * 2 ^ nat (- b) < d * 2 ^ nat b" by simp
    then have "real (n * 2 ^ nat (- b)) < real (d * 2 ^ nat b)" by (simp only: of_nat_less_iff)
    then have "real n / real d < 2 ^ nat b / 2 ^ nat (- b)" using assms by (simp add: field_simps)
    then show ?thesis using False by (simp add: ratio_log2_def b_def [symmetric] powi_nat)
  qed
qed

lemma ratio_log2_eq:
  assumes "0 < n" "0 < d" "2 powi l \<le> real n / real d" "real n / real d < 2 powi (l + 1)"
  shows "ratio_log2 n d = l"
proof -
  note r = ratio_log2_real [OF assms(1,2)]
  have "(2 :: real) powi l < 2 powi (ratio_log2 n d + 1)" using assms(3) r(2) by (rule le_less_trans)
  moreover have "(2 :: real) powi ratio_log2 n d < 2 powi (l + 1)" using r(1) assms(4) by (rule le_less_trans)
  ultimately show ?thesis using powi_strict_mono by (smt (verit))
qed

lemma ratio_log2_less:
  assumes "0 < n" "0 < d" "real n / real d < 2 powi (l + 1)"
  shows "ratio_log2 n d \<le> l"
  using powi_strict_mono [OF le_less_trans [OF ratio_log2_real(1) [OF assms(1,2)] assms(3)]] by simp

subsection \<open>Rounding to an integer\<close>

lemma round_half_even_real:
  assumes "0 < den"
  shows "\<bar>real (round_half_even num den) - real num / real den\<bar> \<le> 1 / 2"
proof -
  let ?m = "round_half_even num den"
  have "real (2 * num) \<le> real (2 * ?m * den + den)" "real (2 * ?m * den) \<le> real (2 * num + den)"
    using round_half_even_bounds [OF assms] of_nat_le_iff by blast+
  then have "2 * real num \<le> 2 * real ?m * real den + real den" "2 * real ?m * real den \<le> 2 * real num + real den"
    by simp_all
  then have "real ?m - real num / real den \<le> 1 / 2" "real num / real den - real ?m \<le> 1 / 2"
    using assms by (simp_all add: field_simps)
  then show ?thesis by linarith
qed

lemma round_half_even_nearest:
  assumes "0 < den" "\<bar>real m - real num / real den\<bar> < 1 / 2"
  shows "round_half_even num den = m"
  using round_half_even_real [OF assms(1), of num] assms(2) by linarith

subsection \<open>Rounding to a double\<close>

text \<open>
  \<open>n / d\<close> in units of the last place \<open>2 powi - k\<close>.
\<close>

lemma scaled_ratio:
  assumes "0 < d"
  shows "real (n * 2 ^ nat k) / real (d * 2 ^ nat (- k)) = real n / real d * 2 powi k"
  by (simp add: powi_nat [symmetric] field_simps)

lemma double_round_significand:
  assumes "0 < n"
  shows "double_round n d =
    (let m = significand n d; k = ulp_exponent n d;
         x = if m = 0 then (0, 0) else if m = 2 ^ 53 then (2 ^ 52, 1 - k) else (m, - k)
     in if snd x \<le> 971 then Some x else None)"
proof -
  have "double_round n d =
    (let k = ulp_exponent n d; m = significand n d;
         (m', e') = if m = 0 then (0, 0) else if m = 2 ^ 53 then (2 ^ 52, 1 - k) else (m, - k)
     in if e' \<le> 971 then Some (m', e') else None)"
    using assms by (simp only: double_round_def significand_def ulp_exponent_def Let_def if_False less_not_refl2)
  then show ?thesis by (cases "significand n d = 0"; cases "significand n d = 2 ^ 53") (simp_all add: Let_def)
qed

lemma significand_real:
  assumes "0 < d"
  shows "\<bar>real (significand n d) - real n / real d * 2 powi ulp_exponent n d\<bar> \<le> 1 / 2"
proof -
  have "0 < d * 2 ^ nat (- ulp_exponent n d)" using assms by simp
  from round_half_even_real [OF this] show ?thesis unfolding significand_def scaled_ratio [OF assms, symmetric] .
qed

lemma significand_nearest:
  assumes "0 < d" "\<bar>real m - real n / real d * 2 powi ulp_exponent n d\<bar> < 1 / 2"
  shows "significand n d = m"
  using significand_real [OF assms(1), of n] assms(2) by linarith

lemma scaled_upper:
  assumes "0 < n" "0 < d"
  shows "real n / real d * 2 powi ulp_exponent n d < 2 ^ 53"
proof -
  let ?L = "ratio_log2 n d"
  have "real n / real d * 2 powi ulp_exponent n d < 2 powi (?L + 1) * 2 powi ulp_exponent n d"
    using ratio_log2_real(2) [OF assms] by (intro mult_strict_right_mono) simp_all
  also have "\<dots> = 2 powi (?L + 1 + ulp_exponent n d)" by (simp add: powi_add)
  also have "\<dots> \<le> 2 powi 53" by (rule power_int_increasing) (simp_all add: ulp_exponent_def)
  finally show ?thesis by simp
qed

lemma scaled_lower:
  assumes "0 < n" "0 < d" "52 - ratio_log2 n d \<le> 1074"
  shows "2 ^ 52 \<le> real n / real d * 2 powi ulp_exponent n d"
proof -
  let ?L = "ratio_log2 n d"
  have "(2 :: real) ^ 52 = 2 powi ?L * 2 powi ulp_exponent n d"
    using assms(3) by (simp add: ulp_exponent_def flip: powi_add)
  also have "\<dots> \<le> real n / real d * 2 powi ulp_exponent n d"
    using ratio_log2_real(1) [OF assms(1,2)] by (intro mult_right_mono) simp_all
  finally show ?thesis .
qed

lemma double_round_ok:
  assumes "0 < d" "double_round n d = Some x"
  shows "double_ok x"
proof (cases "n = 0")
  case True
  with assms(2) show ?thesis by (auto simp: double_round_def double_ok_def)
next
  case False
  then have n: "0 < n" by simp
  let ?m = "significand n d" and ?k = "ulp_exponent n d"
  have "real ?m < 2 ^ 53 + 1" using significand_real [OF assms(1), of n] scaled_upper [OF n assms(1)] by linarith
  then have "real ?m < real (2 ^ 53 + 1)" by simp
  then have hi: "?m \<le> 2 ^ 53" by (simp only: of_nat_less_iff)
  have k: "?k \<le> 1074" by (simp add: ulp_exponent_def)
  have lo: "2 ^ 52 \<le> ?m \<or> ?k = 1074"
  proof (cases "52 - ratio_log2 n d \<le> 1074")
    case True
    from scaled_lower [OF n assms(1) True] significand_real [OF assms(1), of n]
    have "2 ^ 52 < real ?m + 1" by linarith
    then have "real (2 ^ 52) < real (?m + 1)" by simp
    then have "2 ^ 52 < ?m + 1" by (simp only: of_nat_less_iff)
    then show ?thesis by simp
  qed (simp add: ulp_exponent_def)
  from assms(2) n consider "?m = 0" "x = (0, 0)" | "?m = 2 ^ 53" "x = (2 ^ 52, 1 - ?k)" "1 - ?k \<le> 971"
    | "?m \<noteq> 0" "?m \<noteq> 2 ^ 53" "x = (?m, - ?k)" "- ?k \<le> 971"
    by (auto simp: double_round_significand Let_def split: if_splits)
  then show ?thesis
  proof cases
    case 3
    then show ?thesis using hi lo k by (auto simp: double_ok_def)
  qed (use k in \<open>auto simp: double_ok_def\<close>)
qed

lemma midpoints_scaled:
  "upper_midpoint (m, e) = (real m + 1 / 2) * 2 powi e"
  "\<not> (m = 2 ^ 52 \<and> - 1074 < e) \<Longrightarrow> lower_midpoint (m, e) = (real m - 1 / 2) * 2 powi e"
  "m = 2 ^ 52 \<Longrightarrow> - 1074 < e \<Longrightarrow> lower_midpoint (m, e) = (2 ^ 53 - 1 / 2) * 2 powi (e - 1)"
proof -
  have e: "(2 :: real) powi e = 2 powi (e - 1) * 2" "(2 :: real) powi (e - 1) = 2 powi (e - 2) * 2"
    using powi_add [of "e - 1" 1] powi_add [of "e - 2" 1] by simp_all
  show "upper_midpoint (m, e) = (real m + 1 / 2) * 2 powi e"
    unfolding e(1) upper_midpoint_def by (simp add: algebra_simps)
  show "lower_midpoint (m, e) = (real m - 1 / 2) * 2 powi e" if "\<not> (m = 2 ^ 52 \<and> - 1074 < e)"
    unfolding e(1) lower_midpoint_def by (simp only: prod.case that if_False) (simp add: algebra_simps)
  show "m = 2 ^ 52 \<Longrightarrow> - 1074 < e \<Longrightarrow> lower_midpoint (m, e) = (2 ^ 53 - 1 / 2) * 2 powi (e - 1)"
    unfolding e(2) lower_midpoint_def by simp
qed

lemma less_scaled: "a < b * 2 powi e \<longleftrightarrow> a * 2 powi (- e) < (b :: real)"
  and scaled_less: "b * 2 powi e < a \<longleftrightarrow> b < a * 2 powi (- e)"
  and scaled_le: "b * 2 powi e \<le> a \<longleftrightarrow> b \<le> a * 2 powi (- e)"
  by (simp_all add: power_int_minus field_simps)

lemma double_round_nearest:
  assumes ok: "double_ok (m, e)" "0 < m" and d: "0 < d"
    and lo: "lower_midpoint (m, e) < real n / real d" and hi: "real n / real d < upper_midpoint (m, e)"
  shows "double_round n d = Some (m, e)"
proof -
  let ?V = "real n / real d"
  have e: "- 1074 \<le> e" "e \<le> 971" "m < 2 ^ 53" "e = - 1074 \<or> 2 ^ 52 \<le> m" using ok by (auto simp: double_ok_def)
  have V0: "0 < ?V"
  proof -
    have "0 < lower_midpoint (m, e)"
      using ok(2) midpoints_scaled(2,3) [of m e] by (cases "m = 2 ^ 52 \<and> - 1074 < e") (auto simp: lower_midpoint_def)
    with lo show ?thesis by linarith
  qed
  then have n: "0 < n" by (cases "n = 0") simp_all
  have hi': "?V * 2 powi (- e) < real m + 1 / 2"
    using hi unfolding midpoints_scaled(1) less_scaled .
  show ?thesis
  proof (cases "m = 2 ^ 52 \<and> - 1074 < e \<and> ?V < 2 ^ 52 * 2 powi e")
    case True
    have l: "(2 ^ 53 - 1 / 2) * 2 powi (e - 1) < ?V" using lo midpoints_scaled(3) [of m e] True by metis
    have "(2 :: real) powi (51 + e) = 2 ^ 52 * 2 powi (e - 1)"
      using powi_add [of 52 "e - 1"] by (simp add: algebra_simps)
    also have "\<dots> \<le> (2 ^ 53 - 1 / 2) * 2 powi (e - 1)" by (intro mult_right_mono) simp_all
    finally have "2 powi (51 + e) \<le> ?V" using l by linarith
    moreover have "?V < 2 powi (51 + e + 1)" using True powi_add [of 52 e] by (simp add: algebra_simps)
    ultimately have "ratio_log2 n d = 51 + e" using ratio_log2_eq n d by blast
    then have k: "ulp_exponent n d = 1 - e" using True by (simp add: ulp_exponent_def)
    have "2 ^ 53 - 1 / 2 < ?V * 2 powi (1 - e)" using l unfolding scaled_less by simp
    moreover have "?V * 2 powi (1 - e) < 2 ^ 53"
    proof -
      have "?V * 2 powi (1 - e) < 2 ^ 52 * 2 powi e * 2 powi (1 - e)"
        using True by (intro mult_strict_right_mono) simp_all
      also have "\<dots> = 2 ^ 53" by (simp add: mult.assoc flip: powi_add)
      finally show ?thesis .
    qed
    ultimately have "\<bar>real (2 ^ 53) - ?V * 2 powi ulp_exponent n d\<bar> < 1 / 2"
      unfolding k by simp
    then have "significand n d = 2 ^ 53" by (rule significand_nearest [OF d])
    then show ?thesis using True e by (simp add: double_round_significand [OF n] Let_def k)
  next
    case False
    have lo': "real m - 1 / 2 < ?V * 2 powi (- e)"
    proof (cases "m = 2 ^ 52 \<and> - 1074 < e")
      case True
      with False have "real m * 2 powi e \<le> ?V" by simp
      then show ?thesis unfolding scaled_le by linarith
    next
      case False
      from lo show ?thesis unfolding midpoints_scaled(2) [OF False] scaled_less .
    qed
    have up: "?V < 2 powi (e + 53)"
    proof -
      have "real (m + 1) \<le> real (2 ^ 53)" using e(3) by (simp only: of_nat_le_iff)
      then have "?V * 2 powi (- e) < 2 ^ 53" using hi' by simp
      then show ?thesis using less_scaled [of ?V "2 ^ 53" e] powi_add [of 53 e] by (simp add: add.commute)
    qed
    have k: "ulp_exponent n d = - e"
    proof (cases "e = - 1074")
      case True
      have "ratio_log2 n d \<le> - 1022" using ratio_log2_less [OF n d, of "- 1022"] up True by simp
      then show ?thesis using True by (simp add: ulp_exponent_def)
    next
      case e': False
      then have "2 ^ 52 \<le> m" using e by simp
      have "2 ^ 52 \<le> ?V * 2 powi (- e)"
      proof (cases "m = 2 ^ 52")
        case True
        with False e' e(1) have "2 ^ 52 * 2 powi e \<le> ?V" by simp
        then show ?thesis unfolding scaled_le .
      next
        case False
        with \<open>2 ^ 52 \<le> m\<close> have "real (2 ^ 52 + 1) \<le> real m" by (simp only: of_nat_le_iff)
        then show ?thesis using lo' by simp
      qed
      then have "2 powi (52 + e) \<le> ?V" using scaled_le [of "2 ^ 52" e ?V] powi_add [of 52 e] by simp
      moreover have "?V < 2 powi (52 + e + 1)" using up by (simp add: add.commute)
      ultimately have "ratio_log2 n d = 52 + e" using ratio_log2_eq n d by blast
      then show ?thesis using e(1) by (simp add: ulp_exponent_def)
    qed
    have "significand n d = m" by (rule significand_nearest [OF d]) (use lo' hi' in \<open>unfold k abs_less_iff, linarith\<close>)
    then show ?thesis using ok(2) e by (simp add: double_round_significand [OF n] Let_def k)
  qed
qed

end
