(* ===== verification/CachedPowers.thy ===== *)
theory CachedPowers
  imports DoubleRounding
begin

text \<open>
  The table of \<^verbatim>\<open>get_cached_power_for_binary_exponent\<close>: every entry is a 64-bit
  significand within half a unit of its power of ten, and for every binary exponent a double
  can have the entry chosen brings the product into the range the digit generator needs.
\<close>

section \<open>Definitions\<close>

text \<open>
  The checks for the entries with positive and, in reverse order, with negative decimal
  exponent; \<open>p\<close> is the power of five of the entry at hand.
\<close>

fun check_positive :: "int \<Rightarrow> int \<Rightarrow> (nat \<times> int \<times> int) list \<Rightarrow> bool" where
  "check_positive c p [] = True"
| "check_positive c p ((f, e, k) # es) =
     (k = c \<and> 2 ^ 63 \<le> f \<and> f < 2 ^ 64
      \<and> (if k \<le> e then \<bar>2 * (int f * 2 ^ nat (e - k)) - 2 * p\<bar> \<le> 2 ^ nat (e - k)
         else \<bar>2 * int f - 2 * (p * 2 ^ nat (k - e))\<bar> \<le> 1)
      \<and> check_positive (c + 8) (p * 390625) es)"

fun check_negative :: "int \<Rightarrow> int \<Rightarrow> (nat \<times> int \<times> int) list \<Rightarrow> bool" where
  "check_negative c p [] = True"
| "check_negative c p ((f, e, k) # es) =
     (k = c \<and> 2 ^ 63 \<le> f \<and> f < 2 ^ 64
      \<and> e \<le> k \<and> \<bar>2 * (int f * p) - 2 * 2 ^ nat (k - e)\<bar> \<le> p
      \<and> check_negative (c - 8) (p * 390625) es)"

definition table_index :: "int \<Rightarrow> int" where
  "table_index e =
     (let f = - 60 - e - 1; k = trunc_quot (f * 78913) (2 ^ 18) + (if 0 < f then 1 else 0)
      in trunc_quot (300 + k + (8 - 1)) 8)"

text \<open>
  The binary exponents from the smallest to the largest for which an entry is chosen:
  \<open>hi\<close> is the largest for the entry at hand, the list \<open>los\<close> holds the smallest ones.
\<close>

definition first_exponents :: "int list" where
  "first_exponents =
    [936, 910, 883, 856, 830, 803, 777, 750, 723, 697, 670, 644,
     617, 591, 564, 537, 511, 484, 458, 431, 405, 378, 351, 325,
     298, 272, 245, 219, 192, 165, 139, 112, 86, 59, 33, 6,
     - 21, - 47, - 74, - 100, - 127, - 154, - 180, - 207, - 233, - 260, - 286, - 313,
     - 340, - 366, - 393, - 419, - 446, - 472, - 499, - 526, - 552, - 579, - 605, - 632,
     - 658, - 685, - 712, - 738, - 765, - 791, - 818, - 844, - 871, - 898, - 924, - 951,
     - 977, - 1004, - 1031, - 1057, - 1084, - 1110, - 1137]"

fun check_exponents :: "int \<Rightarrow> int \<Rightarrow> int list \<Rightarrow> (nat \<times> int \<times> int) list \<Rightarrow> bool" where
  "check_exponents hi i [] es = (hi < - 1137)"
| "check_exponents hi i (lo # los) [] = False"
| "check_exponents hi i (lo # los) ((f, c, k) # es) =
     (table_index lo = i \<and> table_index hi = i \<and> - 60 \<le> c + lo + 64 \<and> c + hi + 64 \<le> - 32
      \<and> check_exponents (lo - 1) (i + 1) los es)"

definition approximates :: "nat \<Rightarrow> int \<Rightarrow> int \<Rightarrow> bool" where
  "approximates f e k \<longleftrightarrow> 2 ^ 63 \<le> f \<and> f < 2 ^ 64 \<and> \<bar>real f * 2 powi e - 10 powi k\<bar> \<le> 2 powi e / 2"

section \<open>Lemmas\<close>

subsection \<open>Accuracy of the entries\<close>

text \<open>The table in six pieces, to keep the numbers of each check small.\<close>

lemma table_pieces:
  "kCachedPowers =
     take 9 kCachedPowers @ take 11 (drop 9 kCachedPowers) @ take 18 (drop 20 kCachedPowers)
     @ take 20 (drop 38 kCachedPowers) @ take 12 (drop 58 kCachedPowers) @ drop 70 kCachedPowers"
  by (simp add: kCachedPowers_def)

lemma check_pieces_positive:
  "check_positive 4 (5 ^ nat 4) (take 20 (drop 38 kCachedPowers))"
  "check_positive 164 (5 ^ nat 164) (take 12 (drop 58 kCachedPowers))"
  by (simp_all add: kCachedPowers_def)

lemma check_piece_largest: "check_positive 260 (5 ^ nat 260) (drop 70 kCachedPowers)"
  by (simp add: kCachedPowers_def)

lemma check_pieces_negative:
  "check_negative (- 4) (5 ^ nat 4) (rev (take 18 (drop 20 kCachedPowers)))"
  "check_negative (- 148) (5 ^ nat 148) (rev (take 11 (drop 9 kCachedPowers)))"
  by (simp_all add: kCachedPowers_def)

lemma check_piece_smallest: "check_negative (- 236) (5 ^ nat 236) (rev (take 9 kCachedPowers))"
  by (simp add: kCachedPowers_def)

lemma ten_powi: "(10 :: real) powi k = 5 powi k * 2 powi k"
  using power_int_mult_distrib [of "5 :: real" 2 k] by simp

lemma int_abs_real: "\<bar>a - b\<bar> \<le> (c :: int) \<Longrightarrow> \<bar>real_of_int a - real_of_int b\<bar> \<le> real_of_int c"
  by linarith

lemma abs_scale: "\<bar>x\<bar> \<le> c \<Longrightarrow> 0 \<le> u \<Longrightarrow> \<bar>x * u\<bar> \<le> c * (u :: real)"
  by (simp add: abs_mult mult_right_mono)

lemma abs_half: "\<bar>2 * a - 2 * b\<bar> \<le> c \<Longrightarrow> \<bar>a - b\<bar> \<le> c / (2 :: real)"
  by linarith

lemma positive_entry:
  assumes "0 \<le> k" "p = 5 ^ nat k"
    and "if k \<le> e then \<bar>2 * (int f * 2 ^ nat (e - k)) - 2 * p\<bar> \<le> 2 ^ nat (e - k)
         else \<bar>2 * int f - 2 * (p * 2 ^ nat (k - e))\<bar> \<le> 1"
  shows "\<bar>real f * 2 powi e - 10 powi k\<bar> \<le> 2 powi e / 2"
proof -
  have p: "real_of_int p = 5 powi k" using assms(1,2) by (simp add: power_int_def)
  show ?thesis
  proof (cases "k \<le> e")
    case True
    then have t: "(2 :: real) ^ nat (e - k) = 2 powi (e - k)" by (simp add: power_int_def)
    from assms(3) True have "\<bar>2 * (int f * 2 ^ nat (e - k)) - 2 * p\<bar> \<le> 2 ^ nat (e - k)" by simp
    from int_abs_real [OF this] have "\<bar>2 * (real f * 2 powi (e - k)) - 2 * 5 powi k\<bar> \<le> 2 powi (e - k)"
      by (simp add: p t)
    then have "\<bar>(2 * (real f * 2 powi (e - k)) - 2 * 5 powi k) * 2 powi k\<bar> \<le> 2 powi (e - k) * 2 powi k"
      by (rule abs_scale) simp
    also have "(2 * (real f * 2 powi (e - k)) - 2 * 5 powi k) * 2 powi k
        = 2 * (real f * (2 powi (e - k) * 2 powi k)) - 2 * (5 powi k * 2 powi k)"
      by (simp add: algebra_simps)
    finally have "\<bar>2 * (real f * 2 powi e) - 2 * 10 powi k\<bar> \<le> 2 powi e" by (simp add: ten_powi flip: powi_add)
    then show ?thesis by (rule abs_half)
  next
    case False
    then have t: "(2 :: real) ^ nat (k - e) = 2 powi (k - e)" by (simp add: power_int_def)
    from assms(3) False have "\<bar>2 * int f - 2 * (p * 2 ^ nat (k - e))\<bar> \<le> 1" by simp
    from int_abs_real [OF this] have "\<bar>2 * real f - 2 * (5 powi k * 2 powi (k - e))\<bar> \<le> 1"
      by (simp add: p t)
    then have "\<bar>(2 * real f - 2 * (5 powi k * 2 powi (k - e))) * 2 powi e\<bar> \<le> 1 * 2 powi e"
      by (rule abs_scale) simp
    also have "(2 * real f - 2 * (5 powi k * 2 powi (k - e))) * 2 powi e
        = 2 * (real f * 2 powi e) - 2 * (5 powi k * (2 powi (k - e) * 2 powi e))"
      by (simp add: algebra_simps)
    finally have "\<bar>2 * (real f * 2 powi e) - 2 * 10 powi k\<bar> \<le> 2 powi e" by (simp add: ten_powi flip: powi_add)
    then show ?thesis by (rule abs_half)
  qed
qed

lemma negative_entry:
  assumes "k \<le> 0" "p = 5 ^ nat (- k)" "e \<le> k" "\<bar>2 * (int f * p) - 2 * 2 ^ nat (k - e)\<bar> \<le> p"
  shows "\<bar>real f * 2 powi e - 10 powi k\<bar> \<le> 2 powi e / 2"
proof -
  have p: "real_of_int p = 5 powi (- k)" using assms(1,2) by (simp add: power_int_def)
  have t: "(2 :: real) ^ nat (k - e) = 2 powi (k - e)" using assms(3) by (simp add: power_int_def)
  have five: "(5 :: real) powi (- k) * 5 powi k = 1" by (simp flip: power_int_add)
  have u: "0 \<le> (5 :: real) powi k * 2 powi e" by simp
  from int_abs_real [OF assms(4)] have "\<bar>2 * (real f * 5 powi (- k)) - 2 * 2 powi (k - e)\<bar> \<le> 5 powi (- k)"
    by (simp add: p t)
  then have "\<bar>(2 * (real f * 5 powi (- k)) - 2 * 2 powi (k - e)) * (5 powi k * 2 powi e)\<bar> \<le> 5 powi (- k) * (5 powi k * 2 powi e)"
    using u by (rule abs_scale)
  also have "\<dots> = 2 powi e" using five by (simp only: mult.assoc [symmetric] mult_1)
  also have "(2 * (real f * 5 powi (- k)) - 2 * 2 powi (k - e)) * (5 powi k * 2 powi e)
      = 2 * (real f * (5 powi (- k) * 5 powi k) * 2 powi e) - 2 * (5 powi k * (2 powi (k - e) * 2 powi e))"
    by (simp add: algebra_simps)
  also have "\<dots> = 2 * (real f * 2 powi e) - 2 * 10 powi k" unfolding five by (simp add: ten_powi flip: powi_add)
  finally show ?thesis by (rule abs_half)
qed

lemma check_positive_entries:
  "check_positive c p es \<Longrightarrow> 0 \<le> c \<Longrightarrow> p = 5 ^ nat c \<Longrightarrow> (f, e, k) \<in> set es \<Longrightarrow> approximates f e k"
proof (induction c p es rule: check_positive.induct)
  case (2 c p f' e' k' es)
  have "p * 390625 = 5 ^ nat (c + 8)" using "2.prems"(2,3) by (simp add: nat_add_distrib power_add)
  with 2 positive_entry [of c p e f] show ?case by (auto simp: approximates_def)
qed simp

lemma check_negative_entries:
  "check_negative c p es \<Longrightarrow> c \<le> 0 \<Longrightarrow> p = 5 ^ nat (- c) \<Longrightarrow> (f, e, k) \<in> set es \<Longrightarrow> approximates f e k"
proof (induction c p es rule: check_negative.induct)
  case (2 c p f' e' k' es)
  have "nat (- (c - 8)) = nat (- c) + 8" using "2.prems"(2) by simp
  then have "p * 390625 = 5 ^ nat (- (c - 8))" using "2.prems"(3) by (simp only: power_add) simp
  with 2 negative_entry [of c p e f] show ?case by (auto simp: approximates_def)
qed simp

lemma cached_power_approximates:
  assumes "(f, e, k) \<in> set kCachedPowers"
  shows "approximates f e k"
proof -
  have pos: "check_positive c (5 ^ nat c) es \<Longrightarrow> 0 \<le> c \<Longrightarrow> (f, e, k) \<in> set es \<Longrightarrow> approximates f e k" for c es
    by (rule check_positive_entries [OF _ _ refl])
  have neg: "check_negative (- c) (5 ^ nat c) (rev es) \<Longrightarrow> 0 \<le> c \<Longrightarrow> (f, e, k) \<in> set es \<Longrightarrow> approximates f e k" for c es
    by (rule check_negative_entries [of "- c" "5 ^ nat c" "rev es"]) (simp_all only: set_rev minus_minus neg_le_0_iff_le)
  note pieces = pos [OF check_pieces_positive(1)] pos [OF check_pieces_positive(2)] pos [OF check_piece_largest]
    neg [OF check_pieces_negative(1)] neg [OF check_pieces_negative(2)] neg [OF check_piece_smallest]
  from assms show ?thesis
    by (subst (asm) table_pieces) (unfold set_append Un_iff, elim disjE; rule pieces; assumption?; simp only: zero_le_numeral)
qed

subsection \<open>The entry chosen\<close>

lemma check_exponents_table: "check_exponents 960 0 first_exponents kCachedPowers"
  unfolding first_exponents_def kCachedPowers_def
  by (simp add: table_index_def trunc_quot_def)

lemma trunc_quot_mono:
  assumes "a \<le> b" "0 < c"
  shows "trunc_quot a c \<le> trunc_quot b c"
proof (cases "0 \<le> a \<or> b < 0")
  case True
  then show ?thesis using assms zdiv_mono1 [of a b c] zdiv_mono1 [of "- b" "- a" c] by (auto simp: trunc_quot_def)
next
  case False
  then have "trunc_quot a c \<le> 0" "0 \<le> trunc_quot b c"
    using assms pos_imp_zdiv_nonneg_iff [of c b] pos_imp_zdiv_nonneg_iff [of c "- a"] by (auto simp: trunc_quot_def)
  then show ?thesis by linarith
qed

lemma table_index_antimono: "a \<le> b \<Longrightarrow> table_index b \<le> table_index a"
  unfolding table_index_def Let_def by (intro trunc_quot_mono add_mono) (auto intro: trunc_quot_mono)

lemma check_exponents_index:
  "check_exponents hi i los es \<Longrightarrow> - 1137 \<le> e \<Longrightarrow> e \<le> hi \<Longrightarrow>
     \<exists>j < length es. table_index e = i + int j \<and> (case es ! j of (f, c, k) \<Rightarrow> - 60 \<le> c + e + 64 \<and> c + e + 64 \<le> - 32)"
proof (induction hi i los es rule: check_exponents.induct)
  case (3 hi i lo los f c k es)
  show ?case
  proof (cases "lo \<le> e")
    case True
    then have "table_index e = i"
      using 3 table_index_antimono [of lo e] table_index_antimono [of e hi] by simp
    then show ?thesis using 3 True by (intro exI [of _ 0]) simp
  next
    case False
    with 3 obtain j where "j < length es" "table_index e = (i + 1) + int j"
      "case es ! j of (f, c, k) \<Rightarrow> - 60 \<le> c + e + 64 \<and> c + e + 64 \<le> - 32" by auto
    then show ?thesis by (intro exI [of _ "Suc j"]) simp
  qed
qed simp_all

lemma cached_power_range:
  assumes "- 1137 \<le> e" "e \<le> 960"
  obtains f c k where "get_cached_power_for_binary_exponent e = (f, c, k)" "(f, c, k) \<in> set kCachedPowers"
    "- 60 \<le> c + e + 64" "c + e + 64 \<le> - 32"
proof -
  from check_exponents_index [OF check_exponents_table assms] obtain j where
    j: "j < length kCachedPowers" "table_index e = int j"
    "case kCachedPowers ! j of (f, c, k) \<Rightarrow> - 60 \<le> c + e + 64 \<and> c + e + 64 \<le> - 32" by auto
  have "get_cached_power_for_binary_exponent e = kCachedPowers ! j"
    unfolding get_cached_power_for_binary_exponent_def using j(2) by (simp add: table_index_def Let_def)
  with j that show ?thesis by (cases "kCachedPowers ! j") (force dest: nth_mem)
qed

lemma cached_power_decimal: "(f, c, k) \<in> set kCachedPowers \<Longrightarrow> - 300 \<le> k \<and> k \<le> 324"
proof -
  have "list_all (\<lambda>(f, c, k). - 300 \<le> k \<and> k \<le> 324) kCachedPowers" by (simp add: kCachedPowers_def)
  then show "(f, c, k) \<in> set kCachedPowers \<Longrightarrow> - 300 \<le> k \<and> k \<le> 324" by (auto simp: list_all_iff)
qed

end
