(* ===== verification/DigitGen.thy ===== *)
theory DigitGen
  imports DoubleRounding
begin

unbundle bit_operations_syntax

text \<open>
  The digit generator of Grisu2: a version in unbounded numbers that stops at the first
  result a counter has no room for, at the first assertion that fails and at the end of the
  buffer returns the same digits, so none of this ever happens; and the digits are a decimal
  number between the scaled boundaries, with no leading zero and at most 29 digits.
\<close>

section \<open>Definitions\<close>

definition digits_ok :: "bytes \<Rightarrow> bool" where
  "digits_ok ds \<longleftrightarrow> ds \<noteq> [] \<and> (\<forall>c\<in>set ds. digit_byte c) \<and> hd ds \<noteq> 0x30"

text \<open>The digits written so far; the first of them is not zero.\<close>

definition prefix_ok :: "bytes \<Rightarrow> bool" where
  "prefix_ok ds \<longleftrightarrow> (\<forall>c\<in>set ds. digit_byte c) \<and> (ds \<noteq> [] \<longrightarrow> hd ds \<noteq> 0x30)"

definition close_to :: "bytes \<Rightarrow> nat \<Rightarrow> nat \<Rightarrow> nat \<Rightarrow> bool" where
  "close_to ds u M delta \<longleftrightarrow> digits_ok ds \<and> M \<le> decimal ds * u + delta \<and> decimal ds * u \<le> M"

subsection \<open>The generator with every operation checked\<close>

text \<open>
  \<^verbatim>\<open>grisu2_round\<close> and \<^verbatim>\<open>grisu2_digit_gen\<close> once more, in unbounded natural numbers.
  The outcome is \<open>None\<close> as soon as a sum, product or shift would not fit its 64 bits, a
  difference would be negative, \<open>p1\<close> would not fit 32 bits, the buffer is full, or one of
  the code's \<^verbatim>\<open>JSON_ASSERT\<close>s fails.
\<close>

function checked_round :: "bytes \<Rightarrow> nat \<Rightarrow> nat \<Rightarrow> nat \<Rightarrow> nat \<Rightarrow> bytes option" where
  "checked_round buf dst delta rest ten_k =
     (if buf = [] \<or> delta < dst \<or> delta < rest \<or> ten_k = 0 then None
      else if rest < dst \<and> ten_k \<le> delta - rest
      then if 2 ^ 64 \<le> rest + ten_k then None
           else if rest + ten_k < dst \<or> rest + ten_k - dst < dst - rest
           then if last buf = 0x30 then None
                else checked_round (buf[length buf - 1 := last buf - 1]) dst delta (rest + ten_k) ten_k
           else Some buf
      else Some buf)"
  by pat_completeness auto

termination
  by (relation "measure (\<lambda>(buf, dst, delta, rest, ten_k). dst - rest)") auto

declare checked_round.simps [simp del]

fun checked_integral ::
  "nat \<Rightarrow> nat \<Rightarrow> nat \<Rightarrow> nat \<Rightarrow> nat \<Rightarrow> nat \<Rightarrow> nat \<Rightarrow> nat \<Rightarrow> bytes \<Rightarrow> ((bytes \<times> nat) + bytes) option" where
  "checked_integral room s p2 delta dst 0 p1 pow10 buffer = Some (Inr buffer)"
| "checked_integral room s p2 delta dst (Suc n) p1 pow10 buffer =
     (let d = p1 div pow10; r = p1 mod pow10 in
      if room \<le> length buffer \<or> pow10 = 0 \<or> 9 < d \<or> 2 ^ 64 \<le> r * 2 ^ s \<or> 2 ^ 64 \<le> r * 2 ^ s + p2 then None
      else if r * 2 ^ s + p2 \<le> delta
      then if 2 ^ 64 \<le> pow10 * 2 ^ s then None
           else map_option (\<lambda>b. Inl (b, n))
                  (checked_round (buffer @ [0x30 + d]) dst delta (r * 2 ^ s + p2) (pow10 * 2 ^ s))
      else checked_integral room s p2 delta dst n r (pow10 div 10) (buffer @ [0x30 + d]))"

function checked_fraction ::
  "nat \<Rightarrow> nat \<Rightarrow> nat \<Rightarrow> nat \<Rightarrow> nat \<Rightarrow> nat \<Rightarrow> bytes \<Rightarrow> (bytes \<times> nat) option" where
  "checked_fraction room s p2 delta dst m buffer =
     (let d = p2 * 10 div 2 ^ s; r = p2 * 10 mod 2 ^ s in
      if room \<le> length buffer \<or> 2 ^ 64 \<le> p2 * 10 \<or> 9 < d \<or> 2 ^ 64 \<le> delta * 10 \<or> 2 ^ 64 \<le> dst * 10 then None
      else if r \<le> delta * 10
      then map_option (\<lambda>b. (b, Suc m)) (checked_round (buffer @ [0x30 + d]) (dst * 10) (delta * 10) r (2 ^ s))
      else checked_fraction room s r (delta * 10) (dst * 10) (Suc m) (buffer @ [0x30 + d]))"
  by pat_completeness auto

termination
  by (relation "measure (\<lambda>(room, s, p2, delta, dst, m, buffer). room - length buffer)") auto

declare checked_fraction.simps [simp del]

definition checked_digit_gen ::
  "nat \<Rightarrow> int \<Rightarrow> diyfp \<Rightarrow> diyfp \<Rightarrow> diyfp \<Rightarrow> (bytes \<times> int) option" where
  "checked_digit_gen room decimal_exponent M_minus w M_plus =
     (let s = nat (- dp_e M_plus); p1 = dp_f M_plus div 2 ^ s; p2 = dp_f M_plus mod 2 ^ s in
      if dp_e M_plus < - 60 \<or> - 32 < dp_e M_plus \<or> dp_f M_plus < dp_f M_minus \<or> dp_f M_plus < dp_f w
         \<or> p1 = 0 \<or> 2 ^ 32 \<le> p1
      then None
      else let delta = dp_f M_plus - dp_f M_minus; dst = dp_f M_plus - dp_f w;
               (k, pow10) = find_largest_pow10 p1
           in case checked_integral room s p2 delta dst k p1 pow10 [] of
                None \<Rightarrow> None
              | Some (Inl (buffer, n)) \<Rightarrow> Some (buffer, decimal_exponent + int n)
              | Some (Inr buffer) \<Rightarrow>
                  if p2 \<le> delta then None
                  else (case checked_fraction room s p2 delta dst 0 buffer of
                          None \<Rightarrow> None
                        | Some (buffer', m) \<Rightarrow> Some (buffer', decimal_exponent - int m)))"

definition checked_grisu2 :: "nat \<Rightarrow> double \<Rightarrow> (bytes \<times> int) option" where
  "checked_grisu2 room value =
     (let b = compute_boundaries value;
          (cf, ce, ck) = get_cached_power_for_binary_exponent (dp_e (bd_plus b));
          c_minus_k = \<lparr>dp_f = cf, dp_e = ce\<rparr>;
          w = diyfp_mul (bd_w b) c_minus_k;
          w_minus = diyfp_mul (bd_minus b) c_minus_k;
          w_plus = diyfp_mul (bd_plus b) c_minus_k
      in if 2 ^ 64 \<le> dp_f w_minus + 1 \<or> dp_f w_plus = 0 then None
         else checked_digit_gen room (- ck) \<lparr>dp_f = dp_f w_minus + 1, dp_e = dp_e w_minus\<rparr> w
                \<lparr>dp_f = dp_f w_plus - 1, dp_e = dp_e w_plus\<rparr>)"

section \<open>Lemmas\<close>

lemma prefix_ok_Nil [simp]: "prefix_ok []"
  by (simp add: prefix_ok_def)

lemma prefix_ok_snoc:
  "prefix_ok ds \<Longrightarrow> d < 10 \<Longrightarrow> ds = [] \<longrightarrow> 0 < d \<Longrightarrow> digits_ok (ds @ [0x30 + d])"
  by (cases ds) (auto simp: prefix_ok_def digits_ok_def digit_byte_def)

lemma digits_ok_prefix: "digits_ok ds \<Longrightarrow> prefix_ok ds"
  by (simp add: prefix_ok_def digits_ok_def)

lemma decimal_snoc: "decimal (ds @ [0x30 + d]) = 10 * decimal ds + d"
  by (simp add: decimal_def)

text \<open>
  The rounding step takes the last digit down as long as the value stays above the lower
  boundary; it never reaches zero, because the remainder of the previous digit was above
  \<open>delta\<close>.
\<close>

lemma grisu2_round_digit:
  assumes "rest \<le> delta" "delta < d * ten_k + rest"
  shows "\<exists>j < d. grisu2_round (ds @ [0x30 + d]) dst delta rest ten_k = ds @ [0x30 + (d - j)]
    \<and> rest + j * ten_k \<le> delta"
  using assms
proof (induction "dst - rest" arbitrary: d rest rule: less_induct)
  case less
  have d: "0 < d" using less.prems by (cases d) auto
  let ?c = "0 < ten_k \<and> rest < dst \<and> ten_k \<le> delta - rest \<and> (rest + ten_k < dst \<or> rest + ten_k - dst < dst - rest)"
  show ?case
  proof (cases ?c)
    case False
    then have "grisu2_round (ds @ [0x30 + d]) dst delta rest ten_k = ds @ [0x30 + d]"
      by (subst grisu2_round.simps) (rule if_not_P)
    then show ?thesis using d less.prems by (intro exI [of _ 0]) simp
  next
    case True
    then have le: "rest + ten_k \<le> delta" using less.prems by linarith
    have dd: "d * ten_k = (d - 1) * ten_k + ten_k" using d by (cases d) simp_all
    have step: "grisu2_round (ds @ [0x30 + d]) dst delta rest ten_k
        = grisu2_round (ds @ [0x30 + (d - 1)]) dst delta (rest + ten_k) ten_k"
      by (subst grisu2_round.simps, subst if_P [OF True]) (use d in \<open>simp add: list_update_append\<close>)
    have "dst - (rest + ten_k) < dst - rest" using True by linarith
    from less.hyps [OF this le, of "d - 1"] less.prems(2) dd obtain j where
      j: "j < d - 1" "grisu2_round (ds @ [0x30 + (d - 1)]) dst delta (rest + ten_k) ten_k = ds @ [0x30 + (d - 1 - j)]"
        "rest + ten_k + j * ten_k \<le> delta" by auto
    then show ?thesis using step by (intro exI [of _ "Suc j"]) simp
  qed
qed

text \<open>
  A decimal \<open>ds\<close> scaled by \<open>u\<close> lies at most \<open>delta\<close> below \<open>M\<close>.
\<close>

lemma grisu2_round_close:
  assumes "prefix_ok ds" "d < 10" "rest \<le> delta" "delta < d * ten_k + rest"
    and "decimal ds * (10 * ten_k) + d * ten_k + rest = M"
  obtains buf where "grisu2_round (ds @ [0x30 + d]) dst delta rest ten_k = buf" "close_to buf ten_k M delta"
    "length buf = Suc (length ds)"
proof -
  from grisu2_round_digit [OF assms(3,4), of ds dst] obtain j where
    j: "j < d" "grisu2_round (ds @ [0x30 + d]) dst delta rest ten_k = ds @ [0x30 + (d - j)]" "rest + j * ten_k \<le> delta"
    by blast
  have d: "d * ten_k = (d - j) * ten_k + j * ten_k" using j(1) by (simp flip: add_mult_distrib)
  have v: "decimal (ds @ [0x30 + (d - j)]) * ten_k = decimal ds * (10 * ten_k) + (d - j) * ten_k"
    by (simp add: decimal_snoc add_mult_distrib)
  have "close_to (ds @ [0x30 + (d - j)]) ten_k M delta"
    unfolding close_to_def v using prefix_ok_snoc [of ds "d - j"] assms j d by auto
  with j(2) show ?thesis by (rule that) simp
qed

text \<open>
  The checks of the rounding step pass: the remainder stays below \<open>delta\<close>, and the last
  digit, which brings the value above \<open>delta\<close>, is not zero.
\<close>

lemma checked_round_eq:
  assumes "rest \<le> delta" "delta < d * ten_k + rest" "dst \<le> delta" "0 < ten_k" "delta < 2 ^ 64"
  shows "checked_round (ds @ [0x30 + d]) dst delta rest ten_k = Some (grisu2_round (ds @ [0x30 + d]) dst delta rest ten_k)"
  using assms
proof (induction "dst - rest" arbitrary: d rest rule: less_induct)
  case less
  have d: "0 < d" using less.prems by (cases d) auto
  have start: "\<not> (ds @ [0x30 + d] = [] \<or> delta < dst \<or> delta < rest \<or> ten_k = 0)" using less.prems by auto
  let ?c1 = "rest < dst \<and> ten_k \<le> delta - rest" and ?c2 = "rest + ten_k < dst \<or> rest + ten_k - dst < dst - rest"
  show ?case
  proof (cases "?c1 \<and> ?c2")
    case True
    then have le: "rest + ten_k \<le> delta" using less.prems by linarith
    then have fits: "\<not> 2 ^ 64 \<le> rest + ten_k" using less.prems(5) by linarith
    have dd: "d * ten_k = (d - 1) * ten_k + ten_k" using d by (cases d) simp_all
    have upd: "(ds @ [0x30 + d])[length (ds @ [0x30 + d]) - 1 := last (ds @ [0x30 + d]) - 1] = ds @ [0x30 + (d - 1)]"
      using d by (simp add: list_update_append)
    have "dst - (rest + ten_k) < dst - rest" using True less.prems(4) by linarith
    from less.hyps [OF this le _ less.prems(3-5), of "d - 1"] less.prems(2) dd
    have IH: "checked_round (ds @ [0x30 + (d - 1)]) dst delta (rest + ten_k) ten_k
        = Some (grisu2_round (ds @ [0x30 + (d - 1)]) dst delta (rest + ten_k) ten_k)" by simp
    have "last (ds @ [0x30 + d]) \<noteq> 0x30" using d by simp
    then have "checked_round (ds @ [0x30 + d]) dst delta rest ten_k
        = checked_round (ds @ [0x30 + (d - 1)]) dst delta (rest + ten_k) ten_k"
      using True start fits by (subst checked_round.simps) (simp only: upd if_True if_False simp_thms)
    moreover have "grisu2_round (ds @ [0x30 + d]) dst delta rest ten_k
        = grisu2_round (ds @ [0x30 + (d - 1)]) dst delta (rest + ten_k) ten_k"
      using True less.prems(4) by (subst grisu2_round.simps) (simp only: upd if_True simp_thms)
    ultimately show ?thesis using IH by simp
  next
    case False
    have "2 ^ 64 > rest + ten_k" if ?c1 using that less.prems(1,5) by linarith
    then have "checked_round (ds @ [0x30 + d]) dst delta rest ten_k = Some (ds @ [0x30 + d])"
      using False start by (subst checked_round.simps) auto
    moreover have "grisu2_round (ds @ [0x30 + d]) dst delta rest ten_k = ds @ [0x30 + d]"
      by (subst grisu2_round.simps) (rule if_not_P, use False in blast)
    ultimately show ?thesis by simp
  qed
qed

subsection \<open>The integral part\<close>

lemma u64_push: "s \<le> 64 \<Longrightarrow> a * 2 ^ s < 2 ^ 64 \<Longrightarrow> u64 (push_bit s a) = a * 2 ^ s"
  by (simp add: u64_def push_bit_eq_mult)

lemma digit_gen_integral_spec:
  assumes "length buffer + n \<le> room" "p1 < 10 ^ n" "p2 < 2 ^ s" "s \<le> 64" "M < 2 ^ 64"
    and "decimal buffer * 10 ^ n * 2 ^ s + p1 * 2 ^ s + p2 = M"
    and "delta < p1 * 2 ^ s + p2" "prefix_ok buffer"
    and "n = 0 \<or> pow10 = 10 ^ (n - 1) \<and> pow10 * 2 ^ s < 2 ^ 64"
    and "buffer = [] \<longrightarrow> 0 < n \<and> 10 ^ (n - 1) \<le> p1"
  shows "(\<exists>ds n'. digit_gen_integral room s p2 delta dst n p1 pow10 buffer = Some (Inl (ds, n'))
            \<and> n' < n \<and> close_to ds (10 ^ n' * 2 ^ s) M delta \<and> length ds \<le> length buffer + n)
       \<or> (\<exists>ds. digit_gen_integral room s p2 delta dst n p1 pow10 buffer = Some (Inr ds)
            \<and> digits_ok ds \<and> decimal ds * 2 ^ s + p2 = M \<and> delta < p2 \<and> length ds = length buffer + n)"
  using assms
proof (induction n arbitrary: p1 pow10 buffer)
  case 0
  then show ?case by (cases buffer) (auto simp: prefix_ok_def digits_ok_def)
next
  case (Suc n)
  let ?S = "2 ^ s :: nat" and ?d = "p1 div 10 ^ n" and ?r = "p1 mod 10 ^ n"
  from Suc.prems(9) have pow: "pow10 = 10 ^ n" "10 ^ n * ?S < 2 ^ 64" by auto
  have d: "?d < 10" using Suc.prems(2) by (simp add: less_mult_imp_div_less mult.commute)
  have r: "?r < 10 ^ n" by simp
  have p1: "p1 = ?d * 10 ^ n + ?r" by (rule div_mult_mod_eq [symmetric])
  then have "p1 * ?S = ?d * (10 ^ n * ?S) + ?r * ?S" by (metis add_mult_distrib mult.assoc)
  note split = this
  have le: "?r * ?S + p2 \<le> M" using Suc.prems(6) split by linarith
  then have rest: "u64 (u64 (push_bit s ?r) + p2) = ?r * ?S + p2"
    using Suc.prems(4,5) u64_push [of s ?r] by (simp add: u64_def)
  have ten: "u64 (push_bit s pow10) = 10 ^ n * ?S" using u64_push [OF Suc.prems(4), of "10 ^ n"] pow by simp
  have total: "decimal buffer * (10 * (10 ^ n * ?S)) + ?d * (10 ^ n * ?S) + (?r * ?S + p2) = M"
    using Suc.prems(6) split by (simp add: algebra_simps)
  have above: "delta < ?d * (10 ^ n * ?S) + (?r * ?S + p2)" using Suc.prems(7) split by linarith
  have room: "length buffer < room" using Suc.prems(1) by simp
  have first: "buffer = [] \<longrightarrow> 0 < ?d" using Suc.prems(10) by (simp add: div_greater_zero_iff)
  show ?case
  proof (cases "?r * ?S + p2 \<le> delta")
    case True
    obtain ds where ds: "grisu2_round (buffer @ [0x30 + ?d]) dst delta (?r * ?S + p2) (10 ^ n * ?S) = ds"
      "close_to ds (10 ^ n * ?S) M delta" "length ds = Suc (length buffer)"
      by (rule grisu2_round_close [OF Suc.prems(8) d True above total])
    have "digit_gen_integral room s p2 delta dst (Suc n) p1 pow10 buffer = Some (Inl (ds, n))"
      using room True ds(1) by (simp only: digit_gen_integral.simps Let_def pow(1) rest ten [unfolded pow(1)] if_True)
    with ds show ?thesis by auto
  next
    case False
    let ?buf = "buffer @ [0x30 + ?d]"
    have step: "digit_gen_integral room s p2 delta dst (Suc n) p1 pow10 buffer
        = digit_gen_integral room s p2 delta dst n ?r (pow10 div 10) ?buf"
      using room False by (simp only: digit_gen_integral.simps Let_def pow(1) rest if_True if_False)
    have inv: "decimal ?buf * 10 ^ n * ?S + ?r * ?S + p2 = M"
      using total by (simp only: decimal_snoc) (simp add: algebra_simps)
    have ok: "prefix_ok ?buf" using prefix_ok_snoc [OF Suc.prems(8) d first] by (rule digits_ok_prefix)
    have pow': "n = 0 \<or> pow10 div 10 = 10 ^ (n - 1) \<and> pow10 div 10 * ?S < 2 ^ 64"
    proof (cases n)
      case (Suc k)
      then have "10 ^ k * ?S \<le> 10 ^ n * ?S" by (intro mult_le_mono1) simp
      then have "10 ^ k * ?S < 2 ^ 64" using pow(2) by (rule le_less_trans)
      then show ?thesis using Suc pow(1) by simp
    qed simp
    from Suc.IH [OF _ r Suc.prems(3-5) inv _ ok pow'] Suc.prems(1) False
    show ?thesis unfolding step by (fastforce simp: less_Suc_eq)
  qed
qed

lemma checked_integral_eq:
  assumes "length buffer + n \<le> room" "p1 < 10 ^ n" "s \<le> 64" "p1 * 2 ^ s + p2 < 2 ^ 64"
    and "delta < p1 * 2 ^ s + p2" "dst \<le> delta"
    and "n = 0 \<or> pow10 = 10 ^ (n - 1) \<and> pow10 * 2 ^ s < 2 ^ 64"
  shows "checked_integral room s p2 delta dst n p1 pow10 buffer = digit_gen_integral room s p2 delta dst n p1 pow10 buffer"
  using assms
proof (induction n arbitrary: p1 pow10 buffer)
  case 0
  then show ?case by simp
next
  case (Suc n)
  let ?S = "2 ^ s :: nat" and ?d = "p1 div 10 ^ n" and ?r = "p1 mod 10 ^ n"
  from Suc.prems(7) have pow: "pow10 = 10 ^ n" "10 ^ n * ?S < 2 ^ 64" by auto
  have d: "?d < 10" using Suc.prems(2) by (simp add: less_mult_imp_div_less mult.commute)
  have r: "?r < 10 ^ n" by simp
  have "p1 = ?d * 10 ^ n + ?r" by (rule div_mult_mod_eq [symmetric])
  then have split: "p1 * ?S = ?d * (10 ^ n * ?S) + ?r * ?S" by (metis add_mult_distrib mult.assoc)
  have le: "?r * ?S + p2 < 2 ^ 64" "?r * ?S < 2 ^ 64" using Suc.prems(4) split by linarith+
  have rest: "u64 (u64 (push_bit s ?r) + p2) = ?r * ?S + p2"
    using le u64_push [OF Suc.prems(3) le(2)] by (simp add: u64_def)
  have ten: "u64 (push_bit s (10 ^ n)) = 10 ^ n * ?S" by (rule u64_push [OF Suc.prems(3) pow(2)])
  have above: "delta < ?d * (10 ^ n * ?S) + (?r * ?S + p2)" using Suc.prems(5) split by linarith
  have ok: "\<not> (room \<le> length buffer \<or> (10 :: nat) ^ n = 0 \<or> 9 < ?d \<or> 2 ^ 64 \<le> ?r * ?S \<or> 2 ^ 64 \<le> ?r * ?S + p2)"
    using Suc.prems(1) d le by simp
  have room: "length buffer < room" using Suc.prems(1) by simp
  show ?case
  proof (cases "?r * ?S + p2 \<le> delta")
    case True
    have delta: "delta < 2 ^ 64" using Suc.prems(4,5) by linarith
    have "0 < 10 ^ n * ?S" by simp
    note eq = checked_round_eq [OF True above Suc.prems(6) this delta, of buffer]
    have fits: "\<not> 2 ^ 64 \<le> 10 ^ n * ?S" using pow(2) by linarith
    show ?thesis
      unfolding checked_integral.simps digit_gen_integral.simps Let_def pow(1) rest ten
      using ok room True fits eq by (simp only: if_True if_False option.map)
  next
    case False
    have pow': "n = 0 \<or> pow10 div 10 = 10 ^ (n - 1) \<and> pow10 div 10 * ?S < 2 ^ 64"
    proof (cases n)
      case (Suc k)
      then have "10 ^ k * ?S \<le> 10 ^ n * ?S" by (intro mult_le_mono1) simp
      then have "10 ^ k * ?S < 2 ^ 64" using pow(2) by (rule le_less_trans)
      then show ?thesis using Suc pow(1) by simp
    qed simp
    have "checked_integral room s p2 delta dst n ?r (pow10 div 10) (buffer @ [0x30 + ?d])
        = digit_gen_integral room s p2 delta dst n ?r (pow10 div 10) (buffer @ [0x30 + ?d])"
      by (rule Suc.IH [OF _ r Suc.prems(3) le(1) _ Suc.prems(6) pow']) (use Suc.prems(1) False in simp_all)
    then show ?thesis
      unfolding checked_integral.simps digit_gen_integral.simps Let_def pow(1) rest
      using ok room False by (simp only: if_True if_False)
  qed
qed

subsection \<open>The fraction\<close>

lemma digit_gen_fraction_spec:
  assumes "length buffer + 19 \<le> room + m" "s \<le> 60" "digits_ok buffer"
    and "decimal buffer * 2 ^ s + p2 = M * 10 ^ m" "delta = Delta * 10 ^ m" "0 < Delta" "delta < p2" "p2 < 2 ^ s"
  shows "\<exists>ds m'. digit_gen_fraction room s p2 delta dst m buffer = Some (ds, m') \<and> m' \<le> 19
    \<and> close_to ds (2 ^ s) (M * 10 ^ m') (Delta * 10 ^ m') \<and> length ds + m \<le> length buffer + m'"
  using assms
proof (induction room s p2 delta dst m buffer rule: digit_gen_fraction.induct)
  case (1 room s p2 delta dst m buffer)
  let ?S = "2 ^ s :: nat" and ?d = "10 * p2 div 2 ^ s" and ?r = "10 * p2 mod 2 ^ s"
  have S: "?S \<le> 2 ^ 60" using "1.prems"(2) by (intro power_increasing) simp_all
  have p2: "p2 < 2 ^ 60" using S "1.prems"(8) by (rule less_le_trans [rotated])
  have m: "m \<le> 18"
  proof (rule ccontr)
    assume "\<not> m \<le> 18"
    then have "10 ^ 19 \<le> (10 :: nat) ^ m" by (intro power_increasing) simp_all
    also have "\<dots> \<le> Delta * 10 ^ m" using "1.prems"(6) by simp
    also have "\<dots> < 2 ^ 60" using "1.prems"(5,7) p2 by simp
    finally show False by simp
  qed
  have room: "length buffer < room" using "1.prems"(1) m by simp
  have u: "u64 (p2 * 10) = 10 * p2" "u64 (delta * 10) = delta * 10"
    using p2 "1.prems"(7) by (simp_all add: u64_def)
  have one: "u64 (push_bit s 1) = ?S" using S by (simp add: u64_def push_bit_eq_mult)
  have low: "n AND (?S - 1) = n mod ?S" for n by (simp only: mask_eq_exp_minus_1 [symmetric] take_bit_eq_mask [symmetric] take_bit_eq_mod)
  have d: "?d < 10" using "1.prems"(8) by (simp add: less_mult_imp_div_less)
  have split: "?d * ?S + ?r = 10 * p2" by (rule div_mult_mod_eq)
  have total: "decimal buffer * (10 * ?S) + ?d * ?S + ?r = M * 10 ^ Suc m"
    using "1.prems"(4) split by simp
  have above: "delta * 10 < ?d * ?S + ?r" using "1.prems"(7) split by linarith
  have ok: "prefix_ok buffer" by (rule digits_ok_prefix [OF "1.prems"(3)])
  show ?case
  proof (cases "?r \<le> delta * 10")
    case True
    obtain ds where ds: "grisu2_round (buffer @ [0x30 + ?d]) (u64 (dst * 10)) (delta * 10) ?r ?S = ds"
      "close_to ds ?S (M * 10 ^ Suc m) (delta * 10)" "length ds = Suc (length buffer)"
      by (rule grisu2_round_close [OF ok d True above total])
    have "digit_gen_fraction room s p2 delta dst m buffer = Some (ds, Suc m)"
      using room True ds(1) by (subst digit_gen_fraction.simps) (simp only: Let_def u one low drop_bit_eq_div if_True)
    with ds "1.prems"(5) m show ?thesis by (simp add: ac_simps)
  next
    case False
    let ?buf = "buffer @ [0x30 + ?d]"
    have step: "digit_gen_fraction room s p2 delta dst m buffer
        = digit_gen_fraction room s ?r (delta * 10) (u64 (dst * 10)) (Suc m) ?buf"
      using room False by (subst digit_gen_fraction.simps) (simp only: Let_def u one low drop_bit_eq_div if_True if_False)
    have "buffer \<noteq> []" using "1.prems"(3) by (simp add: digits_ok_def)
    then have dok: "digits_ok ?buf" using prefix_ok_snoc [OF ok d] by simp
    have inv: "decimal ?buf * ?S + ?r = M * 10 ^ Suc m"
      using total by (simp only: decimal_snoc) (simp add: algebra_simps)
    have IH: "\<exists>ds m'. digit_gen_fraction room s ?r (delta * 10) (u64 (dst * 10)) (Suc m) ?buf = Some (ds, m') \<and> m' \<le> 19
        \<and> close_to ds ?S (M * 10 ^ m') (Delta * 10 ^ m') \<and> length ds + Suc m \<le> length ?buf + m'"
      by (rule "1.IH" [OF room refl refl refl refl refl refl, unfolded u one low drop_bit_eq_div, OF False _ _ dok inv])
        (use "1.prems" False in simp_all)
    then show ?thesis unfolding step by simp
  qed
qed

text \<open>
  The three counters stay in order, \<open>dst \<le> delta < p2 < 2 ^ s\<close>, and each is multiplied by
  ten while it is below \<open>2 ^ 60\<close>.
\<close>

lemma checked_fraction_eq:
  assumes "s \<le> 60" "delta < p2" "p2 < 2 ^ s" "dst \<le> delta"
  shows "checked_fraction room s p2 delta dst m buffer = digit_gen_fraction room s p2 delta dst m buffer"
  using assms
proof (induction room s p2 delta dst m buffer rule: digit_gen_fraction.induct)
  case (1 room s p2 delta dst m buffer)
  let ?S = "2 ^ s :: nat" and ?d = "p2 * 10 div 2 ^ s" and ?r = "p2 * 10 mod 2 ^ s"
  show ?case
  proof (cases "length buffer < room")
    case False
    then show ?thesis by (subst checked_fraction.simps, subst digit_gen_fraction.simps) (simp add: Let_def)
  next
    case room: True
    have S: "?S \<le> 2 ^ 60" using "1.prems"(1) by (intro power_increasing) simp_all
    have p2: "p2 < 2 ^ 60" using S "1.prems"(3) by (rule less_le_trans [rotated])
    have fits: "p2 * 10 < 2 ^ 64" "delta * 10 < 2 ^ 64" "dst * 10 < 2 ^ 64" using p2 "1.prems"(2,4) by simp_all
    have u: "u64 (p2 * 10) = p2 * 10" "u64 (delta * 10) = delta * 10" "u64 (dst * 10) = dst * 10"
      using fits by (simp_all add: u64_def)
    have one: "u64 (push_bit s 1) = ?S" using S by (simp add: u64_def push_bit_eq_mult)
    have low: "n AND (?S - 1) = n mod ?S" for n by (simp only: mask_eq_exp_minus_1 [symmetric] take_bit_eq_mask [symmetric] take_bit_eq_mod)
    have d: "?d < 10" using "1.prems"(3) by (simp add: less_mult_imp_div_less)
    have split: "?d * ?S + ?r = p2 * 10" by (rule div_mult_mod_eq)
    have above: "delta * 10 < ?d * ?S + ?r" using "1.prems"(2) split by linarith
    have ok: "\<not> (room \<le> length buffer \<or> 2 ^ 64 \<le> p2 * 10 \<or> 9 < ?d \<or> 2 ^ 64 \<le> delta * 10 \<or> 2 ^ 64 \<le> dst * 10)"
      using room fits d by linarith
    show ?thesis
    proof (cases "?r \<le> delta * 10")
      case True
      have "dst * 10 \<le> delta * 10" "0 < ?S" using "1.prems"(4) by simp_all
      note eq = checked_round_eq [OF True above this fits(2), of buffer]
      show ?thesis
        using ok room True eq
        by (subst checked_fraction.simps, subst digit_gen_fraction.simps)
          (simp only: Let_def u one low drop_bit_eq_div if_True if_False option.map)
    next
      case False
      have "checked_fraction room s ?r (delta * 10) (dst * 10) (Suc m) (buffer @ [0x30 + ?d])
          = digit_gen_fraction room s ?r (delta * 10) (dst * 10) (Suc m) (buffer @ [0x30 + ?d])"
        by (rule "1.IH" [OF room refl refl refl refl refl refl, unfolded u one low drop_bit_eq_div, OF False "1.prems"(1)])
          (use False "1.prems"(4) in simp_all)
      then show ?thesis
        using ok room False
        by (subst checked_fraction.simps, subst digit_gen_fraction.simps)
          (simp only: Let_def u one low drop_bit_eq_div if_True if_False)
    qed
  qed
qed

subsection \<open>The digits of a number\<close>

lemma find_largest_pow10_spec:
  assumes "0 < n" "n < 10 ^ 10"
  shows "\<exists>k. find_largest_pow10 n = (Suc k, 10 ^ k) \<and> k \<le> 9 \<and> 10 ^ k \<le> n \<and> n < 10 ^ Suc k"
proof -
  obtain k p where kp: "find_largest_pow10 n = (k, p)" by fastforce
  have "k \<in> {1..10} \<and> p = 10 ^ (k - 1) \<and> 10 ^ (k - 1) \<le> n \<and> n < 10 ^ k"
    using kp assms by (auto simp: find_largest_pow10_def split: if_splits)
  with kp show ?thesis by (intro exI [of _ "k - 1"]) auto
qed

lemma scaled_bounds:
  assumes "Mp \<le> v + (Mp - Mm)" "v \<le> Mp" "Mm < Mp"
  shows "Mm \<le> v \<and> v \<le> (Mp :: nat)"
  using assms by linarith

lemma grisu2_digit_gen_spec:
  assumes q: "- 60 \<le> q" "q \<le> - 32" and M: "0 < Mm" "Mm < Mp" "2 ^ 61 \<le> Mp" "Mp < 2 ^ 64" and room: "29 \<le> room"
    and w: "Mm \<le> w" "w \<le> Mp"
  obtains ds x where
    "checked_digit_gen room de \<lparr>dp_f = Mm, dp_e = q\<rparr> \<lparr>dp_f = w, dp_e = q\<rparr> \<lparr>dp_f = Mp, dp_e = q\<rparr> = Some (ds, de + x)"
    "grisu2_digit_gen room de \<lparr>dp_f = Mm, dp_e = q\<rparr> \<lparr>dp_f = w, dp_e = q\<rparr> \<lparr>dp_f = Mp, dp_e = q\<rparr> = Some (ds, de + x)"
    "digits_ok ds" "length ds \<le> 29" "- 19 \<le> x" "x \<le> 9"
    "real Mm * 2 powi q \<le> real (decimal ds) * 10 powi x" "real (decimal ds) * 10 powi x \<le> real Mp * 2 powi q"
proof -
  define s where "s = nat (- q)"
  let ?S = "2 ^ s :: nat"
  have s: "32 \<le> s" "s \<le> 60" "q = - int s" using q by (simp_all add: s_def)
  define delta dst where "delta = Mp - Mm" and "dst = Mp - w"
  define p1 p2 where "p1 = Mp div ?S" and "p2 = Mp mod ?S"
  have S: "2 ^ 32 \<le> ?S" "?S \<le> 2 ^ 60" using s power_increasing [of 32 s "2 :: nat"] power_increasing [of s 60 "2 :: nat"] by simp_all
  have "2 ^ 64 \<le> 2 ^ 32 * ?S" using S(1) by simp
  then have "Mp < 2 ^ 32 * ?S" using M(4) by linarith
  then have p1: "p1 < 2 ^ 32" "0 < p1" using M(3) S by (simp_all add: p1_def less_mult_imp_div_less div_greater_zero_iff)
  have p2: "p2 < ?S" by (simp add: p2_def)
  have Mp: "p1 * ?S + p2 = Mp" unfolding p1_def p2_def by (rule div_mult_mod_eq)
  from find_largest_pow10_spec [of p1] p1 obtain k where
    k: "find_largest_pow10 p1 = (Suc k, 10 ^ k)" "k \<le> 9" "10 ^ k \<le> p1" "p1 < 10 ^ Suc k" by auto
  have ten: "10 ^ k * ?S < 2 ^ 64"
    using mult_le_mono1 [OF k(3), of ?S] Mp M(4) by linarith
  have sub: "u64_sub Mp x = Mp - x" if "x \<le> Mp" for x
  proof -
    have "Mp + 2 ^ 64 - x = Mp - x + 2 ^ 64" "Mp - x < 2 ^ 64" using that M by simp_all
    then show ?thesis unfolding u64_sub_def by (simp only: mod_add_self2 mod_less)
  qed
  have order: "dst \<le> delta" using w by (simp add: dst_def delta_def)
  have args: "u64_sub Mp Mm = delta" "u64_sub Mp w = dst" "drop_bit s Mp mod 2 ^ 32 = p1" "Mp AND (u64 (push_bit s 1) - 1) = p2"
  proof -
    show "u64_sub Mp Mm = delta" "u64_sub Mp w = dst" using sub M w by (simp_all add: delta_def dst_def)
    show "drop_bit s Mp mod 2 ^ 32 = p1" using p1 by (simp add: drop_bit_eq_div p1_def)
    have "u64 (push_bit s 1) = ?S" using S by (simp add: u64_def push_bit_eq_mult)
    then show "Mp AND (u64 (push_bit s 1) - 1) = p2"
      by (simp only: p2_def mask_eq_exp_minus_1 [symmetric] take_bit_eq_mask [symmetric] take_bit_eq_mod)
  qed
  have gen: "grisu2_digit_gen room de \<lparr>dp_f = Mm, dp_e = q\<rparr> \<lparr>dp_f = w, dp_e = q\<rparr> \<lparr>dp_f = Mp, dp_e = q\<rparr>
      = (case digit_gen_integral room s p2 delta dst (Suc k) p1 (10 ^ k) [] of
           None \<Rightarrow> None
         | Some (Inl (buffer, n)) \<Rightarrow> Some (buffer, de + int n)
         | Some (Inr buffer) \<Rightarrow>
             (case digit_gen_fraction room s p2 delta dst 0 buffer of
                None \<Rightarrow> None
              | Some (buffer', m) \<Rightarrow> Some (buffer', de - int m)))"
    by (simp only: grisu2_digit_gen_def Let_def diyfp_sub_def diyfp.simps args k(1) prod.case s_def [symmetric])
  have range: "\<not> (q < - 60 \<or> - 32 < q \<or> Mp < Mm \<or> Mp < w \<or> p1 = 0 \<or> 2 ^ 32 \<le> p1)"
    using q M w p1 by linarith
  have chk: "checked_digit_gen room de \<lparr>dp_f = Mm, dp_e = q\<rparr> \<lparr>dp_f = w, dp_e = q\<rparr> \<lparr>dp_f = Mp, dp_e = q\<rparr>
      = (case checked_integral room s p2 delta dst (Suc k) p1 (10 ^ k) [] of
           None \<Rightarrow> None
         | Some (Inl (buffer, n)) \<Rightarrow> Some (buffer, de + int n)
         | Some (Inr buffer) \<Rightarrow>
             if p2 \<le> delta then None
             else (case checked_fraction room s p2 delta dst 0 buffer of
                     None \<Rightarrow> None
                   | Some (buffer', m) \<Rightarrow> Some (buffer', de - int m)))"
    using range
    by (simp only: checked_digit_gen_def Let_def diyfp.simps k(1) prod.case s_def [symmetric] p1_def [symmetric]
        p2_def [symmetric] delta_def [symmetric] dst_def [symmetric] if_False)
  have integral: "checked_integral room s p2 delta dst (Suc k) p1 (10 ^ k) []
      = digit_gen_integral room s p2 delta dst (Suc k) p1 (10 ^ k) []"
    by (rule checked_integral_eq) (use room k s M Mp ten order in \<open>simp_all add: delta_def\<close>)
  have one: "real ?S * 2 powi q = 1" unfolding s(3) by (simp add: power_int_minus)
  have real: "real Mm * 2 powi q \<le> u \<and> u \<le> real Mp * 2 powi q"
    if "Mm * b \<le> a * ?S" "a * ?S \<le> Mp * b" "real a = u * real b" "0 < b" for a b u
  proof -
    have "real Mm * real b \<le> u * real b * real ?S" "u * real b * real ?S \<le> real Mp * real b"
      using that(1,2) unfolding that(3) [symmetric] by (simp_all only: of_nat_mult [symmetric] of_nat_le_iff)
    then have "real Mm \<le> u * real ?S" "u * real ?S \<le> real Mp" using that(4) by (simp_all add: mult.assoc mult.left_commute)
    then have "real Mm * 2 powi q \<le> u * real ?S * 2 powi q" "u * real ?S * 2 powi q \<le> real Mp * 2 powi q"
      using mult_right_mono [of _ _ "(2 :: real) powi q"] by simp_all
    then show ?thesis unfolding mult.assoc one by simp
  qed
  have "(\<exists>ds n'. digit_gen_integral room s p2 delta dst (Suc k) p1 (10 ^ k) [] = Some (Inl (ds, n'))
        \<and> n' < Suc k \<and> close_to ds (10 ^ n' * ?S) Mp delta \<and> length ds \<le> length ([] :: bytes) + Suc k)
     \<or> (\<exists>ds. digit_gen_integral room s p2 delta dst (Suc k) p1 (10 ^ k) [] = Some (Inr ds)
        \<and> digits_ok ds \<and> decimal ds * ?S + p2 = Mp \<and> delta < p2 \<and> length ds = length ([] :: bytes) + Suc k)"
    by (rule digit_gen_integral_spec)
      (use room k p1 p2 s M Mp ten in \<open>simp_all add: decimal_def delta_def\<close>)
  then show ?thesis
  proof (elim disjE exE conjE)
    fix ds n' assume r: "digit_gen_integral room s p2 delta dst (Suc k) p1 (10 ^ k) [] = Some (Inl (ds, n'))"
      "n' < Suc k" "close_to ds (10 ^ n' * ?S) Mp delta" "length ds \<le> length ([] :: bytes) + Suc k"
    from r(3) M have "Mm \<le> decimal ds * (10 ^ n' * ?S) \<and> decimal ds * (10 ^ n' * ?S) \<le> Mp"
      by (intro scaled_bounds) (simp_all add: close_to_def delta_def)
    then have "real Mm * 2 powi q \<le> real (decimal ds) * 10 powi int n' \<and> real (decimal ds) * 10 powi int n' \<le> real Mp * 2 powi q"
      by (intro real [of 1 "decimal ds * 10 ^ n'"]) simp_all
    moreover have "checked_digit_gen room de \<lparr>dp_f = Mm, dp_e = q\<rparr> \<lparr>dp_f = w, dp_e = q\<rparr> \<lparr>dp_f = Mp, dp_e = q\<rparr>
        = Some (ds, de + int n')" unfolding chk integral r(1) by simp
    ultimately show ?thesis
      by (intro that [of ds "int n'"]) (use r k in \<open>simp_all add: gen close_to_def\<close>)
  next
    fix ds assume r: "digit_gen_integral room s p2 delta dst (Suc k) p1 (10 ^ k) [] = Some (Inr ds)"
      "digits_ok ds" "decimal ds * ?S + p2 = Mp" "delta < p2" "length ds = length ([] :: bytes) + Suc k"
    have "\<exists>ds' m'. digit_gen_fraction room s p2 delta dst 0 ds = Some (ds', m') \<and> m' \<le> 19
        \<and> close_to ds' ?S (Mp * 10 ^ m') (delta * 10 ^ m') \<and> length ds' + 0 \<le> length ds + m'"
      by (rule digit_gen_fraction_spec) (use r p2 room k s M in \<open>simp_all add: delta_def\<close>)
    then obtain ds' m' where f: "digit_gen_fraction room s p2 delta dst 0 ds = Some (ds', m')" "m' \<le> 19"
      "close_to ds' ?S (Mp * 10 ^ m') (delta * 10 ^ m')" "length ds' \<le> length ds + m'" by auto
    have frac: "checked_fraction room s p2 delta dst 0 ds = digit_gen_fraction room s p2 delta dst 0 ds"
      by (rule checked_fraction_eq [OF s(2) r(4) p2 order])
    have "Mm * 10 ^ m' \<le> decimal ds' * ?S \<and> decimal ds' * ?S \<le> Mp * 10 ^ m'"
      by (rule scaled_bounds) (use f(3) M in \<open>simp_all add: close_to_def delta_def diff_mult_distrib\<close>)
    then have "real Mm * 2 powi q \<le> real (decimal ds') * 10 powi (- int m') \<and> real (decimal ds') * 10 powi (- int m') \<le> real Mp * 2 powi q"
      by (intro real [of "10 ^ m'" "decimal ds'"]) (simp_all add: power_int_minus)
    moreover have "checked_digit_gen room de \<lparr>dp_f = Mm, dp_e = q\<rparr> \<lparr>dp_f = w, dp_e = q\<rparr> \<lparr>dp_f = Mp, dp_e = q\<rparr>
        = Some (ds', de + (- int m'))" unfolding chk integral r(1) using r(4) by (simp add: frac f(1))
    ultimately show ?thesis
      by (intro that [of ds' "- int m'"]) (use r f k in \<open>simp_all add: gen close_to_def\<close>)
  qed
qed

end
