(* ===== verification/Grisu.thy ===== *)
theory Grisu
  imports CachedPowers DigitGen
begin

unbundle bit_operations_syntax

text \<open>
  The numbers Grisu2 works with: the product of two \<^verbatim>\<open>diyfp\<close> is the product of
  their significands with the low 64 bits rounded off, the boundaries of
  \<^verbatim>\<open>compute_boundaries\<close> are the midpoints around the double, and the interval
  handed to the digit generator lies between the midpoints scaled by the cached power.
\<close>

section \<open>Definitions\<close>

text \<open>
  The product of two 32-bit halves, the rounded high half of the 64-bit product.
\<close>

definition mul_high :: "nat \<Rightarrow> nat \<Rightarrow> nat" where
  "mul_high a b = (a * b + 2 ^ 63) div 2 ^ 64"

section \<open>Lemmas\<close>

subsection \<open>64-bit arithmetic\<close>

lemma u64_less [simp]: "u64 n < 2 ^ 64"
  by (simp add: u64_def)

lemma u64_id: "n < 2 ^ 64 \<Longrightarrow> u64 n = n"
  by (simp add: u64_def)

lemma u64_sub_eq: "b \<le> a \<Longrightarrow> a < 2 ^ 64 \<Longrightarrow> u64_sub a b = a - b"
proof -
  assume "b \<le> a" "a < 2 ^ 64"
  then have "a + 2 ^ 64 - b = (a - b) + 2 ^ 64" "a - b < 2 ^ 64" by simp_all
  then show ?thesis unfolding u64_sub_def by (simp only: mod_add_self2 mod_less)
qed

lemma low_word: "(n :: nat) AND 0xFFFFFFFF = n mod 2 ^ 32"
  using and_mask_mod [of n 32] by simp

lemma mul_halves:
  fixes a b :: nat
  assumes "a < 2 ^ 32" "b < 2 ^ 32"
  shows "a * b \<le> (2 ^ 32 - 1) * (2 ^ 32 - 1)"
  using assms by (intro mult_mono) simp_all

lemma split_high:
  fixes u1 u0 v1 v0 :: nat
  defines "B \<equiv> (2 :: nat) ^ 32"
  assumes u: "u1 < B" "u0 < B" "v1 < B" "v0 < B"
  shows "((u1 * B + u0) * (v1 * B + v0) + 2 ^ 63) div 2 ^ 64
    = u1 * v1 + u1 * v0 div B + u0 * v1 div B + (u0 * v0 div B + u0 * v1 mod B + u1 * v0 mod B + 2 ^ 31) div B"
proof -
  define p0 p1 p2 p3 where "p0 = u0 * v0" and "p1 = u0 * v1" and "p2 = u1 * v0" and "p3 = u1 * v1"
  define Q where "Q = p0 div B + p1 mod B + p2 mod B + 2 ^ 31"
  have s: "p0 = p0 div B * B + p0 mod B" "p1 = p1 div B * B + p1 mod B" "p2 = p2 div B * B + p2 mod B" "Q = Q div B * B + Q mod B"
    by simp_all
  have regroup: "p3 * (B * B) + ((h1 * B + l1) + (h2 * B + l2)) * B + (h0 * B + l0) + c * B
      = (p3 + h1 + h2) * (B * B) + (h0 + l1 + l2 + c) * B + l0" for h0 h1 h2 l0 l1 l2 c
    by (simp add: algebra_simps)
  have "(2 :: nat) ^ 63 = 2 ^ 31 * B" by (simp add: B_def)
  then have "(u1 * B + u0) * (v1 * B + v0) + 2 ^ 63 = p3 * (B * B) + (p1 + p2) * B + p0 + 2 ^ 31 * B"
    by (simp add: p0_def p1_def p2_def p3_def algebra_simps)
  also have "\<dots> = (p3 + p1 div B + p2 div B) * (B * B) + Q * B + p0 mod B"
    using regroup [of "p1 div B" "p1 mod B" "p2 div B" "p2 mod B" "p0 div B" "p0 mod B" "2 ^ 31"]
    unfolding s(1-3) [symmetric] Q_def .
  also have "\<dots> = (p3 + p1 div B + p2 div B) * (B * B) + (Q div B * B + Q mod B) * B + p0 mod B"
    unfolding s(4) [symmetric] ..
  also have "\<dots> = (p3 + p2 div B + p1 div B + Q div B) * (B * B) + (Q mod B * B + p0 mod B)"
    by (simp only: distrib_right mult.assoc add.assoc add.commute add.left_commute)
  finally have eq: "(u1 * B + u0) * (v1 * B + v0) + 2 ^ 63 = (p3 + p2 div B + p1 div B + Q div B) * (B * B) + (Q mod B * B + p0 mod B)" .
  have "Q mod B \<le> B - 1" "p0 mod B < B" using u(1) by (simp_all add: B_def)
  then have "Q mod B * B + p0 mod B < (B - 1) * B + B" by (intro add_le_less_mono mult_right_mono) simp_all
  also have "\<dots> = B * B" using u(1) by (simp add: B_def)
  finally have small: "Q mod B * B + p0 mod B < B * B" .
  have "(2 :: nat) ^ 64 = B * B" by (simp add: B_def)
  then have "((u1 * B + u0) * (v1 * B + v0) + 2 ^ 63) div 2 ^ 64 = p3 + p2 div B + p1 div B + Q div B"
    unfolding eq using small by simp
  then show ?thesis by (simp add: p0_def p1_def p2_def p3_def Q_def)
qed

lemma mul_high_less:
  assumes "a < 2 ^ 64" "b < 2 ^ 64"
  shows "mul_high a b < 2 ^ 64"
proof -
  have "a * b \<le> (2 ^ 64 - 1) * (2 ^ 64 - 1)" using assms by (intro mult_mono) simp_all
  then have "a * b + 2 ^ 63 < 2 ^ 64 * 2 ^ 64" by simp
  then show ?thesis unfolding mul_high_def by (rule less_mult_imp_div_less)
qed

lemma diyfp_mul_eq:
  assumes "dp_f x < 2 ^ 64" "dp_f y < 2 ^ 64"
  shows "diyfp_mul x y = \<lparr>dp_f = mul_high (dp_f x) (dp_f y), dp_e = dp_e x + dp_e y + 64\<rparr>"
proof -
  define u1 u0 v1 v0 where "u1 = dp_f x div 2 ^ 32" and "u0 = dp_f x mod 2 ^ 32" and "v1 = dp_f y div 2 ^ 32" and "v0 = dp_f y mod 2 ^ 32"
  have less: "u1 < 2 ^ 32" "u0 < 2 ^ 32" "v1 < 2 ^ 32" "v0 < 2 ^ 32"
    using assms by (simp_all add: u1_def u0_def v1_def v0_def)
  have xy: "dp_f x = u1 * 2 ^ 32 + u0" "dp_f y = v1 * 2 ^ 32 + v0"
    by (simp_all add: u1_def u0_def v1_def v0_def)
  have "u64 (a * b) = a * b" if "a < 2 ^ 32" "b < 2 ^ 32" for a b
    by (rule u64_id) (use mul_halves [OF that] in simp)
  then have p: "u64 (u0 * v0) = u0 * v0" "u64 (u0 * v1) = u0 * v1" "u64 (u1 * v0) = u1 * v0" "u64 (u1 * v1) = u1 * v1"
    using less by blast+
  define Q where "Q = u0 * v0 div 2 ^ 32 + u0 * v1 mod 2 ^ 32 + u1 * v0 mod 2 ^ 32 + 2 ^ 31"
  have hi: "a * b div 2 ^ 32 \<le> 2 ^ 32 - 2" if "a < 2 ^ 32" "b < 2 ^ 32" for a b :: nat
    using div_le_mono [OF mul_halves [OF that], of "2 ^ 32"] by simp
  have "u0 * v0 div 2 ^ 32 < 2 ^ 32" using hi [OF less(2,4)] by simp
  moreover have "u0 * v1 mod 2 ^ 32 < 2 ^ 32" "u1 * v0 mod 2 ^ 32 < 2 ^ 32" by simp_all
  ultimately have Q: "Q < 2 ^ 34" "u0 * v0 div 2 ^ 32 + u0 * v1 mod 2 ^ 32 + u1 * v0 mod 2 ^ 32 < 2 ^ 64"
    unfolding Q_def by simp_all
  have m: "u1 * v1 + u1 * v0 div 2 ^ 32 + u0 * v1 div 2 ^ 32 + Q div 2 ^ 32 = mul_high (dp_f x) (dp_f y)"
    unfolding mul_high_def xy using split_high [OF less] by (simp only: Q_def)
  then have h: "u1 * v1 + u1 * v0 div 2 ^ 32 + u0 * v1 div 2 ^ 32 + Q div 2 ^ 32 < 2 ^ 64"
    using mul_high_less [OF assms] by simp
  have b: "push_bit (64 - 32 - 1) (1 :: nat) = 2 ^ 31" by simp
  have q: "u64 (u0 * v0 div 2 ^ 32 + u0 * v1 mod 2 ^ 32 + u1 * v0 mod 2 ^ 32) + 2 ^ 31 = Q"
    using u64_id [OF Q(2)] by (simp only: Q_def)
  have "u64 Q = Q" using Q(1) by (intro u64_id) simp
  then have "dp_f (diyfp_mul x y) = u1 * v1 + u1 * v0 div 2 ^ 32 + u0 * v1 div 2 ^ 32 + Q div 2 ^ 32"
    by (simp only: diyfp_mul_def Let_def low_word drop_bit_eq_div b diyfp.simps p q u64_id [OF h]
        u1_def [symmetric] u0_def [symmetric] v1_def [symmetric] v0_def [symmetric])
  also have "\<dots> = mul_high (dp_f x) (dp_f y)"
    by (rule m)
  finally have "dp_f (diyfp_mul x y) = mul_high (dp_f x) (dp_f y)" .
  moreover have "dp_e (diyfp_mul x y) = dp_e x + dp_e y + 64" by (simp only: diyfp_mul_def Let_def diyfp.simps)
  ultimately show ?thesis by (cases "diyfp_mul x y") simp
qed

lemma mul_high_real: "\<bar>real (mul_high a b) - real a * real b / 2 ^ 64\<bar> \<le> 1 / 2"
proof -
  define q r where "q = (a * b + 2 ^ 63) div 2 ^ 64" and "r = (a * b + 2 ^ 63) mod 2 ^ 64"
  have "a * b + 2 ^ 63 = q * 2 ^ 64 + r" "r < 2 ^ 64" by (simp_all add: q_def r_def)
  then have "real (a * b + 2 ^ 63) = real (q * 2 ^ 64 + r)" "real r < real (2 ^ 64)" by (simp_all only: of_nat_less_iff)
  then have "real a * real b = real q * 2 ^ 64 + (real r - 2 ^ 63)" "real r < 2 ^ 64" by simp_all
  moreover have "0 \<le> real r" by simp
  ultimately have "real a * real b / 2 ^ 64 = real q + (real r - 2 ^ 63) / 2 ^ 64" "\<bar>(real r - 2 ^ 63) / 2 ^ 64\<bar> \<le> 1 / 2"
    by (simp_all add: add_divide_distrib abs_le_iff)
  then show ?thesis unfolding mul_high_def q_def [symmetric] by linarith
qed

subsection \<open>The boundaries\<close>

lemma normalize_shift:
  assumes "0 < dp_f x" "dp_f x < 2 ^ 64"
  shows "\<exists>s. diyfp_normalize x = \<lparr>dp_f = dp_f x * 2 ^ s, dp_e = dp_e x - int s\<rparr> \<and> 2 ^ 63 \<le> dp_f x * 2 ^ s \<and> dp_f x * 2 ^ s < 2 ^ 64"
  using assms
proof (induction x rule: diyfp_normalize.induct)
  case (1 x)
  show ?case
  proof (cases "2 ^ 63 \<le> dp_f x")
    case True
    then have "diyfp_normalize x = x" by (subst diyfp_normalize.simps) (simp add: drop_bit_63_iff)
    then show ?thesis using True 1 by (intro exI [of _ 0]) (cases x; simp)
  next
    case False
    let ?y = "\<lparr>dp_f = u64 (push_bit 1 (dp_f x)), dp_e = dp_e x - 1\<rparr>"
    have f: "u64 (push_bit 1 (dp_f x)) = 2 * dp_f x" using False by (simp add: u64_def push_bit_eq_mult)
    have c: "\<not> (dp_f x = 0 \<or> drop_bit 63 (dp_f x) \<noteq> 0)" using False 1 by (simp add: drop_bit_63_iff)
    from "1.IH" [OF c] obtain s where s: "diyfp_normalize ?y = \<lparr>dp_f = 2 * dp_f x * 2 ^ s, dp_e = dp_e x - 1 - int s\<rparr>"
      "2 ^ 63 \<le> 2 * dp_f x * 2 ^ s" "2 * dp_f x * 2 ^ s < 2 ^ 64"
      using False "1.prems" unfolding f by auto
    have "diyfp_normalize x = diyfp_normalize ?y" using c by (subst diyfp_normalize.simps) simp
    with s show ?thesis by (intro exI [of _ "Suc s"]) (simp add: algebra_simps)
  qed
qed

lemma normalize_unique:
  assumes "2 ^ 63 \<le> f * 2 ^ s" "f * 2 ^ s < 2 ^ 64" "2 ^ 63 \<le> f * 2 ^ t" "f * 2 ^ t < (2 :: nat) ^ 64"
  shows "s = t"
proof -
  have "\<not> s < t" if "2 ^ 63 \<le> f * 2 ^ s" "f * 2 ^ t < (2 :: nat) ^ 64" for s t
  proof
    assume "s < t"
    then have "2 ^ Suc s \<le> (2 :: nat) ^ t" by (intro power_increasing) simp_all
    then have "f * (2 * 2 ^ s) \<le> f * 2 ^ t" by (intro mult_le_mono2) simp
    with that show False by simp
  qed
  with assms show ?thesis by (metis linorder_neqE_nat)
qed

lemma double_bits_parts:
  assumes "double_ok (m, e)" "0 < m"
  defines "E \<equiv> drop_bit 52 (double_bits (m, e))" and "F \<equiv> double_bits (m, e) AND (kHiddenBit - 1)"
  shows "(if E = 0 then \<lparr>dp_f = F, dp_e = 1 - kBias\<rparr> else \<lparr>dp_f = F + kHiddenBit, dp_e = int E - kBias\<rparr>)
      = \<lparr>dp_f = m, dp_e = e\<rparr>"
    and "F = 0 \<and> 1 < E \<longleftrightarrow> m = 2 ^ 52 \<and> - 1074 < e"
proof -
  have m: "m < 2 ^ 53" using assms by (auto simp: double_ok_def)
  have F: "F = double_bits (m, e) mod 2 ^ 52"
    by (simp only: F_def kHiddenBit_def mask_eq_exp_minus_1 [symmetric] take_bit_eq_mask [symmetric] take_bit_eq_mod)
  have "(if E = 0 then \<lparr>dp_f = F, dp_e = 1 - kBias\<rparr> else \<lparr>dp_f = F + kHiddenBit, dp_e = int E - kBias\<rparr>)
      = \<lparr>dp_f = m, dp_e = e\<rparr> \<and> (F = 0 \<and> 1 < E \<longleftrightarrow> m = 2 ^ 52 \<and> - 1074 < e)"
  proof (cases "m < 2 ^ 52")
    case True
    then have "e = - 1074" using assms by (auto simp: double_ok_def)
    moreover have "E = 0" "F = m" using True by (simp_all add: E_def F double_bits_def drop_bit_eq_div)
    ultimately show ?thesis using True by (simp add: kBias_def)
  next
    case False
    then have e: "- 1074 \<le> e" using assms by (auto simp: double_ok_def)
    obtain f where f: "m = 2 ^ 52 + f" "f < 2 ^ 52" using False m that [of "m - 2 ^ 52"] by simp
    then have "E = nat (e + 1075)" "F = f"
      unfolding E_def F double_bits_def drop_bit_eq_div by simp_all
    then show ?thesis using f e by (auto simp: kBias_def kHiddenBit_def)
  qed
  then show "(if E = 0 then \<lparr>dp_f = F, dp_e = 1 - kBias\<rparr> else \<lparr>dp_f = F + kHiddenBit, dp_e = int E - kBias\<rparr>)
      = \<lparr>dp_f = m, dp_e = e\<rparr>" and "F = 0 \<and> 1 < E \<longleftrightarrow> m = 2 ^ 52 \<and> - 1074 < e"
    by blast+
qed

lemma compute_boundaries_eq:
  assumes "double_ok (m, e)" "0 < m"
  shows "compute_boundaries (m, e) =
    (let w_plus = diyfp_normalize \<lparr>dp_f = 2 * m + 1, dp_e = e - 1\<rparr>
     in \<lparr>bd_w = diyfp_normalize \<lparr>dp_f = m, dp_e = e\<rparr>,
         bd_minus = diyfp_normalize_to
           (if m = 2 ^ 52 \<and> - 1074 < e then \<lparr>dp_f = 4 * m - 1, dp_e = e - 2\<rparr>
            else \<lparr>dp_f = 2 * m - 1, dp_e = e - 1\<rparr>) (dp_e w_plus),
         bd_plus = w_plus\<rparr>)"
proof -
  have "m < 2 ^ 53" using assms by (auto simp: double_ok_def)
  then have "u64 (2 * m + 1) = 2 * m + 1" "u64_sub (u64 (4 * m)) 1 = 4 * m - 1" "u64_sub (u64 (2 * m)) 1 = 2 * m - 1"
    using assms(2) by (simp_all add: u64_def u64_sub_def mod_if)
  then show ?thesis
    by (simp only: compute_boundaries_def Let_def double_bits_parts [OF assms] diyfp.simps)
qed

lemma boundaries_spec:
  assumes "double_ok (m, e)" "0 < m"
  obtains W N P q where
    "compute_boundaries (m, e) = \<lparr>bd_w = \<lparr>dp_f = W, dp_e = q\<rparr>, bd_minus = \<lparr>dp_f = N, dp_e = q\<rparr>, bd_plus = \<lparr>dp_f = P, dp_e = q\<rparr>\<rparr>"
    "2 ^ 63 \<le> P" "P < 2 ^ 64" "W + 512 \<le> P" "N + 512 \<le> W" "- 1137 \<le> q" "q \<le> 960"
    "real P * 2 powi q = upper_midpoint (m, e)" "real N * 2 powi q = lower_midpoint (m, e)"
proof -
  have m: "m < 2 ^ 53" and e: "- 1074 \<le> e" "e \<le> 971" using assms by (auto simp: double_ok_def)
  from normalize_shift [of "\<lparr>dp_f = 2 * m + 1, dp_e = e - 1\<rparr>"] m obtain s where
    plus: "diyfp_normalize \<lparr>dp_f = 2 * m + 1, dp_e = e - 1\<rparr> = \<lparr>dp_f = (2 * m + 1) * 2 ^ s, dp_e = e - 1 - int s\<rparr>"
      "2 ^ 63 \<le> (2 * m + 1) * 2 ^ s" "(2 * m + 1) * 2 ^ s < 2 ^ 64" by auto
  have s: "10 \<le> s" "s \<le> 62"
  proof -
    have "2 ^ 63 < 2 ^ 54 * (2 :: nat) ^ s"
      by (rule le_less_trans [OF plus(2)]) (use m in simp)
    then have "(2 :: nat) ^ 63 < 2 ^ (54 + s)" by (simp only: power_add)
    then show "10 \<le> s" using power_less_imp_less_exp [of "2 :: nat" 63 "54 + s"] by simp
    have "3 * 2 ^ s \<le> (2 * m + 1) * 2 ^ s" using assms(2) by (intro mult_le_mono1) simp
    with plus(3) have "(2 :: nat) * 2 ^ s < 2 ^ 64" by linarith
    then have "(2 :: nat) ^ (s + 1) < 2 ^ 64" by simp
    then show "s \<le> 62" using power_less_imp_less_exp [of "2 :: nat" "s + 1" 64] by simp
  qed
  obtain r where r: "s = Suc r" using s(1) by (cases s) auto
  have r9: "512 \<le> (2 :: nat) ^ r" using power_increasing [of 9 r "2 :: nat"] s(1) r by simp
  have lo: "2 ^ 63 \<le> m * 2 ^ (s + 1)"
  proof (rule ccontr)
    assume "\<not> 2 ^ 63 \<le> m * 2 ^ (s + 1)"
    moreover have p: "(2 :: nat) ^ 63 = 2 ^ (63 - s) * 2 ^ s" using s by (simp flip: power_add)
    ultimately have "(2 * m) * 2 ^ s < 2 ^ (63 - s) * 2 ^ s" by (simp add: mult.assoc)
    then have "2 * m < 2 ^ (63 - s)" by simp
    moreover have "2 ^ (63 - s) \<le> 2 * m + 1" using plus(2) unfolding p by (simp only: mult_le_cancel2 zero_less_power zero_less_numeral simp_thms)
    ultimately have "2 ^ (63 - s) = 2 * m + 1" by linarith
    moreover have "even ((2 :: nat) ^ (63 - s))" using s by simp
    ultimately show False by (metis even_plus_one_iff even_mult_iff even_numeral)
  qed
  from normalize_shift [of "\<lparr>dp_f = m, dp_e = e\<rparr>"] m assms(2) obtain t where
    w: "diyfp_normalize \<lparr>dp_f = m, dp_e = e\<rparr> = \<lparr>dp_f = m * 2 ^ t, dp_e = e - int t\<rparr>"
      "2 ^ 63 \<le> m * 2 ^ t" "m * 2 ^ t < 2 ^ 64" by auto
  have "m * 2 ^ (s + 1) < 2 ^ 64" using plus(3) by (simp add: algebra_simps)
  with normalize_unique [OF w(2,3) lo] have t: "t = s + 1" by simp
  define N where "N = (if m = 2 ^ 52 \<and> - 1074 < e then (4 * m - 1) * 2 ^ r else (2 * m - 1) * 2 ^ s)"
  have N: "N + 2 ^ r \<le> m * 2 ^ (s + 1)"
  proof (cases m)
    case (Suc m')
    then show ?thesis by (auto simp: N_def r algebra_simps)
  qed (use assms in simp)
  have minus: "diyfp_normalize_to (if m = 2 ^ 52 \<and> - 1074 < e then \<lparr>dp_f = 4 * m - 1, dp_e = e - 2\<rparr> else \<lparr>dp_f = 2 * m - 1, dp_e = e - 1\<rparr>) (e - 1 - int s)
      = \<lparr>dp_f = N, dp_e = e - 1 - int s\<rparr>"
  proof -
    have "N < 2 ^ 64" using N w(3) t by simp
    moreover have "nat (e - 2 - (e - 1 - int s)) = r" "nat (e - 1 - (e - 1 - int s)) = s" using r by simp_all
    ultimately show ?thesis by (auto simp: N_def diyfp_normalize_to_def u64_def push_bit_eq_mult)
  qed
  have q: "(2 :: real) powi (e - 1) = 2 ^ s * 2 powi (e - 1 - int s)" "(2 :: real) powi (e - 2) = 2 ^ r * 2 powi (e - 1 - int s)"
  proof -
    show "(2 :: real) powi (e - 1) = 2 ^ s * 2 powi (e - 1 - int s)"
      using powi_add [of "int s" "e - 1 - int s"] by simp
    have "e - 2 = int r + (e - 1 - int s)" using r by simp
    then show "(2 :: real) powi (e - 2) = 2 ^ r * 2 powi (e - 1 - int s)"
      by (simp only: powi_add power_int_of_nat)
  qed
  show ?thesis
  proof (rule that)
    show "compute_boundaries (m, e) = \<lparr>bd_w = \<lparr>dp_f = m * 2 ^ (s + 1), dp_e = e - 1 - int s\<rparr>,
        bd_minus = \<lparr>dp_f = N, dp_e = e - 1 - int s\<rparr>, bd_plus = \<lparr>dp_f = (2 * m + 1) * 2 ^ s, dp_e = e - 1 - int s\<rparr>\<rparr>"
      using compute_boundaries_eq [OF assms] plus(1) minus w(1) by (simp add: t Let_def)
    show "real ((2 * m + 1) * 2 ^ s) * 2 powi (e - 1 - int s) = upper_midpoint (m, e)"
      by (simp add: upper_midpoint_def q algebra_simps)
    show "real N * 2 powi (e - 1 - int s) = lower_midpoint (m, e)"
      using assms(2) by (simp add: lower_midpoint_def N_def q mult.assoc of_nat_diff)
    show "m * 2 ^ (s + 1) + 512 \<le> (2 * m + 1) * 2 ^ s" using r9 r by (simp add: algebra_simps)
    show "N + 512 \<le> m * 2 ^ (s + 1)" using N r9 by simp
  qed (use plus s e in simp_all)
qed

subsection \<open>The scaled boundaries\<close>

lemma scaled_product:
  assumes "approximates f c k" "A < 2 ^ 64"
  shows "\<bar>real (mul_high A f) - real A * 10 powi k * 2 powi (- c - 64)\<bar> < 1"
proof -
  have c: "(2 :: real) powi c * 2 powi (- c) = 1" by (simp flip: powi_add)
  have k: "(10 :: real) powi k * 2 powi (- c - 64) = 10 powi k * 2 powi (- c) / 2 ^ 64"
    using powi_add [of "- c" "- 64"] by (simp add: power_int_minus field_simps)
  have "\<bar>(real f * 2 powi c - 10 powi k) * 2 powi (- c)\<bar> \<le> 2 powi c / 2 * 2 powi (- c)"
    by (rule abs_scale) (use assms(1) in \<open>simp_all add: approximates_def\<close>)
  also have "(real f * 2 powi c - 10 powi k) * 2 powi (- c) = real f * (2 powi c * 2 powi (- c)) - 10 powi k * 2 powi (- c)"
    by (simp add: algebra_simps)
  finally have "\<bar>real f - 10 powi k * 2 powi (- c)\<bar> \<le> 1 / 2" using c by simp
  then have "\<bar>(real f - 10 powi k * 2 powi (- c)) * (real A / 2 ^ 64)\<bar> \<le> 1 / 2 * (real A / 2 ^ 64)"
    by (rule abs_scale) simp
  also have "(real f - 10 powi k * 2 powi (- c)) * (real A / 2 ^ 64) = real A * real f / 2 ^ 64 - real A * 10 powi k * 2 powi (- c - 64)"
    unfolding mult.assoc k by (simp add: field_simps)
  also have "1 / 2 * (real A / 2 ^ 64) < 1 / 2" using assms(2) of_nat_less_iff [of A "2 ^ 64", where 'a = real] by simp
  finally show ?thesis using mul_high_real [of A f] by linarith
qed

lemma mul_high_apart:
  assumes "A + 512 \<le> B" "2 ^ 63 \<le> f"
  shows "mul_high A f + 255 \<le> mul_high B f"
proof -
  have "512 * 2 ^ 63 \<le> real (B - A) * real f"
    by (rule mult_mono) (use assms of_nat_le_iff [of "2 ^ 63" f, where 'a = real] in simp_all)
  then have "256 * 2 ^ 64 \<le> real B * real f - real A * real f" using assms(1) by (simp add: of_nat_diff algebra_simps)
  then have "256 \<le> real B * real f / 2 ^ 64 - real A * real f / 2 ^ 64" by (simp add: field_simps)
  then have "real (mul_high A f) + 255 \<le> real (mul_high B f)"
    using mul_high_real [of A f] mul_high_real [of B f] by linarith
  then have "real (mul_high A f + 255) \<le> real (mul_high B f)" by simp
  then show ?thesis by (simp only: of_nat_le_iff)
qed

lemma mul_high_large:
  assumes "2 ^ 63 \<le> A" "2 ^ 63 \<le> f"
  shows "2 ^ 62 \<le> mul_high A f"
proof -
  have "2 ^ 63 * 2 ^ 63 \<le> A * f" using assms by (rule mult_le_mono)
  then have "2 ^ 62 * 2 ^ 64 \<le> A * f + 2 ^ 63" by simp
  then show ?thesis unfolding mul_high_def by (simp add: less_eq_div_iff_mult_less_eq)
qed

lemma grisu2_boundaries:
  assumes "double_ok (m, e)" "0 < m"
  obtains Mm w Mp q k where
    "\<forall>room. grisu2 room (m, e)
       = grisu2_digit_gen room (- k) \<lparr>dp_f = Mm, dp_e = q\<rparr> \<lparr>dp_f = w, dp_e = q\<rparr> \<lparr>dp_f = Mp, dp_e = q\<rparr>"
    "\<forall>room. checked_grisu2 room (m, e)
       = checked_digit_gen room (- k) \<lparr>dp_f = Mm, dp_e = q\<rparr> \<lparr>dp_f = w, dp_e = q\<rparr> \<lparr>dp_f = Mp, dp_e = q\<rparr>"
    "- 60 \<le> q" "q \<le> - 32" "- 300 \<le> k" "k \<le> 324"
    "0 < Mm" "Mm \<le> w" "w \<le> Mp" "Mm < Mp" "2 ^ 61 \<le> Mp" "Mp < 2 ^ 64"
    "lower_midpoint (m, e) * 10 powi k < real Mm * 2 powi q" "real Mp * 2 powi q < upper_midpoint (m, e) * 10 powi k"
proof -
  obtain W N P q where b: "compute_boundaries (m, e) = \<lparr>bd_w = \<lparr>dp_f = W, dp_e = q\<rparr>, bd_minus = \<lparr>dp_f = N, dp_e = q\<rparr>, bd_plus = \<lparr>dp_f = P, dp_e = q\<rparr>\<rparr>"
    and P: "2 ^ 63 \<le> P" "P < 2 ^ 64" and W: "W + 512 \<le> P" and N: "N + 512 \<le> W" and q: "- 1137 \<le> q" "q \<le> 960"
    and up: "real P * 2 powi q = upper_midpoint (m, e)" and lo: "real N * 2 powi q = lower_midpoint (m, e)"
    by (rule boundaries_spec [OF assms])
  obtain f c k where pow: "get_cached_power_for_binary_exponent q = (f, c, k)" "(f, c, k) \<in> set kCachedPowers"
    "- 60 \<le> c + q + 64" "c + q + 64 \<le> - 32" by (rule cached_power_range [OF q])
  have a: "approximates f c k" by (rule cached_power_approximates [OF pow(2)])
  then have f: "2 ^ 63 \<le> f" "f < 2 ^ 64" by (simp_all add: approximates_def)
  have less: "W < 2 ^ 64" "N < 2 ^ 64" using W N P by simp_all
  have apart: "mul_high W f + 255 \<le> mul_high P f" "mul_high N f + 255 \<le> mul_high W f"
    using mul_high_apart W N f(1) by blast+
  have large: "2 ^ 62 \<le> mul_high P f" "mul_high P f < 2 ^ 64"
    using mul_high_large [OF P(1) f(1)] mul_high_less [OF P(2) f(2)] by blast+
  have Mp: "u64_sub (mul_high P f) 1 = mul_high P f - 1" and Mm: "u64 (mul_high N f + 1) = mul_high N f + 1"
    using large apart by (simp_all add: u64_sub_def u64_def mod_if)
  have mul: "diyfp_mul \<lparr>dp_f = A, dp_e = q\<rparr> \<lparr>dp_f = f, dp_e = c\<rparr> = \<lparr>dp_f = mul_high A f, dp_e = q + c + 64\<rparr>"
    if "A \<in> {W, N, P}" for A
    using that less P(2) f(2) by (subst diyfp_mul_eq) auto
  have shift: "(2 :: real) powi (q + c + 64) * 2 powi (- c - 64) = 2 powi q" by (simp flip: powi_add)
  have scale: "real A * 10 powi k * 2 powi (- c - 64) * 2 powi (q + c + 64) = real A * 2 powi q * 10 powi k" for A
    unfolding shift [symmetric] by (simp only: ac_simps)
  show ?thesis
  proof (rule that)
    show "\<forall>room. grisu2 room (m, e) = grisu2_digit_gen room (- k) \<lparr>dp_f = mul_high N f + 1, dp_e = q + c + 64\<rparr>
        \<lparr>dp_f = mul_high W f, dp_e = q + c + 64\<rparr> \<lparr>dp_f = mul_high P f - 1, dp_e = q + c + 64\<rparr>"
      by (simp add: grisu2_def b pow(1) Let_def mul Mp [simplified] Mm [simplified])
    have "mul_high N f + 1 < 2 ^ 64" "0 < mul_high P f" using large apart by linarith+
    then show "\<forall>room. checked_grisu2 room (m, e) = checked_digit_gen room (- k) \<lparr>dp_f = mul_high N f + 1, dp_e = q + c + 64\<rparr>
        \<lparr>dp_f = mul_high W f, dp_e = q + c + 64\<rparr> \<lparr>dp_f = mul_high P f - 1, dp_e = q + c + 64\<rparr>"
      by (simp add: checked_grisu2_def b pow(1) Let_def mul)
    have "real N * 10 powi k * 2 powi (- c - 64) < real (mul_high N f + 1)"
      using scaled_product [OF a less(2)] by simp
    then have "real N * 10 powi k * 2 powi (- c - 64) * 2 powi (q + c + 64) < real (mul_high N f + 1) * 2 powi (q + c + 64)"
      by (rule mult_strict_right_mono) simp
    then show "lower_midpoint (m, e) * 10 powi k < real (mul_high N f + 1) * 2 powi (q + c + 64)"
      unfolding scale lo .
    have "real (mul_high P f - 1) < real P * 10 powi k * 2 powi (- c - 64)"
      using scaled_product [OF a P(2)] large by (simp add: of_nat_diff)
    then have "real (mul_high P f - 1) * 2 powi (q + c + 64) < real P * 10 powi k * 2 powi (- c - 64) * 2 powi (q + c + 64)"
      by (rule mult_strict_right_mono) simp
    then show "real (mul_high P f - 1) * 2 powi (q + c + 64) < upper_midpoint (m, e) * 10 powi k"
      unfolding scale up .
  qed (use pow cached_power_decimal [OF pow(2)] apart large in simp_all)
qed

end
