(* ===== verification/FloatReads.thy ===== *)
theory FloatReads
  imports Grisu
begin

text \<open>
  Doubles in JSON text: the text \<^verbatim>\<open>to_chars\<close> makes of a double fits into its 64
  bytes, and the scanner and \<^verbatim>\<open>strtod\<close> read it back as the same double.
\<close>

section \<open>Definitions\<close>

text \<open>The number literals with a fraction or an exponent, in three parts.\<close>

definition fraction_part :: "bytes \<Rightarrow> bytes" where
  "fraction_part fd = (if fd = [] then [] else 0x2E # fd)"

definition exponent_ok :: "bytes \<Rightarrow> bool" where
  "exponent_ok ex \<longleftrightarrow> ex = [] \<or>
     (\<exists>sg xs. ex = 0x65 # sg # xs \<and> sg \<in> {0x2B, 0x2D} \<and> xs \<noteq> [] \<and> list_all digit_byte xs)"

definition exponent_value :: "bytes \<Rightarrow> int" where
  "exponent_value ex =
     (case ex of
        e # sg # xs \<Rightarrow> if sg = 0x2D then - int (decimal xs) else int (decimal xs)
      | _ \<Rightarrow> 0)"

definition float_text :: "bytes \<Rightarrow> bytes \<Rightarrow> bytes \<Rightarrow> bytes" where
  "float_text whole fd ex = whole @ fraction_part fd @ ex"

definition float_parts :: "bytes \<Rightarrow> bytes \<Rightarrow> bytes \<Rightarrow> bool" where
  "float_parts whole fd ex \<longleftrightarrow> (whole = [0x30] \<or> digits_ok whole) \<and> list_all digit_byte fd \<and> exponent_ok ex
     \<and> (fd \<noteq> [] \<or> ex \<noteq> [])"

section \<open>Lemmas\<close>

subsection \<open>Scanning\<close>

lemma run_any1: "list_all digit_byte ds \<Longrightarrow>
    scan_number_run Scan_any1 ty buf (ds @ inp) = scan_number_run Scan_any1 ty (buf @ ds) inp"
  by (induction ds arbitrary: buf) simp_all

lemma run_decimal2: "list_all digit_byte ds \<Longrightarrow>
    scan_number_run Scan_decimal2 ty buf (ds @ inp) = scan_number_run Scan_decimal2 ty (buf @ ds) inp"
  by (induction ds arbitrary: buf) simp_all

lemma run_any2: "list_all digit_byte ds \<Longrightarrow>
    scan_number_run Scan_any2 ty buf (ds @ inp) = scan_number_run Scan_any2 ty (buf @ ds) inp"
  by (induction ds arbitrary: buf) simp_all

lemma run_end:
  assumes "number_end rest" "st \<in> {Scan_zero, Scan_any1, Scan_decimal2, Scan_any2}"
  shows "scan_number_run st ty buf rest = Some (ty, buf, rest)"
  using assms by (cases rest) (auto simp: number_end_def)

lemma run_exponent:
  assumes "exponent_ok ex" "number_end rest" "st \<in> {Scan_zero, Scan_any1, Scan_decimal2}"
  shows "scan_number_run st ty buf (ex @ rest) = Some (if ex = [] then ty else Number_float, buf @ ex, rest)"
proof (cases "ex = []")
  case True
  then show ?thesis using run_end [OF assms(2), of st] assms(3) by auto
next
  case False
  with assms(1) obtain sg x xs where ex: "ex = 0x65 # sg # x # xs" "sg = 0x2B \<or> sg = 0x2D" "digit_byte x" "list_all digit_byte xs"
    by (auto simp: exponent_ok_def neq_Nil_conv)
  have "scan_number_run st ty buf (ex @ rest) = scan_number_run Scan_exponent Number_float (buf @ [0x65]) (sg # x # xs @ rest)"
    using assms(3) by (auto simp: ex(1) digit_byte_def)
  also have "\<dots> = scan_number_run Scan_any2 Number_float (buf @ [0x65, sg, x]) (xs @ rest)"
    using ex(2,3) by auto
  also have "\<dots> = Some (Number_float, buf @ ex, rest)"
    by (simp add: run_any2 [OF ex(4)] run_end [OF assms(2)] ex(1))
  finally show ?thesis using False by simp
qed

lemma run_fraction:
  assumes "list_all digit_byte fd" "exponent_ok ex" "number_end rest" "st \<in> {Scan_zero, Scan_any1}" "fd \<noteq> [] \<or> ex \<noteq> []"
  shows "scan_number_run st ty buf (fraction_part fd @ ex @ rest) = Some (Number_float, buf @ fraction_part fd @ ex, rest)"
proof (cases fd)
  case Nil
  then show ?thesis using run_exponent [OF assms(2,3), of st] assms(4,5) by (auto simp: fraction_part_def)
next
  case (Cons f fs)
  with assms(1) have f: "digit_byte f" "list_all digit_byte fs" by simp_all
  have "scan_number_run st ty buf (fraction_part fd @ ex @ rest)
      = scan_number_run Scan_decimal2 Number_float (buf @ [0x2E, f]) (fs @ ex @ rest)"
    using assms(4) f(1) by (auto simp: fraction_part_def Cons digit_byte_def)
  also have "\<dots> = Some (Number_float, buf @ fraction_part fd @ ex, rest)"
    using run_exponent [OF assms(2,3), of Scan_decimal2] by (auto simp: run_decimal2 [OF f(2)] fraction_part_def Cons)
  finally show ?thesis .
qed

lemma scan_float_text:
  fixes neg :: bool
  assumes "float_parts whole fd ex" "number_end rest"
  defines "num \<equiv> (if neg then [0x2D] else []) @ float_text whole fd ex"
  shows "scan False (num @ rest) = (float_token num, rest)"
proof -
  from assms(1) obtain c ds where w: "whole = c # ds" "digit_byte c" "c = 0x30 \<longrightarrow> ds = []" "list_all digit_byte ds"
    by (auto simp: float_parts_def digits_ok_def neq_Nil_conv list_all_iff digit_byte_def)
  define st where "st = (if c = 0x30 then Scan_zero else Scan_any1)"
  let ?tail = "fraction_part fd @ ex"
  have run: "scan_number_run st ty buf (ds @ ?tail @ rest) = Some (Number_float, buf @ ds @ ?tail, rest)" for ty buf
    using run_fraction [of fd ex rest st] assms(1,2) w run_any1 [OF w(4)]
    by (auto simp: float_parts_def st_def)
  have c: "c \<noteq> 0x2D" "c \<notin> {0x20, 0x09, 0x0A, 0x0D}" "c \<notin> {0x5B, 0x5D, 0x7B, 0x7D, 0x3A, 0x2C, 0x74, 0x66, 0x6E, 0x22}"
    using w(2) by (auto simp: digit_byte_def)
  have enter: "enter_label st ty = ty" for ty by (simp add: st_def)
  show ?thesis
  proof (cases neg)
    case False
    then have num: "num = c # ds @ ?tail" by (simp add: num_def float_text_def w(1))
    have "scan False (num @ rest) = scan_number c (ds @ ?tail @ rest)"
      using c w(2) by (simp add: num scan_no_space scan_after_space_def)
    also have "\<dots> = (float_token num, rest)"
      using c(1) run [of "enter_label st Number_unsigned" "[c]"] by (simp add: scan_number_def st_def [symmetric] num)
    finally show ?thesis .
  next
    case True
    then have num: "num = 0x2D # c # ds @ ?tail" by (simp add: num_def float_text_def w(1))
    have "scan False (num @ rest) = scan_number 0x2D (c # ds @ ?tail @ rest)"
      by (simp add: num scan_no_space scan_after_space_def)
    also have "\<dots> = (float_token num, rest)"
    proof -
      have "scan_number_run Scan_minus Number_integer [0x2D] (c # ds @ ?tail @ rest)
          = scan_number_run st Number_integer [0x2D, c] (ds @ ?tail @ rest)"
        using w(2) by (simp add: st_def)
      also have "\<dots> = Some (Number_float, num, rest)" using run [of Number_integer "[0x2D, c]"] by (simp add: num)
      finally show ?thesis by (simp add: scan_number_def del: scan_number_run.simps)
    qed
    finally show ?thesis .
  qed
qed

subsection \<open>Conversion\<close>

lemma takeWhile_digits: "list_all digit_byte ds \<Longrightarrow> (rest = [] \<or> \<not> digit_byte (hd rest)) \<Longrightarrow> takeWhile digit_byte (ds @ rest) = ds"
  and dropWhile_digits: "list_all digit_byte ds \<Longrightarrow> (rest = [] \<or> \<not> digit_byte (hd rest)) \<Longrightarrow> dropWhile digit_byte (ds @ rest) = rest"
  by (induction ds; cases rest; simp)+

lemma strtod_float_text:
  assumes "float_parts whole fd ex"
  shows "strtod ((if neg then [0x2D] else []) @ float_text whole fd ex)
    = (neg, double_round (decimal (whole @ fd) * 10 ^ nat (exponent_value ex - int (length fd)))
                         (10 ^ nat (- (exponent_value ex - int (length fd)))))"
proof -
  have whole: "list_all digit_byte whole" "whole \<noteq> []" "list_all digit_byte fd" "hd whole \<noteq> 0x2D"
    using assms by (auto simp: float_parts_def digits_ok_def list_all_iff digit_byte_def neq_Nil_conv)
  have ex: "ex = [] \<or> hd ex = 0x65" using assms by (auto simp: float_parts_def exponent_ok_def)
  let ?tail = "fraction_part fd @ ex"
  have tail: "?tail = [] \<or> \<not> digit_byte (hd ?tail)" "ex = [] \<or> \<not> digit_byte (hd ex)"
    using ex by (auto simp: fraction_part_def digit_byte_def)
  have split: "takeWhile digit_byte (whole @ ?tail) = whole" "dropWhile digit_byte (whole @ ?tail) = ?tail"
    "takeWhile digit_byte (fd @ ex) = fd" "dropWhile digit_byte (fd @ ex) = ex"
    using takeWhile_digits dropWhile_digits whole tail by blast+
  have after: "(if ?tail \<noteq> [] \<and> hd ?tail = 0x2E then takeWhile digit_byte (tl ?tail) else []) = fd"
    "(if ?tail \<noteq> [] \<and> hd ?tail = 0x2E then dropWhile digit_byte (tl ?tail) else ?tail) = ex"
    using ex split by (auto simp: fraction_part_def)
  define xs where "xs = (if ex \<noteq> [] \<and> (hd ex = 0x65 \<or> hd ex = 0x45) then tl ex else [])"
  have val: "(if xs \<noteq> [] \<and> hd xs = 0x2D then - int (decimal (if xs \<noteq> [] \<and> (hd xs = 0x2D \<or> hd xs = 0x2B) then tl xs else xs))
      else int (decimal (if xs \<noteq> [] \<and> (hd xs = 0x2D \<or> hd xs = 0x2B) then tl xs else xs))) = exponent_value ex"
    using assms by (auto simp: float_parts_def exponent_ok_def exponent_value_def xs_def decimal_def)
  let ?num = "(if neg then [0x2D] else []) @ float_text whole fd ex"
  have sign: "(?num \<noteq> [] \<and> hd ?num = 0x2D) = neg" "(if neg then tl ?num else ?num) = whole @ ?tail"
    using whole by (simp_all add: float_text_def)
  show ?thesis
    by (simp only: strtod_def Let_def sign split after xs_def [symmetric] val)
qed

subsection \<open>The layout\<close>

lemma fold_decimal:
  "fold (\<lambda>d acc. 10 * acc + (d - 0x30)) bs (a :: nat) = a * 10 ^ length bs + fold (\<lambda>d acc. 10 * acc + (d - 0x30)) bs 0"
proof (induction bs arbitrary: a)
  case (Cons b bs)
  show ?case
    using Cons.IH [of "10 * a + (b - 0x30)"] Cons.IH [of "b - 0x30"] by (simp add: add_mult_distrib)
qed simp

lemma decimal_append_bytes: "decimal (as @ bs) = decimal as * 10 ^ length bs + decimal bs"
  using fold_decimal [of bs "decimal as"] by (simp add: decimal_def)

lemma decimal_zeros [simp]: "decimal (replicate n 0x30) = 0"
  by (induction n) (simp_all add: decimal_def)

lemma append_exponent_value:
  assumes "\<bar>e\<bar> < 1000"
  shows "exponent_ok (0x65 # append_exponent e)" and "exponent_value (0x65 # append_exponent e) = e"
    and "length (append_exponent e) \<le> 4"
proof -
  define k where "k = nat \<bar>e\<bar>"
  have k: "k < 1000" "e = (if e < 0 then - int k else int k)" using assms by (auto simp: k_def)
  define xs where "xs = (if k < 10 then [0x30, 0x30 + k] else if k < 100 then [0x30 + k div 10, 0x30 + k mod 10]
    else [0x30 + k div 100, 0x30 + k mod 100 div 10, 0x30 + k mod 100 mod 10])"
  have e: "append_exponent e = (if e < 0 then 0x2D else 0x2B) # xs"
    by (simp only: append_exponent_def Let_def k_def [symmetric] xs_def)
  have digit: "digit_byte (0x30 + d)" if "d < 10" for d using that by (simp add: digit_byte_def)
  have hundreds: "k = 100 * (k div 100) + 10 * (k mod 100 div 10) + k mod 100 mod 10"
    by simp
  have xs: "xs \<noteq> []" "list_all digit_byte xs" "decimal xs = k" "length xs \<le> 3"
  proof -
    have "k div 100 < 10" "k mod 100 div 10 < 10" using k(1) by (simp_all add: less_mult_imp_div_less)
    then show "list_all digit_byte xs"
      unfolding xs_def using digit [of 0] by (auto intro!: digit simp: less_mult_imp_div_less)
    show "decimal xs = k"
      using hundreds by (auto simp: xs_def decimal_def)
  qed (simp_all add: xs_def)
  from xs show "exponent_ok (0x65 # append_exponent e)" by (auto simp: e exponent_ok_def)
  from xs k(2) show "exponent_value (0x65 # append_exponent e) = e" by (auto simp: e exponent_value_def)
  from xs show "length (append_exponent e) \<le> 4" by (simp add: e)
qed

lemma ten_powi_nat: "real (n * 10 ^ j) * 10 powi i = real n * 10 powi (i + int j)"
  by (simp add: power_int_add)

lemma digits_ok_all: "digits_ok ds \<Longrightarrow> list_all digit_byte ds"
  by (simp add: digits_ok_def list_all_iff)

lemma digits_ok_append: "digits_ok ds \<Longrightarrow> list_all digit_byte xs \<Longrightarrow> digits_ok (ds @ xs)"
  by (cases ds) (auto simp: digits_ok_def list_all_iff)

lemma digits_ok_take: "digits_ok ds \<Longrightarrow> 0 < n \<Longrightarrow> digits_ok (take n ds)"
  by (cases ds; cases n) (auto simp: digits_ok_def dest: in_set_takeD)

lemma list_all_drop: "list_all P xs \<Longrightarrow> list_all P (drop n xs)"
  by (auto simp: list_all_iff dest: in_set_dropD)

lemma format_buffer_parts:
  assumes ds: "digits_ok ds" and n: "\<bar>int (length ds) + K\<bar> < 999"
  obtains whole fd ex where "format_buffer ds K (- 4) 15 = float_text whole fd ex" "float_parts whole fd ex"
    "real (decimal (whole @ fd)) * 10 powi (exponent_value ex - int (length fd)) = real (decimal ds) * 10 powi K"
    "length (float_text whole fd ex) \<le> length ds + 16"
proof -
  define k where "k = int (length ds)"
  let ?n = "k + K"
  have k: "0 < k" using ds by (simp add: k_def digits_ok_def)
  have none: "exponent_ok []" "exponent_value [] = 0" by (simp_all add: exponent_ok_def exponent_value_def)
  note all = digits_ok_all [OF ds]
  have fmt: "format_buffer ds K (- 4) 15 =
     (if k \<le> ?n \<and> ?n \<le> 15 then ds @ replicate (nat (?n - k)) 0x30 @ [0x2E, 0x30]
      else if 0 < ?n \<and> ?n \<le> 15 then take (nat ?n) ds @ [0x2E] @ drop (nat ?n) ds
      else if - 4 < ?n \<and> ?n \<le> 0 then [0x30, 0x2E] @ replicate (nat (- ?n)) 0x30 @ ds
      else if k = 1 then ds @ [0x65] @ append_exponent (?n - 1)
      else take 1 ds @ [0x2E] @ drop 1 ds @ [0x65] @ append_exponent (?n - 1))"
    by (simp only: format_buffer_def Let_def k_def)
  have "\<bar>?n - 1\<bar> < 1000" using n by (simp add: k_def)
  note ex = append_exponent_value [OF this]
  consider "k \<le> ?n" "?n \<le> 15" | "\<not> k \<le> ?n" "0 < ?n" "?n \<le> 15" | "- 4 < ?n" "?n \<le> 0"
    | "\<not> ?n \<le> 15 \<or> ?n \<le> - 4" "k = 1" | "\<not> ?n \<le> 15 \<or> ?n \<le> - 4" "k \<noteq> 1"
    by linarith
  then show ?thesis
  proof cases
    case 1
    let ?z = "replicate (nat K) (0x30 :: nat)"
    have "list_all digit_byte ?z" by (simp add: list_all_iff digit_byte_def)
    then have "float_parts (ds @ ?z) [0x30] []"
      using ds none by (simp add: float_parts_def digits_ok_append digit_byte_def)
    moreover have "format_buffer ds K (- 4) 15 = float_text (ds @ ?z) [0x30] []"
      using 1 by (simp add: fmt float_text_def fraction_part_def)
    moreover have "decimal ((ds @ ?z) @ [0x30]) = decimal ds * 10 ^ (nat K + 1)"
      by (simp add: decimal_append_bytes) (simp add: decimal_def)
    then have "real (decimal ((ds @ ?z) @ [0x30])) * 10 powi (exponent_value [] - int (length [0x30 :: nat])) = real (decimal ds) * 10 powi K"
      using 1 by (simp only: ten_powi_nat) (simp add: none)
    moreover have "length (float_text (ds @ ?z) [0x30] []) \<le> length ds + 16"
    proof -
      have "K \<le> 14" using 1 k by linarith
      then show ?thesis by (simp add: float_text_def fraction_part_def)
    qed
    ultimately show ?thesis using that by blast
  next
    case 2
    have "drop (nat ?n) ds \<noteq> []" using 2 by (simp add: k_def)
    moreover from this have "float_parts (take (nat ?n) ds) (drop (nat ?n) ds) []"
      using 2 ds none all by (simp add: float_parts_def digits_ok_take list_all_drop)
    moreover have "0 - int (length (drop (nat ?n) ds)) = K" using 2 by (simp add: k_def)
    ultimately show ?thesis
      by (intro that [of "take (nat ?n) ds" "drop (nat ?n) ds" "[]"]) (use 2 in \<open>simp_all add: fmt float_text_def fraction_part_def none\<close>)
  next
    case 3
    let ?z = "replicate (nat (- ?n)) (0x30 :: nat)"
    have "list_all digit_byte (?z @ ds)" using all by (auto simp: list_all_iff digit_byte_def)
    then have parts: "float_parts [0x30] (?z @ ds) []"
      using ds none by (simp add: float_parts_def digits_ok_def)
    have z: "?z @ ds \<noteq> []" "\<not> k \<le> ?n" "\<not> 0 < ?n" using 3 k ds by (simp_all add: digits_ok_def)
    have f: "format_buffer ds K (- 4) 15 = float_text [0x30] (?z @ ds) []"
      using z 3 by (simp only: fmt if_False if_True simp_thms) (simp add: float_text_def fraction_part_def)
    have "int (length (?z @ ds)) = - K" using 3 by (simp add: k_def)
    then have K: "exponent_value [] - int (length (?z @ ds)) = K" by (simp add: none)
    have v: "decimal ([0x30] @ ?z @ ds) = decimal ds"
      by (simp only: decimal_append_bytes decimal_zeros) (simp add: decimal_def)
    have "length (float_text [0x30] (?z @ ds) []) \<le> length ds + 16"
      using 3 z by (simp add: float_text_def fraction_part_def)
    then show ?thesis using that [OF f parts] K v by simp
  next
    case 4
    have "K = ?n - 1" using 4 by simp
    then show ?thesis
      using 4 ds ex by (intro that [of ds "[]" "0x65 # append_exponent (?n - 1)"])
        (auto simp: fmt float_text_def fraction_part_def float_parts_def)
  next
    case 5
    have len: "1 < length ds" using 5 k unfolding k_def by linarith
    then have d: "drop 1 ds \<noteq> []" by simp
    moreover have "float_parts (take 1 ds) (drop 1 ds) (0x65 # append_exponent (?n - 1))"
      using 5 ds ex all by (simp add: float_parts_def digits_ok_take list_all_drop)
    moreover have "(?n - 1) - int (length (drop 1 ds)) = K" using len by (simp add: k_def of_nat_diff)
    moreover have "format_buffer ds K (- 4) 15 = float_text (take 1 ds) (drop 1 ds) (0x65 # append_exponent (?n - 1))"
      using 5 d k by (auto simp: fmt float_text_def fraction_part_def)
    ultimately show ?thesis
      using ex by (intro that [of "take 1 ds" "drop 1 ds" "0x65 # append_exponent (?n - 1)"])
        (simp_all only: append_take_drop_id, simp add: float_text_def fraction_part_def)
  qed
qed

subsection \<open>The round trip\<close>

lemma dump_float_zero: "dump_float neg (0, 0) = Inr ((if neg then [0x2D] else []) @ float_text [0x30] [0x30] [])"
  by (simp add: dump_float_def to_chars_def Let_def float_text_def fraction_part_def)

lemma grisu2_nearest:
  assumes "double_ok (m, e)" "0 < m" "29 \<le> room"
  obtains ds K where "grisu2 room (m, e) = Some (ds, K)" "digits_ok ds" "length ds \<le> 29" "- 343 \<le> K" "K \<le> 309"
    "checked_grisu2 room (m, e) = Some (ds, K)"
    "lower_midpoint (m, e) < real (decimal ds) * 10 powi K" "real (decimal ds) * 10 powi K < upper_midpoint (m, e)"
proof -
  obtain Mm w Mp q k where g: "\<forall>room. grisu2 room (m, e)
       = grisu2_digit_gen room (- k) \<lparr>dp_f = Mm, dp_e = q\<rparr> \<lparr>dp_f = w, dp_e = q\<rparr> \<lparr>dp_f = Mp, dp_e = q\<rparr>"
    and chk: "\<forall>room. checked_grisu2 room (m, e)
       = checked_digit_gen room (- k) \<lparr>dp_f = Mm, dp_e = q\<rparr> \<lparr>dp_f = w, dp_e = q\<rparr> \<lparr>dp_f = Mp, dp_e = q\<rparr>"
    and q: "- 60 \<le> q" "q \<le> - 32" and k: "- 300 \<le> k" "k \<le> 324"
    and M: "0 < Mm" "Mm \<le> w" "w \<le> Mp" "Mm < Mp" "2 ^ 61 \<le> Mp" "Mp < 2 ^ 64"
    and lo: "lower_midpoint (m, e) * 10 powi k < real Mm * 2 powi q" and hi: "real Mp * 2 powi q < upper_midpoint (m, e) * 10 powi k"
    by (rule grisu2_boundaries [OF assms(1,2)])
  obtain ds x where
    d0: "checked_digit_gen room (- k) \<lparr>dp_f = Mm, dp_e = q\<rparr> \<lparr>dp_f = w, dp_e = q\<rparr> \<lparr>dp_f = Mp, dp_e = q\<rparr> = Some (ds, - k + x)"
    and d: "grisu2_digit_gen room (- k) \<lparr>dp_f = Mm, dp_e = q\<rparr> \<lparr>dp_f = w, dp_e = q\<rparr> \<lparr>dp_f = Mp, dp_e = q\<rparr> = Some (ds, - k + x)"
    "digits_ok ds" "length ds \<le> 29" "- 19 \<le> x" "x \<le> 9"
    and b: "real Mm * 2 powi q \<le> real (decimal ds) * 10 powi x" "real (decimal ds) * 10 powi x \<le> real Mp * 2 powi q"
    by (rule grisu2_digit_gen_spec [OF q M(1,4-6) assms(3) M(2,3)])
  have ten: "(10 :: real) powi (- k + x) * 10 powi k = 10 powi x" by (simp flip: power_int_add)
  have p: "0 < (10 :: real) powi k" by simp
  show ?thesis
  proof (rule that)
    show "grisu2 room (m, e) = Some (ds, - k + x)" using g d(1) by simp
    show "checked_grisu2 room (m, e) = Some (ds, - k + x)" using chk d0 by simp
    have "lower_midpoint (m, e) * 10 powi k < real (decimal ds) * 10 powi (- k + x) * 10 powi k"
      unfolding mult.assoc ten using lo b(1) by (rule less_le_trans)
    then show "lower_midpoint (m, e) < real (decimal ds) * 10 powi (- k + x)" using p by (rule mult_right_less_imp_less [OF _ less_imp_le])
    have "real (decimal ds) * 10 powi (- k + x) * 10 powi k < upper_midpoint (m, e) * 10 powi k"
      unfolding mult.assoc ten using b(2) hi by (rule le_less_trans)
    then show "real (decimal ds) * 10 powi (- k + x) < upper_midpoint (m, e)" using p by (rule mult_right_less_imp_less [OF _ less_imp_le])
  qed (use d k in simp_all)
qed

lemma float_text_token:
  assumes "float_parts whole fd ex"
    and "double_round (decimal (whole @ fd) * 10 ^ nat (exponent_value ex - int (length fd)))
           (10 ^ nat (- (exponent_value ex - int (length fd)))) = Some (m, e)"
  shows "reads_scalar ((if neg then [0x2D] else []) @ float_text whole fd ex) (JFloat neg m e)"
  using scan_float_text [OF assms(1), of _ neg] strtod_float_text [OF assms(1), of neg] assms(2)
  by (simp add: reads_scalar_def float_token_def)

lemma ten_powi_ratio: "real (n * 10 ^ nat i) / real (10 ^ nat (- i)) = real n * 10 powi i"
  by (cases "0 \<le> i") (simp_all add: power_int_def field_simps)

text \<open>
  The text of a double: a number literal of at most 45 bytes and perhaps a sign, which
  \<^verbatim>\<open>strtod\<close> rounds to the double it was made from.
\<close>

lemma dump_float_text:
  assumes "double_ok (m, e)"
  obtains whole fd ex where
    "dump_float neg (m, e) = Inr ((if neg then [0x2D] else []) @ float_text whole fd ex)"
    "float_parts whole fd ex" "length (float_text whole fd ex) \<le> 45"
    "double_round (decimal (whole @ fd) * 10 ^ nat (exponent_value ex - int (length fd)))
       (10 ^ nat (- (exponent_value ex - int (length fd)))) = Some (m, e)"
proof (cases "m = 0")
  case True
  then have e: "e = 0" using assms by (simp add: double_ok_def)
  show ?thesis
    by (rule that [of "[0x30]" "[0x30]" "[]"])
      (simp_all add: True e dump_float_zero float_text_def fraction_part_def float_parts_def exponent_ok_def
        digit_byte_def exponent_value_def decimal_def double_round_def)
next
  case False
  let ?sign = "if neg then [0x2D] else [] :: bytes"
  have room: "29 \<le> 64 - length ?sign" by simp
  obtain ds K where g: "grisu2 (64 - length ?sign) (m, e) = Some (ds, K)" "digits_ok ds" "length ds \<le> 29" "- 343 \<le> K" "K \<le> 309"
      "checked_grisu2 (64 - length ?sign) (m, e) = Some (ds, K)"
    and lo: "lower_midpoint (m, e) < real (decimal ds) * 10 powi K" and hi: "real (decimal ds) * 10 powi K < upper_midpoint (m, e)"
    by (rule grisu2_nearest [OF assms _ room]) (use False in simp)
  have n: "\<bar>int (length ds) + K\<bar> < 999" using g by linarith
  obtain whole fd ex where f: "format_buffer ds K (- 4) 15 = float_text whole fd ex" "float_parts whole fd ex"
    and v: "real (decimal (whole @ fd)) * 10 powi (exponent_value ex - int (length fd)) = real (decimal ds) * 10 powi K"
    and len: "length (float_text whole fd ex) \<le> length ds + 16"
    by (rule format_buffer_parts [OF g(2) n])
  let ?i = "exponent_value ex - int (length fd)"
  have "double_round (decimal (whole @ fd) * 10 ^ nat ?i) (10 ^ nat (- ?i)) = Some (m, e)"
    by (rule double_round_nearest [OF assms]) (use False lo hi v in \<open>simp_all only: ten_powi_ratio, simp_all\<close>)
  moreover have "dump_float neg (m, e) = Inr (?sign @ float_text whole fd ex)"
    using False g f(1) len by (simp add: dump_float_def to_chars_def Let_def)
  ultimately show ?thesis using that f(2) len g(3) by simp
qed

lemma dump_float_reads:
  assumes "double_ok (m, e)"
  shows "\<exists>bs. dump_float neg (m, e) = Inr bs \<and> reads_scalar bs (JFloat neg m e)"
proof -
  obtain whole fd ex where t: "dump_float neg (m, e) = Inr ((if neg then [0x2D] else []) @ float_text whole fd ex)"
    "float_parts whole fd ex"
    "double_round (decimal (whole @ fd) * 10 ^ nat (exponent_value ex - int (length fd)))
       (10 ^ nat (- (exponent_value ex - int (length fd)))) = Some (m, e)"
    by (rule dump_float_text [OF assms, of neg])
  then show ?thesis using float_text_token [OF t(2,3), of neg] by blast
qed

lemma digits_bytes: "list_all digit_byte ds \<Longrightarrow> b \<in> set ds \<Longrightarrow> b < 256"
  by (induction ds) (auto simp: digit_byte_def)

lemma float_text_bytes: "float_parts whole fd ex \<Longrightarrow> b \<in> set (float_text whole fd ex) \<Longrightarrow> b < 256"
  by (auto simp: float_parts_def float_text_def fraction_part_def exponent_ok_def
      dest: digits_bytes digits_bytes [OF digits_ok_all] split: if_splits)

section \<open>Properties\<close>

text \<open>
  C7: The text of a double survives a round trip: for every finite double, the normal, the
  subnormal ones and both zeros, \<^verbatim>\<open>dump_float\<close> stays inside its buffer of 64 bytes and
  writes a text that the scanner, whatever ends the number in the input, reads as the float
  token of exactly this double, sign included.
\<close>

theorem float_roundtrip:
  assumes "double_ok (m, e)"
  shows "\<exists>txt. dump_float neg (m, e) = Inr txt \<and> length txt \<le> 46
    \<and> (\<forall>rest. number_end rest \<longrightarrow> scan False (txt @ rest) = (Value_float neg (Some (m, e)), rest))"
proof -
  obtain whole fd ex where t: "dump_float neg (m, e) = Inr ((if neg then [0x2D] else []) @ float_text whole fd ex)"
    "float_parts whole fd ex" "length (float_text whole fd ex) \<le> 45"
    "double_round (decimal (whole @ fd) * 10 ^ nat (exponent_value ex - int (length fd)))
       (10 ^ nat (- (exponent_value ex - int (length fd)))) = Some (m, e)"
    by (rule dump_float_text [OF assms, of neg])
  have "float_token ((if neg then [0x2D] else []) @ float_text whole fd ex) = Value_float neg (Some (m, e))"
    by (simp only: float_token_def strtod_float_text [OF t(2)] t(4) prod.case)
  then show ?thesis using t(1,3) scan_float_text [OF t(2), of _ neg] by simp
qed

theorem float_roundtrip_witness:
  "\<exists>txt. dump_float True (2 ^ 52 + 1, - 1074) = Inr txt \<and> length txt \<le> 46
    \<and> (\<forall>rest. number_end rest \<longrightarrow> scan False (txt @ rest) = (Value_float True (Some (2 ^ 52 + 1, - 1074)), rest))"
  by (rule float_roundtrip) (simp add: double_ok_def)

text \<open>
  C16: The digit loops of Grisu2 end and never overflow: for every positive double,
  \<^verbatim>\<open>for (;;)\<close> of \<^verbatim>\<open>grisu2_digit_gen\<close> is left before 29 digits are written, and
  the digits and the exponent are those that the version in unbounded numbers returns, which
  would have stopped at the first sum, product, shift or difference that does not fit its
  counter and at the first assertion in these functions that fails (\<open>checked_grisu2\<close>): none
  of the counters ever wraps. The number they stand for lies strictly between the midpoints around
  the double, so that they identify it.
\<close>

theorem digit_loops_end:
  assumes "double_ok (m, e)" "0 < m"
  shows "\<exists>ds K. grisu2 29 (m, e) = Some (ds, K) \<and> checked_grisu2 29 (m, e) = Some (ds, K)
    \<and> digits_ok ds \<and> length ds \<le> 29 \<and> - 343 \<le> K \<and> K \<le> 309
    \<and> lower_midpoint (m, e) < real (decimal ds) * 10 powi K \<and> real (decimal ds) * 10 powi K < upper_midpoint (m, e)"
  by (rule grisu2_nearest [OF assms order_refl]) blast

theorem digit_loops_end_witness:
  "\<exists>ds K. grisu2 29 (1, - 1074) = Some (ds, K) \<and> checked_grisu2 29 (1, - 1074) = Some (ds, K)
    \<and> digits_ok ds \<and> length ds \<le> 29 \<and> - 343 \<le> K \<and> K \<le> 309
    \<and> lower_midpoint (1, - 1074) < real (decimal ds) * 10 powi K \<and> real (decimal ds) * 10 powi K < upper_midpoint (1, - 1074)"
  by (rule digit_loops_end) (simp_all add: double_ok_def)

end
