(* ===== verification/JsonRoundTrip.thy ===== *)
theory JsonRoundTrip
  imports FloatReads
begin

text \<open>
  The parser and the printer of \<^verbatim>\<open>json.hpp\<close> as the server uses them together: every
  value that comes out of \<^verbatim>\<open>json::parse\<close> is well-formed, \<^verbatim>\<open>dump()\<close> never raises on
  such a value, and parsing the printed text gives the value back.
\<close>

section \<open>Definitions\<close>

definition token_ok :: "token \<Rightarrow> bool" where
  "token_ok t \<longleftrightarrow>
     (case t of
        Value_string s \<Rightarrow> utf8_ok s
      | Value_unsigned n \<Rightarrow> n < 2 ^ 64
      | Value_integer i \<Rightarrow> - (2 ^ 63) \<le> i \<and> i \<le> 0
      | Value_float neg (Some x) \<Rightarrow> double_ok x
      | _ \<Rightarrow> True)"

fun mode_ok :: "parse_mode \<Rightarrow> bool" where
  "mode_ok (Next t) \<longleftrightarrow> token_ok t"
| "mode_ok (Value v) \<longleftrightarrow> json_ok v"

fun frame_ok :: "frame \<Rightarrow> bool" where
  "frame_ok (Array_frame vs) \<longleftrightarrow> list_all json_ok vs"
| "frame_ok (Object_frame ms k) \<longleftrightarrow> json_ok (JObj ms) \<and> utf8_ok (bytes_of k)"

definition space_byte :: "nat \<Rightarrow> bool" where
  "space_byte c \<longleftrightarrow> c = 0x20 \<or> c = 0x09 \<or> c = 0x0A \<or> c = 0x0D"

definition all_bytes :: "bytes \<Rightarrow> bool" where
  "all_bytes bs \<longleftrightarrow> (\<forall>b\<in>set bs. b < 256)"

text \<open>The text of a value on which \<^verbatim>\<open>dump()\<close> returns.\<close>

definition printed :: "json \<Rightarrow> string" where
  "printed v = (case dump_text v of Inr txt \<Rightarrow> txt | Inl e \<Rightarrow> [])"

section \<open>Lemmas\<close>

subsection \<open>A printed value is parsed\<close>

lemma skip_spaces: "list_all space_byte ws \<Longrightarrow> scan False (ws @ inp) = scan False inp"
  by (induction ws) (auto simp: scan_def skip_whitespace_def space_byte_def)

lemma spaces_end:
  assumes "list_all space_byte ws"
  shows "number_end ws" and "fst (scan False ws) = End_of_input"
proof -
  show "number_end ws" using assms by (cases ws) (auto simp: number_end_def space_byte_def digit_byte_def)
  show "fst (scan False ws) = End_of_input"
    using skip_spaces [OF assms, of "[]"] by (simp add: scan_def skip_whitespace_def scan_after_space_def)
qed

lemma scan_at_start:
  assumes "fst (scan False bs) \<noteq> Token_error"
  shows "scan True bs = scan False bs"
proof (cases bs)
  case (Cons b bs')
  have "scan False (0xEF # bs') = (Token_error, [])"
    by (simp add: scan_no_space scan_after_space_def digit_byte_def)
  with assms Cons have "b \<noteq> 0xEF" by auto
  then show ?thesis by (simp add: Cons scan_def skip_bom_def)
qed (simp add: scan_def skip_bom_def)

lemma parse_reads:
  assumes "reads_value bs v" "list_all space_byte ws"
  shows "parse_bytes (bs @ ws) = Inr v"
proof -
  obtain t r where t: "scan False (bs @ ws) = (t, r)" by fastforce
  have s: "sax_parse_internal (Next t) r [] = Inr (v, ws)"
    using reads_valueD [OF assms(1) spaces_end(1) [OF assms(2)], where stack = "[]"] t
    by (auto simp: sax_parse_internal.simps(2))
  then have "t \<noteq> Token_error" by (auto simp: sax_parse_internal.simps(1))
  with t have "scan True (bs @ ws) = (t, r)" using scan_at_start [of "bs @ ws"] by simp
  then show ?thesis using spaces_end(2) [OF assms(2)] by (simp add: parse_bytes_def s)
qed

lemma bytes_of_append: "bytes_of (s @ t) = bytes_of s @ bytes_of t"
  by (simp add: bytes_of_def)

lemma utf8_bytes_of_dom: "utf8_ok bs \<Longrightarrow> bytes_of (dom_string bs) = bs"
  by (intro bytes_of_dom_string) (auto dest: utf8_ok_bytes)

lemma dump_norm_value:
  "dump (norm_value v) = dump v"
  "dump_elements (map norm_value vs) = dump_elements vs"
  "dump_members (map norm_member ms) = dump_members ms"
  by (induction v and vs and ms rule: dump_dump_elements_dump_members.induct)
     (simp_all add: norm_member_Pair norm_value_JObj del: norm_value.simps(3))

subsection \<open>The printed text consists of bytes\<close>

lemma all_bytes_simps [simp]:
  "all_bytes []" "all_bytes (b # bs) \<longleftrightarrow> b < 256 \<and> all_bytes bs" "all_bytes (bs @ cs) \<longleftrightarrow> all_bytes bs \<and> all_bytes cs"
  by (auto simp: all_bytes_def)

lemma hex_char_byte: "d < 16 \<Longrightarrow> hex_char d < 256"
  by (simp add: hex_char_def)

lemma hex4_bytes: "all_bytes (hex4 n)"
  by (simp add: hex4_def hex_char_byte)

lemma unicode_escape_bytes: "all_bytes (unicode_escape n)"
  by (simp add: unicode_escape_def hex4_bytes)

lemma escaped_bytes: "scalar cp \<Longrightarrow> all_bytes (escaped False cp)"
proof -
  assume "scalar cp"
  then have "all_bytes (codepoint_bytes cp)" using codepoint_bytes_range by (auto simp: all_bytes_def)
  then show ?thesis by (simp add: escaped_def unicode_escape_bytes)
qed

lemma dump_string_bytes: "dump_string s = Inr bs \<Longrightarrow> all_bytes bs"
proof -
  assume a: "dump_string s = Inr bs"
  have e: "dump_escaped False (bytes_of s) =
      (if utf8_ok (bytes_of s) then Inr (concat (map (escaped False) (codepoints (bytes_of s)))) else Inl Invalid_utf8)"
    by (rule dump_escaped_spec) (simp add: bytes_of_less)
  with a have u: "utf8_ok (bytes_of s)" by (auto simp: dump_string_def split: if_splits)
  have "all_bytes (concat (map (escaped False) cps))" if "list_all scalar cps" for cps
    using that by (induction cps) (simp_all add: escaped_bytes)
  with a e u codepoints_utf8_ok(1) [OF u] show ?thesis by (auto simp: dump_string_def)
qed

lemma numeral_bytes_all: "all_bytes (numeral_bytes n)"
  using digits_bytes [OF numeral_bytes_digits] by (auto simp: all_bytes_def)

lemma dump_integer_bytes: "- (2 ^ 63) \<le> x \<Longrightarrow> x < 2 ^ 64 \<Longrightarrow> dump_integer x = Inr bs \<Longrightarrow> all_bytes bs"
  by (auto simp: dump_integer_numeral numeral_bytes_all split: if_splits)

lemma dump_float_bytes:
  assumes "double_ok (m, e)" "dump_float neg (m, e) = Inr bs"
  shows "all_bytes bs"
  by (rule dump_float_text [OF assms(1), of neg]) (use assms(2) float_text_bytes in \<open>auto simp: all_bytes_def\<close>)

lemma dump_seq_Inr: "dump_seq a sep b = Inr bs \<longleftrightarrow> (\<exists>x y. a = Inr x \<and> b = Inr y \<and> bs = x @ sep @ y)"
  by (cases a; cases b) auto

lemma map_sum_Inr: "map_sum id f x = Inr bs \<longleftrightarrow> (\<exists>y. x = Inr y \<and> bs = f y)"
  by (cases x) auto

lemma dump_bytes:
  "json_ok v \<Longrightarrow> dump v = Inr bs \<Longrightarrow> all_bytes bs"
  "list_all json_ok vs \<Longrightarrow> dump_elements vs = Inr bs \<Longrightarrow> all_bytes bs"
  "list_all member_ok ms \<Longrightarrow> dump_members ms = Inr bs \<Longrightarrow> all_bytes bs"
proof (induction v and vs and ms arbitrary: bs and bs and bs rule: dump_dump_elements_dump_members.induct)
  case (3 i)
  then show ?case using dump_integer_bytes [of i bs] by simp
next
  case (4 n)
  then show ?case using dump_integer_bytes [of "int n" bs] by simp
next
  case (8 ms)
  then show ?case by (auto simp: map_sum_Inr json_ok_JObj simp del: json_ok.simps split: if_splits)
next
  case (12 k v ms)
  then show ?case by (auto simp: dump_seq_Inr member_ok_def dest: dump_string_bytes split: if_splits)
qed (auto simp: map_sum_Inr dump_seq_Inr list_all_iff bytes_of_def dest: dump_string_bytes dump_float_bytes
      split: if_splits)

lemma dump_parses:
  assumes "json_ok v" "list_all space_byte (bytes_of ws)"
  shows "\<exists>s. dump_text v = Inr s \<and> parse (s @ ws) = Inr (norm_value v)"
proof -
  obtain bs where bs: "dump v = Inr bs" "reads_value bs (norm_value v)"
    using dump_reads(1) [OF dump_float_reads assms(1)] by blast
  then have "all_bytes bs" using dump_bytes(1) assms(1) by blast
  then have "bytes_of (dom_string bs) = bs" by (intro bytes_of_dom_string) (simp add: all_bytes_def)
  then show ?thesis
    using parse_reads [OF bs(2) assms(2)] by (simp add: dump_text_def bs(1) parse_def bytes_of_append)
qed

lemma parse_printed:
  assumes "json_ok v" "list_all space_byte (bytes_of ws)"
  shows "parse (printed v @ ws) = Inr (norm_value v)"
  using dump_parses [OF assms] by (auto simp: printed_def)

subsection \<open>A parsed value is well-formed\<close>

lemma token_ok_simps [simp]:
  "token_ok Literal_true" "token_ok Literal_false" "token_ok Literal_null" "token_ok Token_error" "token_ok End_of_input"
  "token_ok Begin_array" "token_ok Begin_object" "token_ok End_array" "token_ok End_object"
  "token_ok Name_separator" "token_ok Value_separator"
  "token_ok (Value_string s) \<longleftrightarrow> utf8_ok s" "token_ok (Value_float neg None)"
  by (simp_all add: token_ok_def)

lemma float_token_ok: "token_ok (float_token txt)"
proof -
  have "\<exists>n i. snd (strtod txt) = double_round n (10 ^ i)"
    unfolding strtod_def Let_def snd_conv by blast
  then have "double_ok x" if "snd (strtod txt) = Some x" for x
    using that double_round_ok [of "10 ^ i" for i] by fastforce
  then show ?thesis by (cases "strtod txt"; cases "snd (strtod txt)") (auto simp: float_token_def token_ok_def)
qed

lemma convert_number_ok: "token_ok (convert_number ty buf)"
  by (cases ty) (auto simp: float_token_ok, auto simp: token_ok_def)

lemma scan_string_ok: "token_ok (fst (scan_string [] inp))"
proof (cases "scan_string [] inp")
  case (Pair t rest)
  have "utf8_ok []" by simp
  have "t = Token_error \<or> (\<exists>s. t = Value_string s)"
    if "scan_string buf inp = (t, rest)" for buf inp
    using that by (induction buf inp rule: scan_string.induct) (subst (asm) (2) scan_string.simps, auto split: string_step.splits)
  with Pair scan_string_utf8_ok [of "[]" inp] show ?thesis by (cases t) fastforce+
qed

lemma scan_literal_ok: "token_ok tok \<Longrightarrow> token_ok (fst (scan_literal ls tok inp))"
  by (induction ls tok inp rule: scan_literal.induct) auto

lemma scan_number_ok: "token_ok (fst (scan_number c inp))"
  by (auto simp: scan_number_def Let_def convert_number_ok split: option.splits)

lemma scan_after_space_ok: "token_ok (fst (scan_after_space inp))"
  by (cases inp) (simp_all add: scan_after_space_def scan_string_ok scan_literal_ok scan_number_ok)

lemma scan_ok: "token_ok (fst (scan b inp))"
  by (simp add: scan_def scan_after_space_ok split: option.splits)

lemma scan_ok_eq: "(t, rest) = scan b inp \<Longrightarrow> token_ok t"
  using scan_ok [of b inp] by (cases "scan b inp") simp

lemma scalar_value_ok: "token_ok t \<Longrightarrow> scalar_value t = Some (Inr v) \<Longrightarrow> json_ok v"
  by (cases t rule: scalar_value.cases) (auto simp: utf8_bytes_of_dom, auto simp: token_ok_def)

lemma object_key_ok: "token_ok t \<Longrightarrow> object_key t inp = Some (k, rest) \<Longrightarrow> utf8_ok (bytes_of k)"
  by (auto simp: object_key_def utf8_bytes_of_dom split: token.splits prod.splits)

lemma member_put_keys: "fst ` set (member_put k v ms) = insert k (fst ` set ms)"
  by (induction k v ms rule: member_put.induct) auto

lemma member_put_members: "m \<in> set (member_put k v ms) \<Longrightarrow> m = (k, v) \<or> m \<in> set ms"
  by (induction k v ms rule: member_put.induct) (auto split: if_splits)

lemma member_put_sorted:
  "sorted_wrt key_less (map fst ms) \<Longrightarrow> sorted_wrt key_less (map fst (member_put k v ms))"
proof (induction k v ms rule: member_put.induct)
  case (2 k v k' v' ms)
  then show ?case
    using key_less_total [of k k'] key_less_trans [of k k'] member_put_keys [of k v ms] by auto
qed simp

lemma member_put_ok:
  assumes "json_ok (JObj ms)" "utf8_ok (bytes_of k)" "json_ok v"
  shows "json_ok (JObj (member_put k v ms))"
  using assms member_put_sorted [of ms k v] by (auto dest!: member_put_members)


lemma sax_value_ok:
  "sax_parse_internal mode inp stack = Inr (v, rest) \<Longrightarrow> mode_ok mode \<Longrightarrow> list_all frame_ok stack \<Longrightarrow> json_ok v"
proof (induction mode inp stack rule: sax_parse_internal.induct)
  case (1 t inp stack)
  obtain t1 inp1 where s1: "scan False inp = (t1, inp1)" by fastforce
  have k1: "token_ok t1" using scan_ok [of False inp] s1 by simp
  note unfold = "1.prems"(1) [unfolded sax_parse_internal.simps(1) [of t inp stack] s1 Let_def prod.case]
  consider "t = Begin_object" "t1 = End_object"
    | k inp2 t3 inp3 where "t = Begin_object" "t1 \<noteq> End_object" "object_key t1 inp1 = Some (k, inp2)" "scan False inp2 = (t3, inp3)"
    | "t = Begin_array" "t1 = End_array" | "t = Begin_array" "t1 \<noteq> End_array"
    | v' where "t \<noteq> Begin_object" "t \<noteq> Begin_array" "scalar_value t = Some (Inr v')"
    using unfold by (auto split: if_splits option.splits sum.splits prod.splits)
  then show ?case
  proof cases
    case 1
    show ?thesis by (rule "1.IH"(1) [OF 1(1) s1 [symmetric] refl 1(2)]) (use unfold 1 "1.prems"(3) in simp_all)
  next
    case (2 k inp2 t3 inp3)
    have "frame_ok (Object_frame [] k)" using object_key_ok [OF k1 2(3)] by simp
    then show ?thesis
      using "1.IH"(2) [OF 2(1) s1 [symmetric] refl 2(2,3) refl 2(4) [symmetric] refl] unfold 2 "1.prems"(3) scan_ok [of False inp2] by simp
  next
    case 3
    show ?thesis by (rule "1.IH"(3) [OF _ 3(1) s1 [symmetric] refl 3(2)]) (use unfold 3 "1.prems"(3) in simp_all)
  next
    case 4
    show ?thesis by (rule "1.IH"(4) [OF _ 4(1) s1 [symmetric] refl 4(2)]) (use unfold 4 k1 "1.prems"(3) in simp_all)
  next
    case (5 v')
    show ?thesis by (rule "1.IH"(5) [OF 5 refl]) (use unfold 5 scalar_value_ok [OF _ 5(3)] "1.prems"(2,3) in simp_all)
  qed
next
  case (2 v inp)
  then show ?case by (simp add: sax_parse_internal.simps(2))
next
  case (3 v inp vs stack)
  obtain t1 inp1 where s1: "scan False inp = (t1, inp1)" by fastforce
  obtain t2 inp2 where s2: "scan False inp1 = (t2, inp2)" by fastforce
  note unfold = "3.prems"(1) [unfolded sax_parse_internal.simps(3) [of v inp vs stack] s1 s2 Let_def prod.case]
  have vs: "list_all json_ok (vs @ [v])" "list_all frame_ok stack" using "3.prems"(2,3) by simp_all
  consider "t1 = Value_separator" | "t1 \<noteq> Value_separator" "t1 = End_array" using unfold by (auto split: if_splits)
  then show ?case
  proof cases
    case 1
    show ?thesis by (rule "3.IH"(1) [OF s1 [symmetric] refl 1 s2 [symmetric] refl])
      (use unfold 1 vs scan_ok [of False inp1] s2 in simp_all)
  next
    case 2
    show ?thesis by (rule "3.IH"(2) [OF s1 [symmetric] refl 2]) (use unfold 2 vs in \<open>simp_all add: list_all_iff\<close>)
  qed
next
  case (4 v inp ms k stack)
  obtain t1 inp1 where s1: "scan False inp = (t1, inp1)" by fastforce
  obtain t2 inp2 where s2: "scan False inp1 = (t2, inp2)" by fastforce
  note unfold = "4.prems"(1) [unfolded sax_parse_internal.simps(4) [of v inp ms k stack] s1 s2 Let_def prod.case]
  have ms: "json_ok (JObj (member_put k v ms))" "list_all frame_ok stack"
    using "4.prems"(2,3) member_put_ok [of ms k v] by simp_all
  have k2: "token_ok t2" using scan_ok [of False inp1] s2 by simp
  consider k' inp3 t4 inp4 where "t1 = Value_separator" "object_key t2 inp2 = Some (k', inp3)" "scan False inp3 = (t4, inp4)"
    | "t1 \<noteq> Value_separator" "t1 = End_object" using unfold by (auto split: if_splits option.splits prod.splits)
  then show ?case
  proof cases
    case (1 k' inp3 t4 inp4)
    have "frame_ok (Object_frame (member_put k v ms) k')" using ms object_key_ok [OF k2 1(2)] by simp
    then show ?thesis
      using "4.IH"(1) [OF s1 [symmetric] refl 1(1) s2 [symmetric] refl 1(2) refl 1(3) [symmetric] refl] unfold 1 ms scan_ok [of False inp3] by simp
  next
    case 2
    show ?thesis by (rule "4.IH"(2) [OF s1 [symmetric] refl 2]) (use unfold 2 ms in simp_all)
  qed
qed

lemma parse_result_ok:
  assumes "parse txt = Inr v"
  shows "json_ok v"
proof -
  obtain t inp where s: "scan True (bytes_of txt) = (t, inp)" by fastforce
  with assms obtain rest where "sax_parse_internal (Next t) inp [] = Inr (v, rest)"
    by (auto simp: parse_def parse_bytes_def split: sum.splits if_splits)
  then show ?thesis by (rule sax_value_ok) (use scan_ok [of True "bytes_of txt"] s in simp_all)
qed

section \<open>Properties\<close>

text \<open>
  C11: Every value that comes out of \<^verbatim>\<open>json::parse\<close> is well-formed: integers fit into 64
  bits, a double is a finite IEEE double in its canonical form, every text and every key is
  well-formed UTF-8, and the members of every object stand in the order of their keys,
  none twice. This is what the accessors and the printer rely on.
\<close>

theorem parsed_value_ok:
  assumes "parse txt = Inr v"
  shows "json_ok v"
  by (rule parse_result_ok [OF assms])

theorem parsed_value_ok_witness:
  "json_ok (JObj [(''a'', JUInt 1), (''b'', JArr [JInt (- 7), JBool True])])"
proof (rule parsed_value_ok)
  show "parse ''{\"b\":[-7,true],\"a\":1}'' = Inr (JObj [(''a'', JUInt 1), (''b'', JArr [JInt (- 7), JBool True])])"
    by (simp add: parse_def parse_bytes_def bytes_of_def scan_def skip_bom_def skip_whitespace_def scan_after_space_def
        scan_number_def digit_byte_def decimal_def sax_parse_internal.simps object_key_def scan_string.simps
        scan_string_char_def dom_string_def) code_simp
qed

text \<open>
  C3: \<^verbatim>\<open>dump()\<close> and \<^verbatim>\<open>json::parse\<close> are inverse to each other: on every well-formed value,
  however deep, with any strings, integers and doubles, \<^verbatim>\<open>dump()\<close> returns a text, and
  parsing this text, with white space behind it as the newline of the server's lines, gives
  the value back (a signed integer that is not negative comes back as an unsigned one).
\<close>

theorem dumped_value_parsed:
  assumes "json_ok v" "list_all space_byte (bytes_of ws)"
  shows "\<exists>txt. dump_text v = Inr txt \<and> parse (txt @ ws) = Inr (norm_value v)"
  by (rule dump_parses [OF assms])

theorem dumped_value_parsed_witness:
  "\<exists>txt. dump_text (JObj [(''x'', JArr [JFloat True 1 (- 1074), JInt 5])]) = Inr txt
     \<and> parse (txt @ ''  '') = Inr (JObj [(''x'', JArr [JFloat True 1 (- 1074), JUInt 5])])"
  using dumped_value_parsed [of "JObj [(''x'', JArr [JFloat True 1 (- 1074), JInt 5])]" "''  ''"]
  by (simp add: double_ok_def bytes_of_def utf8_ok.simps space_byte_def)

text \<open>
  C21: A value that was parsed can be printed again: \<^verbatim>\<open>dump()\<close> neither raises nor writes
  outside its buffers on it, the printed text parses to the same value up to the type of a
  zero with a sign, and printing that gives the same text: the printed form is canonical.
\<close>

theorem parsed_text_canonical:
  assumes "parse txt = Inr v"
  shows "\<exists>txt'. dump_text v = Inr txt' \<and> parse txt' = Inr (norm_value v) \<and> dump_text (norm_value v) = Inr txt'"
proof -
  from dump_parses [OF parse_result_ok [OF assms], of "[]"] show ?thesis
    by (auto simp: bytes_of_def dump_text_def dump_norm_value(1))
qed

theorem parsed_text_canonical_witness:
  "\<exists>txt'. dump_text (JArr [JInt 0]) = Inr txt' \<and> parse txt' = Inr (JArr [JUInt 0]) \<and> dump_text (JArr [JUInt 0]) = Inr txt'"
proof -
  have "parse '' [ -0 ]'' = Inr (JArr [JInt 0])"
    by (simp add: parse_def parse_bytes_def bytes_of_def scan_def skip_bom_def skip_whitespace_def scan_after_space_def
        scan_number_def digit_byte_def decimal_def sax_parse_internal.simps object_key_def scan_string.simps
        scan_string_char_def dom_string_def)
  from parsed_text_canonical [OF this] show ?thesis by simp
qed

end
