(* ===== verification/Outputs.thy ===== *)
theory Outputs
  imports Server JsonRoundTrip
begin

text \<open>
  What leaves the server. With the parser and the printer of \<^verbatim>\<open>json.hpp\<close> plugged into the
  event loop, every frame handed to a client socket and every UDP datagram carries a text
  that parses: no input of a client, of a UDP sender or of the middleware makes the server
  send anything else. The invariant behind it follows every text through the sessions, the queues, the jobs
  of the strands and the callbacks of the router, operation by operation, in the order of
  the theories that define them.
\<close>

section \<open>Definitions\<close>

text \<open>
  The contexts of the running program: its parser and its printer are the ones of
  \<^verbatim>\<open>json.hpp\<close>.
\<close>

definition json_context :: "app_context \<Rightarrow> bool" where
  "json_context c \<longleftrightarrow> json_parse c = parse \<and> json_dump c = printed"

definition running_context :: app_context where
  "running_context = example_context\<lparr>json_parse := parse, json_dump := printed\<rparr>"

definition utf8_text :: "string \<Rightarrow> bool" where
  "utf8_text s \<longleftrightarrow> utf8_ok (bytes_of s)"

definition json_text :: "string \<Rightarrow> bool" where
  "json_text m \<longleftrightarrow> (case parse m of Inr _ \<Rightarrow> True | Inl _ \<Rightarrow> False)"

text \<open>The strings among the members of an object: what \<open>value_string\<close> can return.\<close>

definition member_text :: "string \<times> json \<Rightarrow> bool" where
  "member_text m \<longleftrightarrow> (case snd m of JStr s \<Rightarrow> utf8_text s | _ \<Rightarrow> True)"

definition texts_ok :: "json \<Rightarrow> bool" where
  "texts_ok j \<longleftrightarrow> (case j of JObj ms \<Rightarrow> list_all member_text ms | _ \<Rightarrow> True)"

text \<open>What a login callback reads of an answer that reports an error.\<close>

definition answer_text :: "json \<Rightarrow> bool" where
  "answer_text j \<longleftrightarrow> (\<forall>s. value_string j ''msg'' ''timeout'' = Inr s \<longrightarrow> utf8_text s)"

text \<open>
  The strings of a Protobuf message. The schema is \<^verbatim>\<open>proto3\<close>, whose parser refuses a
  \<^verbatim>\<open>string\<close> field that is not UTF-8.
\<close>

definition envelope_text :: "envelope \<Rightarrow> bool" where
  "envelope_text env \<longleftrightarrow>
     (case env of
        ServerLoginAck result nick \<Rightarrow> utf8_text result \<and> utf8_text nick
      | DbQueryResult req_id code api data_json \<Rightarrow> utf8_text req_id \<and> utf8_text api \<and> utf8_text data_json
      | ErrorMsg req_id code msg \<Rightarrow> utf8_text req_id \<and> utf8_text msg
      | _ \<Rightarrow> True)"

definition utf8_envelopes :: "(string \<Rightarrow> envelope option) \<Rightarrow> bool" where
  "utf8_envelopes parse_pb \<longleftrightarrow> (\<forall>raw env. parse_pb raw = Some env \<longrightarrow> envelope_text env)"

subsection \<open>The invariant\<close>

definition session_text :: "session \<Rightarrow> bool" where
  "session_text s \<longleftrightarrow> utf8_text (nickname s) \<and> list_all json_text (write_queue s)"

fun cb_text :: "login_cb \<Rightarrow> bool" where
  "cb_text (OnUserInfoOk a nick) \<longleftrightarrow> utf8_text nick"
| "cb_text (OnUserInfoError a nick) \<longleftrightarrow> utf8_text nick"

definition job_text :: "job \<Rightarrow> bool" where
  "job_text j \<longleftrightarrow>
     (case j of
        WriteJob a m \<Rightarrow> json_text m
      | ZoneBroadcastJob zid m sender \<Rightarrow> json_text m
      | RouterRequestJob req_id req sec t maxr sid ok err \<Rightarrow> cb_text ok \<and> cb_text err
      | RouterResponseJob req_id j ok \<Rightarrow> answer_text j
      | _ \<Rightarrow> True)"

definition router_text :: "login_cb router \<Rightarrow> bool" where
  "router_text r \<longleftrightarrow> (\<forall>i p. um_find (pending r) i = Some p \<longrightarrow>
     pred_option cb_text (on_ok p) \<and> pred_option cb_text (on_error p))"

definition effect_text :: "login_cb router_effect \<Rightarrow> bool" where
  "effect_text e \<longleftrightarrow> (case e of Call cb j \<Rightarrow> cb_text cb \<and> answer_text j | _ \<Rightarrow> True)"

definition json_frame :: "string \<Rightarrow> bool" where
  "json_frame f \<longleftrightarrow> (\<exists>m. f = frame_message m \<and> json_text m)"

definition world_text :: "world \<Rightarrow> bool" where
  "world_text w \<longleftrightarrow> (\<forall>a. session_text (heap w a))
     \<and> list_all (\<lambda>(st, j). job_text j) (posted w)
     \<and> list_all (\<lambda>(so, f). json_frame f) (tcp_out w)
     \<and> list_all (\<lambda>(ep, d). json_text d) (udp_out w)
     \<and> pred_option router_text (router w)"

section \<open>Lemmas\<close>

subsection \<open>Texts\<close>

lemma json_textI: "parse m = Inr v \<Longrightarrow> json_text m"
  by (simp add: json_text_def)

lemma json_textE: "json_text m \<Longrightarrow> \<exists>v. parse m = Inr v"
  by (simp add: json_text_def split: sum.splits)

lemma utf8_text_append [simp]: "utf8_text s \<Longrightarrow> utf8_text t \<Longrightarrow> utf8_text (s @ t)"
  by (simp add: utf8_text_def bytes_of_append utf8_ok_append)

lemma utf8_text_ascii:
  "list_all (\<lambda>ch. of_char ch < (0x80 :: nat)) s \<Longrightarrow> utf8_text s"
  by (induction s) (simp_all add: utf8_text_def bytes_of_def)

lemma utf8_text_Nil [simp]: "utf8_text []"
  by (simp add: utf8_text_def bytes_of_def)

lemma utf8_text_Cons [simp]: "of_char ch < (0x80 :: nat) \<Longrightarrow> utf8_text s \<Longrightarrow> utf8_text (ch # s)"
  by (simp add: utf8_text_def bytes_of_def)

lemma utf8_text_token: "utf8_text (generate_random_token draws)"
proof (rule utf8_text_ascii)
  have "list_all (\<lambda>ch. of_char ch < (0x80 :: nat)) hex_chars" by (simp add: hex_chars_def)
  then show "list_all (\<lambda>ch. of_char ch < (0x80 :: nat)) (generate_random_token draws)"
    using generate_random_token_hex [of draws] by (auto simp: list_all_iff)
qed

lemma utf8_text_register: "utf8_text register_text"
  by (simp add: utf8_text_def register_text_def utf8_def bytes_of_def utf8_ranges_def)

lemma utf8_text_rate: "utf8_text rate_text"
  by (simp add: utf8_text_def rate_text_def utf8_def bytes_of_def utf8_ranges_def)

lemma newline_space: "list_all space_byte (bytes_of newline)"
  by (simp add: bytes_of_def space_byte_def)

lemma parse_line: "json_context c \<Longrightarrow> json_ok v \<Longrightarrow> parse (json_dump c v @ newline) = Inr (norm_value v)"
  using parse_printed newline_space by (simp add: json_context_def)

lemma json_ok_jobj:
  assumes "list_all (\<lambda>(k, v). utf8_text k \<and> json_ok v) kvs"
  shows "json_ok (jobj kvs)"
proof -
  have "json_ok (JObj ms) \<Longrightarrow> json_ok (JObj (fold (\<lambda>(k, v). member_put k v) kvs ms))" for ms
    using assms by (induction kvs arbitrary: ms) (auto simp: utf8_text_def simp del: json_ok.simps intro!: member_put_ok)
  from this [of "[]"] show ?thesis by (simp add: jobj_def)
qed

lemma dumped_text:
  assumes "json_context c" "list_all (\<lambda>(k, v). utf8_text k \<and> json_ok v) kvs"
  shows "json_text (json_dump c (jobj kvs))" "json_text (json_dump c (jobj kvs) @ newline)"
  using parse_printed [OF json_ok_jobj [OF assms(2)], of "[]"] parse_line [OF assms(1) json_ok_jobj [OF assms(2)]] assms(1)
  by (auto simp: json_context_def bytes_of_def intro: json_textI)

lemma texts_ok_value: "texts_ok j \<Longrightarrow> utf8_text d \<Longrightarrow> value_string j k d = Inr s \<Longrightarrow> utf8_text s"
  by (cases j) (auto simp: texts_ok_def member_text_def list_all_iff dest!: map_of_SomeD split: option.splits
      elim!: get_string.elims)

lemma json_ok_texts: "json_ok j \<Longrightarrow> texts_ok j"
  by (cases j) (auto simp: texts_ok_def member_text_def utf8_text_def list_all_iff split: json.split)

lemma parsed_texts: "json_context c \<Longrightarrow> json_parse c raw = Inr j \<Longrightarrow> texts_ok j"
  by (rule json_ok_texts) (simp add: json_context_def parse_result_ok)

lemma parsed_answer: "json_context c \<Longrightarrow> json_parse c raw = Inr j \<Longrightarrow> answer_text j"
  unfolding answer_text_def
  by (intro allI impI) (rule texts_ok_value [where k = "''msg''" and d = "''timeout''"], simp_all add: parsed_texts utf8_text_ascii)

text \<open>
  The texts the code has as literals: an object with a \<open>type\<close> and a \<open>msg\<close>, both of
  characters that need no escape, with white space behind it.
\<close>

definition plain_text :: "string \<Rightarrow> bool" where
  "plain_text s \<longleftrightarrow> utf8_text s
     \<and> list_all (\<lambda>cp. 0x20 \<le> cp \<and> cp \<noteq> 0x22 \<and> cp \<noteq> 0x5C) (codepoints (bytes_of s))"

lemma plain_text_Nil [simp]: "plain_text []"
  by (simp add: plain_text_def bytes_of_def)

lemma plain_text_Cons [simp]:
  "of_char ch < (0x80 :: nat) \<Longrightarrow> 0x20 \<le> (of_char ch :: nat) \<Longrightarrow> of_char ch \<noteq> (0x22 :: nat) \<Longrightarrow> of_char ch \<noteq> (0x5C :: nat) \<Longrightarrow>
     plain_text (ch # s) = plain_text s"
  by (simp add: plain_text_def utf8_text_def bytes_of_def)

lemma dump_plain:
  assumes "plain_text s"
  shows "dump_string s = Inr ([0x22] @ bytes_of s @ [0x22])" "utf8_ok (bytes_of s)"
proof -
  show u: "utf8_ok (bytes_of s)" using assms by (simp add: plain_text_def utf8_text_def)
  have m: "map (escaped False) (codepoints (bytes_of s)) = map codepoint_bytes (codepoints (bytes_of s))"
    using assms by (intro map_cong refl) (auto simp: plain_text_def list_all_iff escaped_def)
  have "concat (map (escaped False) (codepoints (bytes_of s))) = bytes_of s"
    unfolding m by (rule codepoints_utf8_ok(2) [OF u])
  then show "dump_string s = Inr ([0x22] @ bytes_of s @ [0x22])"
    using bytes_of_less u by (simp add: dump_string_def dump_escaped_spec)
qed

lemma literal_text:
  assumes "plain_text ty" "plain_text t" "list_all space_byte (bytes_of ws)"
  shows "json_text (''{\"type\":\"'' @ ty @ ''\",\"msg\":\"'' @ t @ ''\"}'' @ ws)"
proof -
  have v: "reads_value ([0x22] @ bytes_of s @ [0x22]) (JStr s)" if pl: "plain_text s" for s
  proof -
    obtain bs where "dump_string s = Inr bs" "\<And>rest. scan False (bs @ rest) = (Value_string (bytes_of s), rest)"
      by (rule dump_string_reads [OF dump_plain(2) [OF pl]]) blast
    then show ?thesis
      using dump_plain(1) [OF pl] by (intro reads_scalar_value) (auto simp: reads_scalar_def)
  qed
  have k: "plain_text ''type''" "plain_text ''msg''" by simp_all
  note m = reads_members_single [OF dump_plain [OF k(2)] v [OF assms(2)]]
  note o = reads_object [OF reads_members_Cons [OF dump_plain [OF k(1)] v [OF assms(1)] m]]
  show ?thesis
    by (rule json_textI) (use parse_reads [OF o assms(3)] in \<open>simp add: parse_def bytes_of_def\<close>)
qed

lemmas literals = literal_text [where ws = "[]"] literal_text [where ws = newline, OF _ _ newline_space]

lemma literal_texts [simp]:
  "json_text login_timeout_msg" "json_text duplicate_login_msg" "json_text (duplicate_login_msg @ newline)"
  "json_text not_logged_in_msg" "json_text missing_type_msg" "json_text field_type_msg" "json_text unknown_type_msg"
  "json_text ''{\"type\":\"error\",\"msg\":\"nickname required\"}''"
  "json_text ''{\"type\":\"error\",\"msg\":\"Unknown UDP type\"}''"
  using literals(2) [of "''notice''" "''Your connection has been terminated due to a login timeout.''"]
    literals [of "''error''" "''Duplicate login ban''"] literals(2) [of "''logout''" "''You are not logged in.''"]
    literals(2) [of "''error''" "''Missing message type field''"] literals(2) [of "''error''" "''Invalid JSON field type''"]
    literals(2) [of "''error''" "''Unknown message type''"] literals(1) [of "''error''" "''nickname required''"]
    literals(1) [of "''error''" "''Unknown UDP type''"]
  by (simp_all add: login_timeout_msg_def duplicate_login_msg_def not_logged_in_msg_def missing_type_msg_def
      field_type_msg_def unknown_type_msg_def bytes_of_def)

lemma other_login_text [simp]: "json_text other_login_msg"
proof -
  let ?t = "utf8 [235, 139, 164, 235, 165, 184, 32, 234, 179, 179, 236, 151, 144, 236, 132, 156, 32, 235, 161, 156,
           234, 183, 184, 236, 157, 184, 235, 144, 152, 236, 150, 180, 32, 234, 184, 176, 236, 161, 180, 32,
           236, 151, 176, 234, 178, 176, 236, 157, 180, 32, 236, 162, 133, 235, 163, 140, 235, 144, 169, 235,
           139, 136, 235, 139, 164, 46]"
  have "plain_text ?t"
    by (simp add: plain_text_def utf8_text_def utf8_def bytes_of_def utf8_ranges_def add_bits_def lead_bits_def)
  then have "json_text (''{\"type\":\"'' @ ''error'' @ ''\",\"msg\":\"'' @ ?t @ ''\"}'' @ newline)"
    by (intro literals) simp_all
  then show ?thesis by (simp add: other_login_msg_def)
qed

subsection \<open>Sessions and the world\<close>

lemma session_text_ops [simp, intro]:
  assumes "session_text s"
  shows "session_text (session_cleanup s)" "session_text (clear_udp_token s)"
    "session_text (set_active v s)" "session_text (mark_released s)"
    "session_text (session_reset now conn sid st s)"
    "session_text (s\<lparr>state := sst, login_timer := t, socket := so, life_state := l\<rparr>)"
    "session_text (s\<lparr>zone_id := zi, zone := zz\<rparr>)" "session_text (s\<lparr>write_in_progress := b\<rparr>)"
    "session_text (s\<lparr>login_timer := t\<rparr>)" "session_text (s\<lparr>task_running := b\<rparr>)"
    "session_text (s\<lparr>read_pending := b\<rparr>)" "session_text (s\<lparr>task_queue := tq\<rparr>)" "session_text (s\<lparr>msg_buf_mgr := mb\<rparr>)"
    "session_text (on_nickname_registered s)" "session_text (update_alive_time now s)"
    "session_text (set_udp_endpoint now ep s)" "session_text (update_udp_alive_time now s)"
    "session_text (set_udp_token c' now tok s)" "session_text (set_udp_token_ttl i s)"
    "session_text (clear_udp_endpoint s)" "session_text (release_read s)"
    "session_text (snd (try_acquire_read s))" "session_text (snd (checkUdpRateLimit now s))"
    "session_text (fst (enqueue_task c tk s))"
    "session_text (s\<lparr>write_queue := tl (write_queue s)\<rparr>)"
    "utf8_text nick \<Longrightarrow> session_text (s\<lparr>nickname := nick\<rparr>)"
    "json_text m \<Longrightarrow> session_text (fst (enqueue_write c m s))"
proof -
  have "list_all json_text (tl (write_queue s))"
    using assms by (cases "write_queue s") (auto simp: session_text_def)
  then show "session_text (session_cleanup s)" "session_text (clear_udp_token s)"
    "session_text (set_active v s)" "session_text (mark_released s)"
    "session_text (session_reset now conn sid st s)"
    "session_text (s\<lparr>state := sst, login_timer := t, socket := so, life_state := l\<rparr>)"
    "session_text (s\<lparr>zone_id := zi, zone := zz\<rparr>)" "session_text (s\<lparr>write_in_progress := b\<rparr>)"
    "session_text (s\<lparr>login_timer := t\<rparr>)" "session_text (s\<lparr>task_running := b\<rparr>)"
    "session_text (s\<lparr>read_pending := b\<rparr>)" "session_text (s\<lparr>task_queue := tq\<rparr>)" "session_text (s\<lparr>msg_buf_mgr := mb\<rparr>)"
    "session_text (on_nickname_registered s)" "session_text (update_alive_time now s)"
    "session_text (set_udp_endpoint now ep s)" "session_text (update_udp_alive_time now s)"
    "session_text (set_udp_token c' now tok s)" "session_text (set_udp_token_ttl i s)"
    "session_text (clear_udp_endpoint s)" "session_text (release_read s)"
    "session_text (snd (try_acquire_read s))" "session_text (snd (checkUdpRateLimit now s))"
    "session_text (fst (enqueue_task c tk s))"
    "session_text (s\<lparr>write_queue := tl (write_queue s)\<rparr>)"
    "utf8_text nick \<Longrightarrow> session_text (s\<lparr>nickname := nick\<rparr>)"
    "json_text m \<Longrightarrow> session_text (fst (enqueue_write c m s))"
    using assms
    by (simp_all add: session_text_def session_cleanup_def clear_udp_token_def set_active_def try_activate_def
      mark_released_def session_reset_def on_nickname_registered_def update_alive_time_def
      set_udp_endpoint_def update_udp_alive_time_def set_udp_token_def set_udp_token_ttl_def
      clear_udp_endpoint_def release_read_def try_acquire_read_def checkUdpRateLimit_def enqueue_task_def
      enqueue_write_def Let_def)
qed

lemma session_text_new [simp]: "session_text (session_new now sid st)"
  by (simp add: session_text_def session_new_def)

lemma world_text_upd:
  "world_text w \<Longrightarrow> (\<And>s. session_text s \<Longrightarrow> session_text (f s)) \<Longrightarrow> world_text (upd a f w)"
  by (simp add: world_text_def)

lemma world_text_session: "world_text w \<Longrightarrow> session_text (heap w a)"
  by (simp add: world_text_def)

lemma world_text_nick: "world_text w \<Longrightarrow> utf8_text (nickname (heap w a))"
  by (simp add: world_text_def session_text_def)

lemma world_text_put: "world_text w \<Longrightarrow> session_text s \<Longrightarrow> world_text (upd a (\<lambda>_. s) w)"
  by (simp add: world_text_def)

lemma world_text_cong:
  "world_text w \<Longrightarrow> heap w' = heap w \<Longrightarrow> posted w' = posted w \<Longrightarrow> tcp_out w' = tcp_out w \<Longrightarrow>
     udp_out w' = udp_out w \<Longrightarrow> router w' = router w \<Longrightarrow> world_text w'"
  by (simp add: world_text_def)

text \<open>Fields the invariant does not look at.\<close>

lemma world_text_fields [simp]:
  "world_text (w\<lparr>smgr := m\<rparr>) = world_text w" "world_text (w\<lparr>zones := z\<rparr>) = world_text w"
  "world_text (w\<lparr>udp_endpoint_to_session := em\<rparr>) = world_text w" "world_text (w\<lparr>bad_udp_map := bm\<rparr>) = world_text w"
  "world_text (w\<lparr>udp_global_limiter := l\<rparr>) = world_text w" "world_text (w\<lparr>alerts := al\<rparr>) = world_text w"
  "world_text (w\<lparr>reads := rs\<rparr>) = world_text w" "world_text (w\<lparr>writes := ws\<rparr>) = world_text w"
  "world_text (w\<lparr>client := d\<rparr>) = world_text w" "world_text (w\<lparr>cur_strand := cs\<rparr>) = world_text w"
  "world_text (w\<lparr>cur_strand := cs, io_threads := n\<rparr>) = world_text w" "world_text (w\<lparr>io_threads := n\<rparr>) = world_text w"
  "world_text (w\<lparr>session_counter := i\<rparr>) = world_text w"
  "world_text (w\<lparr>udp_total_packet_count := pc\<rparr>) = world_text w"
  "world_text (w\<lparr>udp_total_packet_window := pw\<rparr>) = world_text w"
  "world_text (w\<lparr>udp_total_packet_window := pw, udp_total_packet_count := pc\<rparr>) = world_text w"
  by (simp_all add: world_text_def)

lemma world_text_heap:
  "world_text w \<Longrightarrow> (\<And>b. session_text (h b)) \<Longrightarrow> world_text (w\<lparr>heap := h\<rparr>)"
  by (simp add: world_text_def)

lemma post_job_text: "world_text w \<Longrightarrow> job_text j \<Longrightarrow> world_text (post_job st j w)"
  by (simp add: world_text_def post_job_def)

lemma dispatch_job_text:
  "world_text w \<Longrightarrow> job_text j \<Longrightarrow> world_text (run w) \<Longrightarrow> world_text (dispatch_job st j run w)"
  by (simp add: dispatch_job_def post_job_text)

lemma send_udp_text: "world_text w \<Longrightarrow> json_text d \<Longrightarrow> world_text (send_udp ep d w)"
  by (simp add: world_text_def send_udp_def)

lemma fold_text:
  assumes "\<And>x w. world_text w \<Longrightarrow> world_text (f x w)"
  shows "world_text w \<Longrightarrow> world_text (fold f xs w)"
  using assms by (induction xs arbitrary: w) auto

subsection \<open>Closing\<close>

lemma erase_endpoint_of_text: "world_text w \<Longrightarrow> world_text (erase_endpoint_of ep a w)"
  by (simp add: erase_endpoint_of_def split: option.split)

lemma pool_release_text:
  assumes "\<And>b. session_text (h b)"
  shows "session_text (snd (snd (pool_release a (p, h))) b)"
  using pool_release_heap [of a p h b] pool_release_heap_cases [of a p h] assms
  by (metis session_text_ops(1,3,4))

lemma pool_release_session_text:
  assumes "world_text w"
  shows "world_text (pool_release_session a w)"
proof -
  have "world_text (w\<lparr>spool := p, heap := snd (snd (pool_release a (spool w, heap w)))\<rparr>)" for p
    using pool_release_text world_text_session [OF assms] assms by (simp add: world_text_def)
  then show ?thesis using assms by (simp add: pool_release_session_def split_beta Let_def)
qed

lemma zm_remove_session_text:
  assumes "\<And>b. session_text (h b)"
  shows "session_text (fst (zm_remove_session a (h, zs)) b)"
  using zm_remove_session_heap(1) [of b a h zs] zm_remove_session_heap(2) [of a h zs] assms
  by (metis session_text_ops(7))

lemma remove_session_text:
  assumes "world_text w"
  shows "world_text (remove_session sid w)"
proof (cases "mgr_remove_session sid (smgr w)")
  case (Pair r m)
  have leave: "world_text (case zm_remove_session a (heap u, zs) of (h, zs') \<Rightarrow> u\<lparr>heap := h, zones := zs'\<rparr>)"
    if "world_text u" for u a zs
    using zm_remove_session_text world_text_session [OF that] that by (simp add: world_text_def split_beta Let_def)
  show ?thesis
    using assms Pair
    by (auto simp: remove_session_def Let_def split: option.split
        intro!: pool_release_session_text leave world_text_upd erase_endpoint_of_text simp del: split_paired_All)
qed

lemma close_session_text:
  assumes "world_text w"
  shows "world_text (close_session a w)"
proof (cases rule: close_session_cases [of a w])
  case closes
  show ?thesis unfolding closes(2) Let_def
    using assms by (auto intro!: world_text_upd remove_session_text)
qed (use assms in simp)
subsection \<open>Writing, reading and the login timer\<close>

lemma do_write_queue_text:
  assumes "world_text w"
  shows "world_text (do_write_queue a w)"
proof (cases "write_queue (heap w a)")
  case Nil
  then show ?thesis using assms by (simp add: do_write_queue_def Let_def world_text_upd)
next
  case (Cons m q)
  then have "json_text m" using world_text_session [OF assms, of a] by (simp add: session_text_def)
  then have "json_frame (frame_message m)" by (auto simp: json_frame_def)
  then show ?thesis using assms Cons by (auto simp: do_write_queue_def Let_def world_text_def)
qed

lemma write_job_text:
  assumes "world_text w" "json_text m"
  shows "world_text (write_job c a m w)"
proof -
  have "world_text (upd a (\<lambda>_. fst (enqueue_write c m (heap w a))) w)"
    using assms world_text_session [OF assms(1)] by (intro world_text_put) auto
  then show ?thesis
    by (auto simp: write_job_def split_beta Let_def intro!: do_write_queue_text world_text_upd close_session_text)
qed

lemma post_write_text: "world_text w \<Longrightarrow> json_text m \<Longrightarrow> world_text (post_write c a m w)"
  unfolding post_write_def by (intro dispatch_job_text write_job_text) (simp_all add: job_text_def)

lemma on_write_complete_text: "world_text w \<Longrightarrow> world_text (on_write_complete ec a g w)"
  by (auto simp: on_write_complete_def intro!: close_session_text do_write_queue_text world_text_upd)

lemma run_next_task_text: "world_text w \<Longrightarrow> world_text (run_next_task a w)"
  by (auto simp: run_next_task_def Let_def world_text_upd split: list.split task.split)

lemma task_job_text:
  assumes "world_text w"
  shows "world_text (task_job c a tk w)"
proof -
  have "world_text (upd a (\<lambda>_. fst (enqueue_task c tk (heap w a))) w)"
    using assms world_text_session [OF assms] by (intro world_text_put) auto
  then show ?thesis using assms
    by (auto simp: task_job_def split_beta Let_def intro!: run_next_task_text world_text_upd close_session_text)
qed

lemma post_task_text: "world_text w \<Longrightarrow> world_text (post_task c a tk w)"
  unfolding post_task_def by (intro dispatch_job_text task_job_text) (simp_all add: job_text_def)

lemma do_read_text:
  assumes "world_text w"
  shows "world_text (do_read c a w)"
proof -
  have "world_text (upd a (\<lambda>_. snd (try_acquire_read (heap w a))) w)"
    using assms world_text_session [OF assms] by (intro world_text_put) auto
  then show ?thesis using assms
    by (auto simp: do_read_def get_handler_safe_def split_beta Let_def intro!: post_task_text close_session_text)
qed

lemma session_start_text: "world_text w \<Longrightarrow> world_text (session_start c now a w)"
  by (simp add: session_start_def start_login_timeout_def do_read_text world_text_upd)

lemma on_login_timer_text: "world_text w \<Longrightarrow> world_text (on_login_timer c a w)"
  by (auto simp: on_login_timer_def Let_def intro!: close_session_text post_write_text world_text_upd)

lemmas world_text_intros =
  close_session_text post_write_text do_read_text session_start_text on_login_timer_text on_write_complete_text
  write_job_text task_job_text run_next_task_text world_text_upd

subsection \<open>The handler of the sessions\<close>

lemma add_session_text: "world_text w \<Longrightarrow> world_text (add_session a w)"
  by (auto simp: add_session_def split_beta Let_def split: option.split intro!: close_session_text)

lemma register_nickname_text: "world_text w \<Longrightarrow> world_text (register_nickname c nick a w)"
  by (simp add: register_nickname_def Let_def close_session_text post_write_text split: option.split)

lemma broadcasts_text:
  assumes "world_text w" "json_text m"
  shows "world_text (broadcast c m sender w)" "world_text (broadcast_zone_tcp c m zid sender w)"
    "world_text (broadcast_strict c m w)"
  using assms unfolding broadcast_def broadcast_zone_tcp_def broadcast_strict_def
  by (auto intro!: fold_text post_write_text)

lemma on_keepalive_timer_text: "world_text w \<Longrightarrow> world_text (on_keepalive_timer now w)"
proof -
  have "world_text (expire_endpoint a w)" if "world_text w" for a w
    using that by (auto simp: expire_endpoint_def Let_def split: option.split intro!: world_text_upd)
  then show "world_text w \<Longrightarrow> world_text (on_keepalive_timer now w)"
    unfolding on_keepalive_timer_def expire_stale_udp_endpoints_def do_keepalive_check_def
    by (intro fold_text close_session_text)
qed

lemma on_cleanup_timer_text: "world_text w \<Longrightarrow> world_text (on_cleanup_timer now w)"
  unfolding on_cleanup_timer_def cleanup_inactive_sessions_def by (intro fold_text close_session_text)

lemma cleanup_unauth_sessions_text: "world_text w \<Longrightarrow> world_text (cleanup_unauth_sessions n w)"
  by (auto simp: cleanup_unauth_sessions_def Let_def intro!: fold_text close_session_text)

lemma assign_zone_text:
  assumes "world_text w"
  shows "world_text (assign_zone a zid w)"
proof -
  have "session_text (fst (assign_session_to_zone a zid (heap w, zones w)) b)" for b
    using assms by (auto simp: assign_session_to_zone_def world_text_def Let_def split: option.split prod.split)
  then show ?thesis using assms by (simp add: assign_zone_def world_text_def split_beta Let_def)
qed

subsection \<open>Login and middleware\<close>

lemma upd_client_text [simp]: "world_text (upd_client f w) = world_text w"
  by (simp add: upd_client_def)

lemma client_send_framed_text: "world_text w \<Longrightarrow> world_text (client_send_framed body w)"
  by (simp add: client_send_framed_def dispatch_job_text job_text_def)

lemma client_send_text:
  "world_text w \<Longrightarrow> world_text (snd (client_send_secure_json c j w))"
  "world_text w \<Longrightarrow> world_text (client_send_json c j w)"
  by (simp_all add: client_send_secure_json_def client_send_json_def client_send_framed_text
      split: option.split prod.split sum.split)

lemma complete_text:
  assumes "json_context c" "world_text w"
  shows "utf8_text nick \<Longrightarrow> world_text (complete_success c a nick w)"
    "utf8_text reason \<Longrightarrow> world_text (complete_fail c a reason w)"
  using assms
  by (auto simp: complete_success_def complete_fail_def utf8_text_ascii simp flip: utf8_text_def
      intro!: post_write_text dumped_text)

lemma evict_previous_text: "world_text w \<Longrightarrow> json_text m \<Longrightarrow> world_text (evict_previous c m nick a w)"
  by (simp add: evict_previous_def close_session_text post_write_text split: option.split)

lemma on_user_info_ok_text:
  assumes "json_context c" "world_text w" "utf8_text nick"
  shows "world_text (snd (on_user_info_ok c a nick j w))"
proof -
  define w3 where "w3 = register_nickname c nick a (evict_previous c duplicate_login_msg nick a (add_session a w))"
  define w5 where "w5 = assign_zone a 1 (upd a (\<lambda>s. on_nickname_registered (s\<lparr>nickname := nick\<rparr>)) w3)"
  have "world_text w3"
    unfolding w3_def by (intro register_nickname_text evict_previous_text add_session_text assms literal_texts)
  then have "world_text w5"
    using assms(3) unfolding w5_def by (intro assign_zone_text world_text_upd) auto
  moreover have "json_text (json_dump c (jobj [(''type'', JStr ''notice''), (''msg'', JStr (nick @ '' has entered.''))]) @ newline)"
    using assms(1,3) by (auto simp: utf8_text_ascii simp flip: utf8_text_def intro!: dumped_text)
  ultimately have "world_text (complete_success c a nick (broadcast c
      (json_dump c (jobj [(''type'', JStr ''notice''), (''msg'', JStr (nick @ '' has entered.''))]) @ newline) sid w5))" for sid
    using assms by (intro complete_text broadcasts_text)
  then show ?thesis
    using assms by (simp add: on_user_info_ok_def complete_text utf8_text_ascii Let_def w5_def w3_def split: sum.split)
qed

lemma on_user_info_fail_text:
  "json_context c \<Longrightarrow> world_text w \<Longrightarrow> (\<And>s. j = JStr s \<Longrightarrow> utf8_text s) \<Longrightarrow> world_text (on_user_info_fail c a j w)"
  by (auto simp: on_user_info_fail_def utf8_text_ascii split: json.split intro!: complete_text)

lemma run_login_cb_text:
  assumes "json_context c" "world_text w" "cb_text cb" "answer_text j"
  shows "world_text (snd (run_login_cb c cb j w))"
proof -
  have "utf8_text s" if "value_string j ''msg'' ''timeout'' = Inr s" for s
    using that assms(4) by (simp add: answer_text_def)
  then show ?thesis using assms(1-3)
    by (cases cb) (auto simp: run_login_cb_def on_user_info_ok_text split: sum.split intro!: on_user_info_fail_text)
qed

lemma run_db_handler_text: "world_text w \<Longrightarrow> world_text (snd (run_db_handler c ty j w))"
  by (simp add: run_db_handler_def OnServerLoginAck_def OnServerKeepAliveAck_def dispatch_job_text job_text_def Let_def
      split: sum.split)

lemma run_effects_text:
  assumes "json_context c"
  shows "world_text w \<Longrightarrow> list_all effect_text es \<Longrightarrow> world_text (snd (run_effects c es w))"
proof (induction es arbitrary: w)
  case (Cons e es)
  then have "world_text (snd (run_effect c e w))"
    by (auto simp: run_effect_def effect_text_def client_send_text run_db_handler_text run_login_cb_text [OF assms]
        split: router_effect.split)
  then show ?case using Cons by (auto split: prod.split option.split)
qed simp

lemma router_job_text:
  assumes "json_context c" "world_text w"
    and "\<And>r. router w = Some r \<Longrightarrow> router_text r \<Longrightarrow> router_text (fst (f r)) \<and> list_all effect_text (snd (f r))"
  shows "world_text (snd (router_job c f w))"
proof (cases "router w")
  case None
  then show ?thesis using assms(2) by (simp add: router_job_def)
next
  case (Some r)
  then have "router_text r" using assms(2) by (simp add: world_text_def)
  with assms(3) [OF Some] have f: "router_text (fst (f r))" "list_all effect_text (snd (f r))" by auto
  then have "world_text (w\<lparr>router := Some (fst (f r))\<rparr>)" using assms(2) by (simp add: world_text_def)
  then show ?thesis using Some f by (simp add: router_job_def split_beta run_effects_text [OF assms(1)])
qed

text \<open>The router keeps the callbacks it was given and calls them with texts of its own or of the answer.\<close>

lemma router_text_cong: "router_text r \<Longrightarrow> pending r' = pending r \<Longrightarrow> router_text r'"
  by (simp add: router_text_def)

lemma send_now_text:
  assumes "router_text r"
  shows "router_text (fst (send_now_locked raises i r)) \<and> list_all effect_text (snd (send_now_locked raises i r))"
  using assms
  by (auto simp: send_now_locked_def schedule_retry_def effect_text_def Let_def intro: router_text_cong split: option.split sum.split)

lemma arm_timeout_text: "router_text r \<Longrightarrow> router_text (arm_timeout_locked i r)"
  by (auto simp: arm_timeout_locked_def intro: router_text_cong split: option.split)

lemma fulfill_text:
  assumes "router_text r"
  shows "router_text (fst (fulfill_and_erase_locked i j ok r)) \<and> list_all effect_text (snd (fulfill_and_erase_locked i j ok r))"
  using assms
  by (auto simp: fulfill_and_erase_locked_def router_text_def effect_text_def um_find_erase Let_def split: option.split)

lemma send_request_cb_job_text:
  assumes "router_text r" "cb_text ok" "cb_text err"
  shows "router_text (fst (send_request_cb_job raises i req sec t maxr sid ok err r))
    \<and> list_all effect_text (snd (send_request_cb_job raises i req sec t maxr sid ok err r))"
proof -
  have "answer_text (jobj [(''type'', JStr ''error''), (''code'', JInt (-1)),
      (''msg'', JStr ''send function not set''), (''req_id'', JStr i)])"
    by (simp add: answer_text_def jobj_def utf8_text_ascii)
  moreover have "router_text r1" if "r1 = (if um_find (pending r) i = None then r\<lparr>pending := um_put i
      \<lparr>request_json = req, secure = sec, retries = 0, max_retries = maxr, timeout_ms = t,
        request_session = sid, on_ok = Some ok, on_error = Some err, use_callbacks = True\<rparr> (pending r)\<rparr> else r)" for r1
    using assms by (auto simp: that router_text_def um_find_put)
  ultimately show ?thesis
    using assms send_now_text
    by (simp add: send_request_cb_job_def Let_def split_beta arm_timeout_text effect_text_def)
qed

lemma on_timeout_text:
  assumes "router_text r"
  shows "router_text (fst (on_timeout raises i r)) \<and> list_all effect_text (snd (on_timeout raises i r))"
proof (cases "um_find (pending r) i")
  case None
  then show ?thesis using assms by (simp add: on_timeout_def Let_def router_text_def)
next
  case (Some p)
  then have p: "pred_option cb_text (on_ok p) \<and> pred_option cb_text (on_error p)"
    using assms by (auto simp: router_text_def)
  let ?r = "r\<lparr>timers := removeAll i (timers r)\<rparr>"
  have "router_text (?r\<lparr>pending := um_put i (p\<lparr>retries := retries p + 1\<rparr>) (pending r), metrics := m\<rparr>)"
    "router_text (?r\<lparr>metrics := m\<rparr>)" for m
    using assms p by (auto simp: router_text_def um_find_put)
  then show ?thesis
    using Some send_now_text fulfill_text by (simp add: on_timeout_def Let_def split_beta arm_timeout_text)
qed

lemma on_retry_text:
  "router_text r \<Longrightarrow> router_text (fst (on_retry raises i r)) \<and> list_all effect_text (snd (on_retry raises i r))"
  unfolding on_retry_def by (rule send_now_text) (simp add: router_text_def)

lemma on_response_text:
  assumes "router_text r" "answer_text j"
  shows "router_text (fst (on_response i j ok r)) \<and> list_all effect_text (snd (on_response i j ok r))"
proof (cases "um_find (pending r) i")
  case None
  then show ?thesis using assms(1) by (simp add: on_response_def)
next
  case (Some p)
  then have "pred_option cb_text (on_ok p)" "pred_option cb_text (on_error p)"
    using assms(1) by (auto simp: router_text_def)
  then show ?thesis using fulfill_text [OF assms(1), of i j ok] Some assms(2)
    by (auto simp: on_response_def split_beta Let_def effect_text_def split: option.split)
qed

lemma router_jobs_text:
  assumes "json_context c" "world_text w"
  shows "cb_text ok \<Longrightarrow> cb_text err \<Longrightarrow> world_text (snd (router_request_job c i req sec t maxr sid ok err w))"
    "answer_text j \<Longrightarrow> world_text (snd (router_response c i j b w))"
    "world_text (snd (router_timeout c i w))" "world_text (snd (router_retry c i w))"
    "world_text (snd (router_metrics_timer c w))"
proof -
  note job = router_job_text [OF assms]
  show "cb_text ok \<Longrightarrow> cb_text err \<Longrightarrow> world_text (snd (router_request_job c i req sec t maxr sid ok err w))"
    unfolding router_request_job_def by (rule job) (rule send_request_cb_job_text)
  show "answer_text j \<Longrightarrow> world_text (snd (router_response c i j b w))"
    unfolding router_response_def by (rule job) (rule on_response_text)
  show "world_text (snd (router_timeout c i w))" unfolding router_timeout_def by (rule job) (rule on_timeout_text)
  show "world_text (snd (router_retry c i w))" unfolding router_retry_def by (rule job) (rule on_retry_text)
  show "world_text (snd (router_metrics_timer c w))"
    unfolding router_metrics_timer_def by (rule job) (simp add: on_metrics_timer_def router_text_def effect_text_def)
qed

lemma router_handle_text:
  assumes "json_context c" "world_text w" "answer_text j"
  shows "world_text (snd (router_handle c j w))"
  using assms
  by (simp add: router_handle_def router_jobs_text run_db_handler_text post_job_text job_text_def
      split: option.split sum.split route.split)

lemma router_handle_pb_text:
  assumes "json_context c" "world_text w" "envelope_text env"
  shows "world_text (snd (router_handle_pb c env w))"
proof -
  have "answer_text j" if "envelope_json env = Some j" for j
    using that assms(3)
    by (cases env) (auto simp: envelope_json_def answer_text_def envelope_text_def jobj_def utf8_text_ascii)
  then show ?thesis using assms(1,2)
    by (simp add: router_handle_pb_def run_db_handler_text router_handle_text split: envelope.split option.split)
qed

lemma login_begin_text:
  assumes "json_context c" "world_text w" "utf8_text nick"
  shows "world_text (snd (login_begin c pid a nick w))"
proof -
  have r: "world_text (w\<lparr>router := Some (snd (make_req_id pid sid r))\<rparr>)" if "router w = Some r" for r sid
    using that assms(2) by (simp add: world_text_def make_req_id_def router_text_def Let_def)
  then show ?thesis using assms
    by (auto simp: login_begin_def request_user_info_def on_user_info_ok_text job_text_def Let_def split_beta
        router_jobs_text jobj_def split: option.split sum.split intro!: on_user_info_fail_text dispatch_job_text)
qed
subsection \<open>The handlers of TCP messages\<close>

lemma lines_text:
  assumes "json_context c"
  shows "utf8_text nick \<Longrightarrow> json_text (left_notice c nick)"
    "utf8_text ty \<Longrightarrow> utf8_text nick \<Longrightarrow> utf8_text t \<Longrightarrow> json_text (chat_line c ty nick t)"
    "utf8_text t \<Longrightarrow> json_text (sent_notice c t)" "utf8_text t \<Longrightarrow> json_text (error_line c t)"
  using assms
  by (auto simp: left_notice_def chat_line_def sent_notice_def error_line_def utf8_text_ascii simp flip: utf8_text_def
      intro!: dumped_text)

lemma tcp_handler_text:
  assumes "json_context c" "world_text w" "texts_ok msg"
  shows "world_text (snd (login_handler c pid a msg w))" "world_text (snd (logout_handler c a w))"
    "world_text (snd (chat_handler c a msg w))" "world_text (snd (chatzone_handler c a msg w))"
    "world_text (snd (keepalive_handler now a w))"
proof -
  have n: "utf8_text (nickname (heap w b))" for b by (rule world_text_nick [OF assms(2)])
  have v: "utf8_text s" if "value_string msg k d = Inr s" "utf8_text d" for k d s
    using texts_ok_value [OF assms(3) that(2,1)] .
  show "world_text (snd (login_handler c pid a msg w))"
    using assms(1,2) v [of "''nickname''" "''anonymity''"]
    by (simp add: login_handler_def close_session_text post_write_text login_begin_text evict_previous_text split: sum.split)
  show "world_text (snd (logout_handler c a w))"
    using assms(1,2) n by (auto simp: logout_handler_def Let_def intro!: world_text_intros broadcasts_text lines_text)
  show "world_text (snd (chat_handler c a msg w))"
    using assms(1,2) n v [of "''msg''" "[]"]
    by (simp add: chat_handler_def Let_def post_write_text broadcasts_text lines_text utf8_text_ascii split: sum.split)
  show "world_text (snd (chatzone_handler c a msg w))"
    using assms(1,2) n v [of "''msg''" "[]"]
    by (simp add: chatzone_handler_def Let_def post_write_text broadcasts_text lines_text utf8_text_ascii split: sum.split)
  show "world_text (snd (keepalive_handler now a w))"
    using assms(2) by (simp add: keepalive_handler_def world_text_upd)
qed

lemma dispatch_text:
  assumes "json_context c" "world_text w" "texts_ok msg"
  shows "world_text (dispatch c pid now a msg w)"
proof -
  have "world_text (snd (h a msg w))" if "map_of (tcp_handlers c pid now) ty = Some h" for ty h
  proof -
    have "h \<in> {login_handler c pid, \<lambda>a msg. logout_handler c a, chat_handler c, chatzone_handler c,
        \<lambda>a msg. keepalive_handler now a}"
      using map_of_SomeD [OF that] by (auto simp: tcp_handlers_def)
    then show ?thesis using tcp_handler_text [OF assms] by auto
  qed
  then have "world_text (case h a msg w of (None, w') \<Rightarrow> w' | (Some Type_error, w') \<Rightarrow> post_write c a field_type_msg w'
      | (Some _, w') \<Rightarrow> close_session a w')" if "map_of (tcp_handlers c pid now) ty = Some h" for ty h
    using that by (cases "h a msg w")
      (force simp: post_write_text close_session_text split: option.split exn.split)
  then show ?thesis using assms(2)
    by (auto simp: dispatch_def close_session_text post_write_text split: sum.split option.split)
qed

subsection \<open>UDP\<close>

lemma udp_answer_text:
  "json_context c \<Longrightarrow> world_text w \<Longrightarrow> list_all (\<lambda>(k, v). utf8_text k \<and> json_ok v) kvs \<Longrightarrow> world_text (udp_answer c ep kvs w)"
  by (simp add: udp_answer_def send_udp_text dumped_text)

lemma udp_error_text:
  "json_context c \<Longrightarrow> world_text w \<Longrightarrow> utf8_text code \<Longrightarrow> utf8_text t \<Longrightarrow> world_text (udp_error c ep code t w)"
  by (auto simp: udp_error_def utf8_text_ascii simp flip: utf8_text_def intro!: udp_answer_text)

lemma udp_handler_text:
  assumes "json_context c" "world_text w" "texts_ok msg"
  shows "world_text (snd (Udp_handler c msg ep w))" "world_text (snd (Udpbroadcast_handler c msg w))"
    "world_text (snd (Udpregister_handler c now draws a msg ep w))" "world_text (snd (Udpbroadcastzone_handler c a msg w))"
proof -
  have v: "utf8_text s" if "value_string msg k d = Inr s" "utf8_text d" for k d s
    using texts_ok_value [OF assms(3) that(2,1)] .
  have anon: "utf8_text ''anonymity''" by (simp add: utf8_text_ascii)
  show "world_text (snd (Udp_handler c msg ep w))"
    using assms(1,2) v [of "''nickname''" "''anonymity''", OF _ anon] v [of "''msg''" "[]"]
    by (auto simp: Udp_handler_def utf8_text_ascii simp flip: utf8_text_def split: sum.split intro!: udp_answer_text)
  show "world_text (snd (Udpbroadcast_handler c msg w))"
    using assms(2) by (simp add: Udpbroadcast_handler_def udp_broadcast_def post_job_text job_text_def split: sum.split)
  show "world_text (snd (Udpregister_handler c now draws a msg ep w))"
    using assms(1,2) v [of "''nickname''" "''anonymity''", OF _ anon]
    by (auto simp: Udpregister_handler_def Let_def utf8_text_ascii utf8_text_register utf8_text_token
        simp flip: utf8_text_def split: sum.split intro!: udp_answer_text world_text_upd)
  show "world_text (snd (Udpbroadcastzone_handler c a msg w))"
  proof (cases "value_string msg ''msg'' []")
    case (Inr t)
    have "json_text (json_dump c (jobj [(''type'', JStr ''broadcast_udp_zone''),
        (''nickname'', JStr (nickname (heap w a))), (''msg'', JStr t)]))"
      using assms(1) world_text_nick [OF assms(2)] v [OF Inr]
      by (auto simp: utf8_text_ascii simp flip: utf8_text_def intro!: dumped_text)
    then show ?thesis using assms(2) Inr
      by (auto simp: Udpbroadcastzone_handler_def world_text_def list_all_iff Let_def split: option.split prod.split)
  qed (use assms(2) in \<open>simp add: Udpbroadcastzone_handler_def Let_def split: option.split\<close>)
qed

lemma dispatch_udp_parsed_text:
  assumes "json_context c" "world_text w" "texts_ok msg"
  shows "world_text (dispatch_udp_parsed c now draws a msg ep w)"
proof -
  have "world_text (snd (h a msg ep w))" if "map_of (udp_handlers c now draws) ty = Some h" for ty h
  proof -
    have "h \<in> {\<lambda>a. Udp_handler c, \<lambda>a msg ep. Udpbroadcast_handler c msg, Udpregister_handler c now draws,
        \<lambda>a msg ep. Udpbroadcastzone_handler c a msg}"
      using map_of_SomeD [OF that] by (auto simp: udp_handlers_def)
    then show ?thesis by (auto simp: udp_handler_text [OF assms])
  qed
  then show ?thesis using assms(2)
    by (auto simp: dispatch_udp_parsed_def send_udp_text split: sum.split option.split)
qed

lemma bind_endpoint_text: "world_text w \<Longrightarrow> world_text (bind_endpoint now a ep w)"
  by (auto simp: bind_endpoint_def Let_def erase_endpoint_of_text split: option.split intro!: world_text_upd)

lemma bucket_text: "world_text w \<Longrightarrow> world_text (upd a (\<lambda>_. snd (checkUdpRateLimit now (heap w a))) w)"
  using world_text_session by (intro world_text_put) auto

lemma udp_accept_text:
  assumes "json_context c" "world_text w" "texts_ok msg"
  shows "world_text (udp_accept c now draws a ty msg ep w)"
  using assms
  by (auto simp: udp_accept_def split_beta Let_def utf8_text_ascii
      intro!: udp_error_text dispatch_udp_parsed_text world_text_upd bind_endpoint_text bucket_text)

lemma udp_gate_text:
  "json_context c \<Longrightarrow> world_text w \<Longrightarrow> world_text (snd (udp_gate c now a ty tok ep w))"
  by (auto simp: udp_gate_def utf8_text_ascii intro!: udp_error_text world_text_upd)

lemma on_udp_receive_text:
  assumes "json_context c" "world_text w"
  shows "world_text (snd (on_udp_receive c now tid draws raw ep w))"
proof -
  have "world_text (count_packet now (w\<lparr>udp_global_limiter := l\<rparr>))" for l
    using assms(2) by (simp add: count_packet_def Let_def)
  moreover have "texts_ok msg" if "try_parse_json c raw = Some msg" for msg
    using that parsed_texts [OF assms(1)] by (simp add: try_parse_json_def split: sum.splits)
  ultimately show ?thesis using assms
    by (auto simp: on_udp_receive_def split_beta Let_def utf8_text_ascii simp flip: utf8_text_def
        split: option.split sum.split intro!: udp_answer_text udp_accept_text udp_gate_text)
qed

lemma on_udp_packet_text:
  assumes "json_context c" "world_text w"
  shows "world_text (on_udp_packet c now tid draws ec data ep w)"
  using assms
  by (auto simp: on_udp_packet_def is_blocked_udp_def register_bad_udp_packet_def split_beta Let_def utf8_text_ascii utf8_text_rate
      simp flip: utf8_text_def split: option.split intro!: udp_answer_text on_udp_receive_text bucket_text)

lemma udp_broadcast_to_text:
  assumes "json_context c"
  shows "world_text w \<Longrightarrow> world_text (snd (udp_broadcast_to c m sender bs w))"
proof (induction bs arbitrary: w)
  case (Cons b bs)
  have "json_text d" if d: "broadcast_datagram c m = Inr d" for d
  proof -
    obtain j ty nick t where j: "json_parse c m = Inr j" "value_string j ''type'' [] = Inr ty"
      "value_string j ''nickname'' [] = Inr nick" "value_string j ''msg'' [] = Inr t"
      "d = json_dump c (jobj [(''type'', JStr ty), (''nickname'', JStr nick), (''msg'', JStr t)])"
      using d by (auto simp: broadcast_datagram_def split: sum.splits)
    from texts_ok_value [OF parsed_texts [OF assms j(1)] utf8_text_Nil] j(2-4)
    have "utf8_text ty" "utf8_text nick" "utf8_text t" by blast+
    then show ?thesis using assms unfolding j(5)
      by (auto simp: utf8_text_ascii simp flip: utf8_text_def intro!: dumped_text)
  qed
  with Cons show ?case by (auto simp: send_udp_text split: option.split sum.split)
qed simp

subsection \<open>Events\<close>

lemma on_accept_text:
  assumes "world_text w"
  shows "world_text (on_accept c now ec conn w)"
proof -
  obtain r p h where acq: "pool_acquire now conn (session_counter w) (next_addr w) (SessStrand (next_strand w))
      (SessStrand (next_strand w + 1)) (spool w, heap w) = (r, p, h)" by (metis prod_cases3)
  define w2 where "w2 = w\<lparr>session_counter := int32_wrap (session_counter w + 1), spool := p, heap := h,
      next_addr := next_addr w + 1, next_strand := next_strand w + 2\<rparr>"
  have "session_text (snd (snd (pool_acquire now conn sid n st0 st (p, g))) b)" if "\<And>b. session_text (g b)"
    for sid n st0 st p g b
    using that by (auto simp: pool_acquire_def Let_def split: list.split)
  then have "session_text (h b)" for b
    using world_text_session [OF assms] acq by (metis snd_conv)
  then have "world_text w2" using assms by (simp add: w2_def world_text_def)
  moreover have "on_accept c now ec conn w = (if ec then w else
      case r of Some a \<Rightarrow> session_start c now a (cleanup_unauth_sessions 100 (add_session a w2)) | None \<Rightarrow> w2)"
    using acq by (cases r) (simp_all add: on_accept_def w2_def Let_def)
  ultimately show ?thesis using assms
    by (auto split: option.split intro: session_start_text cleanup_unauth_sessions_text add_session_text)
qed

lemma handle_message_text:
  assumes "json_context c" "world_text w"
  shows "world_text (snd (handle_message c pid now a raw w))"
  using assms parsed_texts [OF assms(1)]
  by (auto simp: handle_message_def utf8_text_ascii split: sum.split exn.split
      intro!: dispatch_text close_session_text post_write_text lines_text)

lemma read_loop_text:
  assumes "json_context c"
  shows "world_text w \<Longrightarrow> world_text (snd (snd (read_loop c pid now a b w)))"
  using assms
proof (induction c pid now a b w rule: read_loop.induct)
  case (1 c pid now a b w)
  then show ?case
    using handle_message_text [OF 1(3,2), of pid now a]
    by (subst read_loop.simps) (auto split: prod.split option.split bool.split; metis snd_conv)
qed

lemma on_read_text:
  assumes "json_context c" "world_text w"
  shows "world_text (on_read c pid now a res w)"
proof -
  have w: "world_text (upd a release_read w)" using assms(2) by (intro world_text_upd) auto
  have n: "utf8_text (nickname (heap (upd a release_read w) a))" by (rule world_text_nick [OF w])
  have "world_text (upd a (\<lambda>s. s\<lparr>msg_buf_mgr := b'\<rparr>) (snd (snd (read_loop c pid now a b (upd a release_read w)))))" for b b'
    by (intro world_text_upd read_loop_text w assms) auto
  then show ?thesis using w n assms(1)
    by (auto simp: on_read_def split_beta Let_def simp del: heap_upd split: read_result.split
        intro!: close_session_text run_next_task_text do_read_text broadcasts_text lines_text)
qed

lemma db_message_text:
  assumes "json_context c" "utf8_envelopes parse_pb" "world_text w"
  shows "world_text (snd (db_message c parse_pb sec raw w))"
proof (cases "decode_message c parse_pb sec raw")
  case (PbMsg env)
  then have "parse_pb (strip_secret sec raw) = Some env" by (auto simp: decode_message_def split: option.splits sum.splits)
  then have "envelope_text env" using assms(2) by (auto simp: utf8_envelopes_def)
  then show ?thesis using PbMsg assms by (simp add: db_message_def Let_def router_handle_pb_text)
next
  case (JsonMsg j)
  then have "json_parse c raw = Inr j" by (auto simp: decode_message_def split: option.splits sum.splits)
  then have "world_text (snd (router_handle c j w))"
    using assms parsed_answer by (auto intro!: router_handle_text)
  then show ?thesis using JsonMsg
    by (cases "router_handle c j w") (auto simp: db_message_def Let_def split: option.split exn.split)
next
  case (BadMsg e)
  then show ?thesis using assms(3) by (simp add: db_message_def Let_def split: exn.split)
qed

lemma db_read_loop_text:
  assumes "json_context c" "utf8_envelopes parse_pb"
  shows "world_text w \<Longrightarrow> world_text (snd (snd (db_read_loop c parse_pb sec b w)))"
  using assms
proof (induction c parse_pb sec b w rule: db_read_loop.induct)
  case (1 c parse_pb sec b w)
  then show ?case
    using db_message_text [OF 1(3,4,2), of sec]
    by (subst db_read_loop.simps) (auto split: prod.split option.split; metis snd_conv)
qed

lemma on_db_read_text:
  "json_context c \<Longrightarrow> utf8_envelopes parse_pb \<Longrightarrow> world_text w \<Longrightarrow> world_text (snd (on_db_read c parse_pb data w))"
  by (simp add: on_db_read_def split_beta Let_def db_read_loop_text split: option.split)

lemma zone_broadcast_job_text:
  "world_text w \<Longrightarrow> json_text m \<Longrightarrow> world_text (zone_broadcast_job zid m sender w)"
  by (auto simp: zone_broadcast_job_def zone_broadcast_def world_text_def list_all_iff split: option.split)

lemma run_job_text:
  assumes "json_context c" "world_text w" "job_text j"
  shows "world_text (snd (run_job c j w))"
  using assms
  by (cases j) (simp_all add: run_job_def job_text_def udp_broadcast_job_def write_job_text task_job_text
      zone_broadcast_job_text udp_broadcast_to_text router_jobs_text)

lemma run_handler_text:
  "(\<And>w. world_text w \<Longrightarrow> world_text (snd (f w))) \<Longrightarrow> world_text w \<Longrightarrow> world_text (run_handler st f w)"
proof -
  assume a: "\<And>w. world_text w \<Longrightarrow> world_text (snd (f w))" "world_text w"
  have "world_text (snd (f (w\<lparr>cur_strand := st\<rparr>)))" by (rule a(1)) (simp add: a(2))
  then show ?thesis by (auto simp: run_handler_def split: prod.split option.split)
qed

lemma quiet_handler_text:
  "(\<And>w. world_text w \<Longrightarrow> world_text (f w)) \<Longrightarrow> world_text w \<Longrightarrow> world_text (quiet_handler st f w)"
  unfolding quiet_handler_def by (rule run_handler_text) simp_all

lemma list_all_drop_nth: "list_all P xs \<Longrightarrow> list_all P (drop_nth i xs)"
  by (auto simp: drop_nth_def list_all_iff dest: in_set_takeD in_set_dropD)

lemma world_text_posted: "world_text w \<Longrightarrow> world_text (w\<lparr>posted := drop_nth i (posted w)\<rparr>)"
  by (simp add: world_text_def list_all_drop_nth)

lemma handle_event_text:
  assumes "json_context c" "utf8_envelopes parse_pb" "world_text w" "enabled now ev w"
  shows "world_text (handle_event c parse_pb pid now ev w)"
proof (cases "\<exists>i. ev = RunJob i")
  case True
  then obtain i st j where i: "ev = RunJob i" "posted w ! i = (st, j)" by fastforce
  then have "(st, j) \<in> set (posted w)" using assms(4) nth_mem [of i "posted w"] by (simp add: enabled_def job_ready_def)
  then have "job_text j" using assms(3) by (auto simp: world_text_def list_all_iff)
  then show ?thesis using i assms
    by (auto simp: handle_event_def intro!: run_handler_text run_job_text world_text_posted)
next
  case False
  then show ?thesis
    by (cases ev)
       (auto simp: handle_event_def assms job_text_def split: prod.split
         intro!: run_handler_text quiet_handler_text on_accept_text on_read_text [OF assms(1)] on_write_complete_text
           on_login_timer_text on_keepalive_timer_text on_cleanup_timer_text on_udp_packet_text [OF assms(1)]
           on_db_read_text [OF assms(1,2)] router_jobs_text [OF assms(1)] dispatch_job_text)
qed

lemma server_start_text: "server_start c w \<Longrightarrow> world_text w"
proof -
  assume "server_start c w"
  then obtain now hw sec where new: "server_new c now hw sec = Some w" by (auto simp: server_start_def)
  let ?h = "snd (pool_new now (config_size c ''session_pool_size'' 1024) (config_size c ''max_session_pool_size'' 10000)
      0 0 (\<lambda>_. session_new now (-1) (SessStrand 0)))"
  have "session_text (?h a)" for a
    using pool_new_heap [of now "config_size c ''session_pool_size'' 1024" "config_size c ''max_session_pool_size'' 10000"
        0 0 "\<lambda>_. session_new now (-1) (SessStrand 0)" a] session_text_new by metis
  moreover have "heap w = ?h" "posted w = [(ClientStrand, ClientStartJob)]" "tcp_out w = []" "udp_out w = []"
    and "router w = Some (set_senders True True
                     (register_handler ''server_login_ack'' (register_handler ''keepalive_ack'' router_new)))"
    using new by (auto simp: server_new_def split_beta Let_def split: if_splits)
  ultimately show ?thesis
    by (simp add: world_text_def job_text_def router_text_def set_senders_def register_handler_def router_new_def)
qed

interpretation text_sys: transition_system "server_start c" "server_step c parse_pb pid"
    "\<lambda>w. json_context c \<and> utf8_envelopes parse_pb \<longrightarrow> world_text w"
  by unfold_locales (auto intro: server_start_text handle_event_text elim!: server_stepE)

section \<open>Properties\<close>

lemma running_context: "json_context running_context"
  by (simp add: json_context_def running_context_def)

text \<open>
  C10: Nobody can make the server send anything but JSON. In every state the running server
  can reach, whatever bytes clients, UDP senders and the middleware send (the Protobuf
  parser, as its documentation says, yields UTF-8 strings), every frame handed to a client
  socket is the length and a text that \<^verbatim>\<open>json::parse\<close> accepts, and so is every UDP datagram:
  no nickname and no chat text breaks out of the message it is put in, and no output is the
  result of a call of \<^verbatim>\<open>dump()\<close> that raises.
\<close>

theorem outputs_are_json:
  assumes "json_context c" "utf8_envelopes parse_pb" "reach (server_start c) (server_step c parse_pb pid) w"
  shows "(\<forall>(so, f) \<in> set (tcp_out w). \<exists>m v. f = frame_message m \<and> parse m = Inr v)
    \<and> (\<forall>(ep, d) \<in> set (udp_out w). \<exists>v. parse d = Inr v)"
proof -
  have w: "world_text w" using text_sys.reach_inv [OF assms(3)] assms(1,2) by blast
  have "\<exists>m v. f = frame_message m \<and> parse m = Inr v" if "(so, f) \<in> set (tcp_out w)" for so f
    using w that json_textE by (fastforce simp: world_text_def json_frame_def list_all_iff)
  moreover have "\<exists>v. parse d = Inr v" if "(ep, d) \<in> set (udp_out w)" for ep d
    using w that json_textE by (fastforce simp: world_text_def list_all_iff)
  ultimately show ?thesis by blast
qed

theorem outputs_are_json_witness:
  "\<exists>w. reach (server_start running_context) (server_step running_context (\<lambda>_. None) 0) w \<and> udp_out w \<noteq> []
     \<and> (\<forall>(ep, d) \<in> set (udp_out w). \<exists>v. parse d = Inr v)"
proof -
  let ?ev = "UdpPacket 0 (replicate 32 0) False ''x'' (''10.0.0.1'', 4000)"
  obtain w where w: "server_new running_context 0 2 ''key'' = Some w" "io_threads w = 2" "data_handler_alive w"
    by (simp add: server_new_def split_beta Let_def)
  have start: "reach (server_start running_context) (server_step running_context (\<lambda>_. None) 0) w"
    using w(1) by (intro reach_start) (auto simp: server_start_def config_size_def config_value_def size_t_of_int_def
        running_context_def example_context_def)
  define w' where "w' = handle_event running_context (\<lambda>_. None) 0 5 ?ev w"
  have "enabled 5 ?ev w" using w(2) by (simp add: enabled_def)
  with start have r: "reach (server_start running_context) (server_step running_context (\<lambda>_. None) 0) w'"
    unfolding w'_def by (intro reach_step [OF start]) (rule server_step.event)
  have "parse ''x'' = Inl Parse_error" by code_simp
  then have "udp_out w' \<noteq> []"
    using w(3) by (simp add: w'_def handle_event_def quiet_handler_def run_handler_def on_udp_packet_def try_parse_json_def
        running_context_def example_context_def config_size_def config_value_def size_t_of_int_def udp_answer_def
        send_udp_def register_bad_udp_packet_def is_blocked_udp_def Let_def split: option.split)
  moreover have "utf8_envelopes (\<lambda>_. None)" by (simp add: utf8_envelopes_def)
  ultimately show ?thesis using r outputs_are_json [OF running_context _ r] by blast
qed

end
