(* ===== verification/Spec2Isabelle.thy ===== *)
theory Spec2Isabelle
  imports Outputs
begin

text \<open>
  A verification library for the chat and zone server under \<^verbatim>\<open>src/ServerApplication\<close>: a
  C++ program on Boost.Asio that accepts TCP clients, logs them in with a nickname through a
  database middleware, relays chat lines to all sessions or to a zone, and relays UDP
  datagrams between clients that registered an endpoint.

  \<^bold>\<open>Parts of the program and the theories that model them.\<close>

  \<^item> \<open>Prelude\<close>: the containers and numbers the source uses: an \<^verbatim>\<open>unordered_map\<close> as an
    association list with distinct keys (\<open>um_find\<close>, \<open>um_put\<close>, \<open>um_erase\<close>), \<^verbatim>\<open>int\<close> and
    \<^verbatim>\<open>size_t\<close> conversions, clock durations in nanoseconds, and the two interfaces shared by
    the components: \<open>hash_map\<close> (what a table promises) and \<open>transition_system\<close> (an invariant
    of all reachable states).
  \<^item> \<open>Json\<close>: JSON values, the accessors \<^verbatim>\<open>value\<close>, \<^verbatim>\<open>contains\<close>, \<^verbatim>\<open>operator[]\<close> with the
    exceptions they raise.
  \<^item> \<open>JsonLexer\<close>, \<open>JsonParser\<close>: the classes \<^verbatim>\<open>lexer\<close>, \<^verbatim>\<open>parser\<close> and \<^verbatim>\<open>json_sax_dom_parser\<close>
    of the vendored \<^verbatim>\<open>json.hpp\<close>, through which all input passes: \<open>parse\<close> is \<^verbatim>\<open>json::parse\<close>.
    \<open>FloatText\<close>, \<open>JsonSerializer\<close>: its namespace \<^verbatim>\<open>dtoa_impl\<close> (Grisu2) and its class
    \<^verbatim>\<open>serializer\<close>: \<open>dump_text\<close> is \<^verbatim>\<open>dump()\<close>.
  \<^item> The lemmas on JSON text: \<open>Utf8Text\<close> (what the scanner accepts inside strings),
    \<open>DumpString\<close> and \<open>DumpInteger\<close> (printing and scanning strings and integers),
    \<open>DoubleRounding\<close>, \<open>CachedPowers\<close>, \<open>Grisu\<close>, \<open>DigitGen\<close>, \<open>FloatReads\<close> (the printed text of a
    double lies strictly between the midpoints around it, hence \<^verbatim>\<open>strtod\<close> gives it back),
    \<open>JsonText\<close> (the parser reads the text of a value in any context) and \<open>JsonRoundTrip\<close>
    (parsed values are well-formed, printing and parsing are inverse).
  \<^item> \<open>MessageBuffer\<close>: \<^verbatim>\<open>MessageBufferManager.cpp\<close>, the reassembly of length-prefixed
    messages with resynchronisation.
  \<^item> \<open>DoubleArith\<close>: multiplication and truncation in IEEE double precision, as far as the
    token bucket of \<^verbatim>\<open>Session.cpp\<close> needs it.
  \<^item> \<open>Utility\<close>: \<^verbatim>\<open>Utility.cpp\<close>, \<^verbatim>\<open>Utility.h\<close> and \<^verbatim>\<open>AppContext.h\<close>: the context every component
    gets (\<open>app_context\<close>: the configuration, the JSON parser and printer), secrets, random
    tokens and the sharded UDP rate limiter.
  \<^item> \<open>Session\<close>: the fields and local operations of \<^verbatim>\<open>Session.cpp\<close> and \<^verbatim>\<open>Session.h\<close>: life
    cycle, queues, tokens, the token bucket, \<open>reset\<close> and \<open>cleanup\<close>.
  \<^item> \<open>ZoneModel\<close>: \<^verbatim>\<open>Zone.cpp\<close> and \<^verbatim>\<open>ZoneManager.cpp\<close>. \<open>PoolModel\<close>: \<^verbatim>\<open>SessionPool.cpp\<close>.
    \<open>ManagerModel\<close>: \<^verbatim>\<open>SessionManager.cpp\<close>, the sharded session table and the nickname index.
  \<^item> \<open>Router\<close>: \<^verbatim>\<open>DBmwRouter.cpp\<close>: requests to the middleware with timeouts and retries.
    \<open>Client\<close>: \<^verbatim>\<open>DBMiddlewareClient.cpp\<close>: the connection to the middleware, its write queue,
    heartbeats and back-off.
  \<^item> \<open>World\<close>: the state of the whole process: a store of sessions by address, the tables,
    the jobs queued on each strand, the operations in flight and what was sent; the
    operations of \<^verbatim>\<open>Session.cpp\<close> that reach other objects (\<open>close_session\<close>, \<open>post_write\<close>,
    \<open>do_write_queue\<close>, \<open>post_task\<close>, \<open>do_read\<close>) and \<^verbatim>\<open>main\<close>'s start-up (\<open>server_new\<close>).
  \<^item> \<open>Handler\<close>: \<^verbatim>\<open>DataHandler.cpp\<close>: registration, broadcasts, keepalive, sweeps, zones,
    the record of bad UDP senders.
  \<^item> \<open>Backend\<close>: \<^verbatim>\<open>UseCases/LoginFlow.cpp\<close> and \<^verbatim>\<open>Handlers/DBmw\<close>: the login over the router,
    and the router and the client inside the world.
  \<^item> \<open>TcpHandlers\<close>: \<^verbatim>\<open>MessageDispatcher::dispatch\<close> and \<^verbatim>\<open>MessageHandlers\<close>. \<open>Udp\<close>: the UDP
    half of the dispatcher, \<^verbatim>\<open>UDPMessageHandlers\<close>, \<^verbatim>\<open>DataHandler::on_udp_receive\<close> and
    \<^verbatim>\<open>UDPManager.cpp\<close>.
  \<^item> \<open>Server\<close>: \<^verbatim>\<open>Server.cpp\<close>, the read callbacks of both connections, the jobs, and the event
    loop: \<open>handle_event\<close> says what one thread does with the next event, \<open>server_step\<close> is the
    resulting step relation. \<open>Outputs\<close>: the event loop with the parser and the printer of
    \<^verbatim>\<open>json.hpp\<close> plugged in, and the invariant that everything it sends is JSON text.

  \<^bold>\<open>How the code is rendered.\<close> A class is a record, an enumeration a datatype, an object
  behind a \<^verbatim>\<open>shared_ptr\<close> an address into the store. Every operation is a function from a
  state to a state; where the source raises, the result carries the exception (\<open>exn\<close>), and
  each \<^verbatim>\<open>catch\<close> is a case distinction at the place where the source has it. Counters of a
  fixed width are words or wrap explicitly, except where only an absurd number of events
  reaches their end: the counts of the limiter's shards (\<open>limiter_run_counts\<close>: at least
  \<open>2 ^ 64\<close> packets) and the client's counts of timeouts and missed heartbeats (\<open>2 ^ 31\<close> of
  them) are unbounded numbers. Times are integers of nanoseconds handed in by
  the event. \<^verbatim>\<open>boost::asio::post\<close> appends a job to \<open>posted\<close>; \<^verbatim>\<open>dispatch\<close> runs it at once when
  the caller is on the strand; a job runs only when no earlier one waits on its strand.
  Outgoing bytes are collected in \<open>tcp_out\<close>, \<open>udp_out\<close> and \<open>client_out\<close>. An exception that
  leaves a handler ends the thread that runs it, as \<^verbatim>\<open>main\<close>'s thread function does.

  \<^bold>\<open>What the lemmas show.\<close> Of JSON text: every parsed value is well-formed, printing never
  raises on such a value and stays inside its buffers, and parsing the printed text gives
  the value back, doubles included. Of the framing: a round trip for every way TCP may cut
  the stream, bounded memory, resynchronisation. Of the limiters: the advertised rates, in
  the floating-point arithmetic of the code. Of the tables: the sharded manager refines one
  map, zones keep their capacity, the pool hands a session to one client at a time as long
  as nobody gives back what has gone to another client, and an acquired session is described
  field by field. Of the router and the client: every request is settled exactly once, an
  unanswered one after exactly its retries, frames leave in order, every failure backs off. Of
  sessions: closing takes everything down, a login establishes exactly what it should, chat
  reaches exactly the right sessions, UDP needs the token. Of the whole: the resource bounds
  in every reachable state of the event loop, and that every frame and datagram it ever
  sends parses. Some lemmas state what the code does where its comments or its README say
  otherwise (a stale limiter shard, the write queue after an error, names that are never
  released, callbacks that raise outside any handler, a stale release of a pooled session, a
  login answer that arrives after its client has gone, a log line that counts as a failure
  to send).

  \<^bold>\<open>Termination and bounds.\<close> All definitions are total. The loops over a receive buffer end
  because every extraction shortens it (\<open>extract_shrinks\<close>), the parser because every token
  consumes input (\<open>scan_consumes\<close>); no fuel is used. A write behind the end of a buffer of the
  printer is an outcome of its own; \<open>digit_loops_end\<close>, \<open>float_roundtrip\<close>, \<open>string_escaping\<close>
  and \<open>integer_text\<close> show that it never happens. That no 64-bit counter of Grisu2 wraps is
  stated by a version of its loops in unbounded numbers that stops where one would
  (\<open>checked_grisu2\<close> in \<open>DigitGen\<close>) and returns the same. The token
  bucket is exact for intervals below \<open>2 ^ 35\<close> milliseconds, about a year, which is a
  hypothesis of the two lemmas on it.

  \<^bold>\<open>Parameters.\<close> The components are stated for any JSON parser and printer of the context;
  \<open>json_context\<close> says that they are the ones of \<^verbatim>\<open>json.hpp\<close>; \<open>Outputs\<close> and the properties at
  the end of this theory put both together. \<open>parse_pb\<close> stands for the parser that the
  Protobuf compiler generates, of which \<open>Outputs\<close> assumes what \<^verbatim>\<open>proto3\<close> promises, that
  strings are UTF-8; the process id, hashes of threads and draws of the random generator
  are arguments. The conversions of the C library in the scanner (\<^verbatim>\<open>strtoull\<close>,
  \<^verbatim>\<open>strtoll\<close>, \<^verbatim>\<open>strtod\<close>) are modelled as the standard describes them, \<^verbatim>\<open>strtod\<close> as correctly
  rounding.

  \<^bold>\<open>Not modelled.\<close> Logging (\<^verbatim>\<open>Logger\<close>, \<^verbatim>\<open>MemoryTracker\<close>, the monitor loop), which
  changes no state the rest depends on; the HTTP post of \<open>send_admin_alert\<close>, whose calls are
  recorded in \<open>alerts\<close>; the parts of \<^verbatim>\<open>json.hpp\<close> the server does not use (iterators, JSON
  pointers, patches, comments, the callback parser, binary formats, indented output, the
  lenient error handlers), the texts of its exceptions, and the generated Protobuf code; data
  races between handlers that run at the same time on different strands (handlers are atomic
  here), and the failure of an allocation.
\<close>

section \<open>Lemmas\<close>

lemma posted_messages_read:
  assumes "state (heap w a) \<noteq> Closed" "write_queue (heap w a) = []" "tcp_out w = []"
    and "length (posts es) \<le> config_size c ''max_write_queue_size'' 100"
    and "list_all (\<lambda>m. valid_len (length m)) (posts es)"
    and "concat chunks = concat (map snd (tcp_out (write_run c a es w)))"
  shows "\<exists>n \<le> length (posts es). write_queue (heap (write_run c a es w) a) = drop n (posts es)
     \<and> fst (receive_chunks empty_buffer chunks) = take (Suc n) (posts es)"
proof -
  obtain n where n: "n \<le> length (posts es)" "write_queue (heap (write_run c a es w) a) = drop n (posts es)"
    "tcp_out (write_run c a es w) = map (\<lambda>m. (socket (heap w a), frame_message m)) (take (Suc n) (posts es))"
    using write_run_order [OF assms(1,2)] assms(3,4) by auto
  have "list_all (\<lambda>m. valid_len (length m)) (take (Suc n) (posts es))"
    using assms(5) by (auto simp: list_all_iff dest: in_set_takeD)
  moreover have "buffer empty_buffer @ concat chunks = concat (map frame_message (take (Suc n) (posts es)))"
    using assms(6) by (simp add: n(3) o_def)
  ultimately have "\<exists>b. receive_chunks empty_buffer chunks = (take (Suc n) (posts es), b) \<and> buffer b = []"
    by (intro tcp.chunks_stream) (simp_all add: tcp.partial_def)
  with n(1,2) show ?thesis by auto
qed

lemma parse_posted:
  assumes "json_context c" "list_all json_ok vs"
  shows "map parse (take n (map (\<lambda>v. json_dump c v @ newline) vs)) = map (\<lambda>v. Inr (norm_value v)) (take n vs)"
proof -
  have "list_all json_ok (take n vs)" using assms(2) by (auto simp: list_all_iff dest: in_set_takeD)
  then have "map (\<lambda>v. parse (json_dump c v @ newline)) (take n vs) = map (\<lambda>v. Inr (norm_value v)) (take n vs)"
    using parse_line [OF assms(1)] by (induction "take n vs" arbitrary: vs n) (simp_all add: list_all_iff)
  then show ?thesis by (simp add: take_map o_def)
qed

lemma read_loop_values:
  assumes "json_parse c = parse" "list_all json_ok vs" "list_all (\<lambda>v. valid_len (length (printed v))) vs"
    and "tcp.partial p" "buffer b = concat (map (\<lambda>v. frame_message (printed v)) vs) @ p"
  shows "\<exists>b'. read_loop c pid now a b w = (True, b', fold (\<lambda>v. dispatch c pid now a (norm_value v)) vs w) \<and> buffer b' = p"
  using assms(2,3,5)
proof (induction vs arbitrary: b w)
  case Nil
  then have "tcp.partial (buffer b)" using assms(4) by simp
  then obtain b' where "extract_message b = (None, b')" "buffer b' = buffer b"
    using tcp.decode_empty tcp.decode_partial unfolding tcp.partial_def by metis
  with Nil show ?case by (subst read_loop.simps) simp
next
  case (Cons v vs)
  then obtain b1 where b1: "extract_message b = (Some (printed v), b1)" "buffer b1 = concat (map (\<lambda>v. frame_message (printed v)) vs) @ p"
    using tcp.decode_complete [of "printed v" b "concat (map (\<lambda>v. frame_message (printed v)) vs) @ p"] by auto
  have "parse (printed v) = Inr (norm_value v)"
    using parse_printed [of v "[]"] Cons.prems(1) by (simp add: bytes_of_def)
  then have "handle_message c pid now a (printed v) w = (True, dispatch c pid now a (norm_value v) w)"
    by (simp add: handle_message_def assms(1))
  with b1 Cons.IH [OF _ _ b1(2), of "dispatch c pid now a (norm_value v) w"] Cons.prems show ?case
    by (subst read_loop.simps) simp
qed

text \<open>A small message for the witnesses.\<close>

definition sample_value :: json where
  "sample_value = JObj [(''type'', JStr ''ping''), (''x'', JArr [JInt (- 7), JBool True])]"

lemma sample_ok: "json_ok sample_value"
  by (simp add: sample_value_def utf8_ok.simps bytes_of_def)

lemma sample_text: "printed sample_value = ''{\"type\":\"ping\",\"x\":[-7,true]}''"
proof -
  have "dump_string ''type'' = Inr (bytes_of ''\"type\"'')" "dump_string ''ping'' = Inr (bytes_of ''\"ping\"'')"
    "dump_string ''x'' = Inr (bytes_of ''\"x\"'')"
    by (simp_all add: dump_string_def dump_escaped_spec bytes_of_def utf8_ok.simps codepoints.simps
        escaped_def codepoint_bytes_def lead_bits_def)
  moreover have "numeral_bytes 7 = [0x37]" by (simp add: numeral_bytes_def nat_str.simps bytes_of_def)
  then have "dump_integer (- 7) = Inr (bytes_of ''-7'')" by (simp add: dump_integer_numeral bytes_of_def)
  ultimately have "dump sample_value = Inr (bytes_of ''{\"type\":\"ping\",\"x\":[-7,true]}'')"
    by (simp add: sample_value_def bytes_of_def)
  then show ?thesis by (simp only: printed_def dump_text_def sum.case dom_string_bytes_of)
qed

section \<open>Properties that span components\<close>

text \<open>
  C8: From the value a handler builds to the value the client's parser returns: JSON values that
  are posted to a session as lines are printed by \<^verbatim>\<open>dump()\<close>, queued, framed, cut by the
  network at any place, reassembled and parsed, and arrive in order, each once; exactly the
  others are still queued.
\<close>

theorem client_reads_posted_values:
  assumes "json_context c" "state (heap w a) \<noteq> Closed" "write_queue (heap w a) = []" "tcp_out w = []"
    and "posts es = map (\<lambda>v. json_dump c v @ newline) vs" "list_all json_ok vs"
    and "length vs \<le> config_size c ''max_write_queue_size'' 100"
    and "list_all (\<lambda>m. valid_len (length m)) (posts es)"
    and "concat chunks = concat (map snd (tcp_out (write_run c a es w)))"
  shows "\<exists>n \<le> length vs. write_queue (heap (write_run c a es w) a) = drop n (posts es)
     \<and> map parse (fst (receive_chunks empty_buffer chunks)) = map (\<lambda>v. Inr (norm_value v)) (take (Suc n) vs)"
proof -
  have "length (posts es) \<le> config_size c ''max_write_queue_size'' 100" using assms(5,7) by simp
  then obtain n where "n \<le> length (posts es)" "write_queue (heap (write_run c a es w) a) = drop n (posts es)"
    "fst (receive_chunks empty_buffer chunks) = take (Suc n) (posts es)"
    using posted_messages_read [OF assms(2-4) _ assms(8,9)] by blast
  then show ?thesis using parse_posted [OF assms(1,6)] assms(5) by (intro exI [of _ n]) simp
qed

theorem client_reads_posted_values_witness:
  "\<exists>w n. write_queue (heap (write_run running_context 0 [Post (printed sample_value @ newline), Complete] w) 0)
       = drop n [printed sample_value @ newline]
     \<and> map parse (fst (receive_chunks empty_buffer
         (map snd (tcp_out (write_run running_context 0 [Post (printed sample_value @ newline), Complete] w)))))
       = map (\<lambda>v. Inr (norm_value v)) (take (Suc n) [sample_value])"
proof -
  let ?es = "[Post (printed sample_value @ newline), Complete]"
  obtain w where w: "server_new example_context 0 2 ''key'' = Some w"
    by (simp add: server_new_def split_beta Let_def)
  define v where "v = upd 0 (\<lambda>_. session_new 0 1 (SessStrand 0)) w"
  have v: "state (heap v 0) \<noteq> Closed" "write_queue (heap v 0) = []" "tcp_out v = []"
    using w by (auto simp: v_def session_new_def server_new_def split_beta Let_def)
  have "posts ?es = map (\<lambda>v. json_dump running_context v @ newline) [sample_value]" by (simp add: running_context_def)
  moreover have "length [sample_value] \<le> config_size running_context ''max_write_queue_size'' 100"
    by (simp add: running_context_def example_context_def config_size_def config_value_def size_t_of_int_def)
  moreover have "list_all (\<lambda>m. valid_len (length m)) (posts ?es)"
    by (simp add: sample_text valid_len_def MAX_PACKET_SIZE_def)
  moreover have "list_all json_ok [sample_value]" by (simp add: sample_ok)
  ultimately obtain n where "write_queue (heap (write_run running_context 0 ?es v) 0) = drop n (posts ?es)"
    "map parse (fst (receive_chunks empty_buffer (map snd (tcp_out (write_run running_context 0 ?es v)))))
       = map (\<lambda>v. Inr (norm_value v)) (take (Suc n) [sample_value])"
    using client_reads_posted_values [OF running_context v _ _ _ _ refl] by blast
  then show ?thesis by (intro exI [of _ v] exI [of _ n] conjI) (simp_all only: posts_simps)
qed

text \<open>
  C14: From the bytes of a client to the handlers: when the receive buffer of a session holds
  the frames of JSON values a client printed, followed by an incomplete frame or nothing,
  the read loop dispatches exactly these values to the message handlers, in order, raises
  nothing of its own and keeps the incomplete frame for the next read.
\<close>

theorem server_dispatches_values:
  assumes "json_context c" "list_all json_ok vs" "list_all (\<lambda>v. valid_len (length (printed v))) vs"
    and "p = [] \<or> (\<exists>m. valid_len (length m) \<and> strict_prefix p (frame_message m))"
    and "buffer b = concat (map (\<lambda>v. frame_message (printed v)) vs) @ p"
  shows "\<exists>b'. read_loop c pid now a b w = (True, b', fold (\<lambda>v. dispatch c pid now a (norm_value v)) vs w) \<and> buffer b' = p"
  using assms by (intro read_loop_values) (simp_all add: json_context_def tcp.partial_def)

theorem server_dispatches_values_witness:
  "\<forall>w. \<exists>b'. read_loop running_context 0 0 3 (mbm_append (frame_message (printed sample_value) @ [CHR 0x00]) empty_buffer) w
     = (True, b', dispatch running_context 0 0 3 (norm_value sample_value) w) \<and> buffer b' = [CHR 0x00]"
proof -
  let ?b = "mbm_append (frame_message (printed sample_value) @ [CHR 0x00]) empty_buffer"
  have p: "[CHR 0x00] = [] \<or> (\<exists>m. valid_len (length m) \<and> strict_prefix [CHR 0x00] (frame_message m))"
    by (intro disjI2 exI [of _ "''a''"]) (simp add: valid_len_def MAX_PACKET_SIZE_def frame_message_def be32_def strict_prefix_def char_of_def)
  have b: "buffer ?b = concat (map (\<lambda>v. frame_message (printed v)) [sample_value]) @ [CHR 0x00]"
    using tcp.content_feed by simp
  show ?thesis
    using server_dispatches_values [OF running_context _ _ p b, of 0 0 3] sample_ok
    by (simp add: sample_text valid_len_def MAX_PACKET_SIZE_def)
qed

end
